(* ===== verification/Prelude.thy ===== *)
theory Prelude
  imports Main "HOL-Library.Word" "HOL-Library.Char_ord" "HOL-Library.List_Lexorder"
    "HOL-Library.Finite_Map" "HOL-Library.Sublist" "HOL-Library.Countable"
begin

text \<open>
  What every theory of the development shares: the model's base types, the two ways the Rust code
  fails (a returned error and a panic), the combinator that models \<open>.map_err(f)?\<close>, the collections
  of facts the component proofs draw on, and generic lemmas on maps and lists.

  Strings are byte lists: a Rust \<open>String\<close> is UTF-8, \<open>len\<close> counts bytes, and comparison is bytewise,
  which is the order \<open>List_Lexorder\<close> and \<open>Char_ord\<close> put on \<^typ>\<open>string\<close>.
\<close>

section \<open>Base types\<close>

type_synonym u64 = "64 word"

text \<open>\<open>Vec<u8>\<close>, an encoded message or an opaque payload.\<close>
type_synonym bytes = string

text \<open>\<open>std::time::Instant\<close> and \<open>Duration\<close> in nanoseconds; \<open>SystemTime\<close> in nanoseconds relative to
  \<open>UNIX_EPOCH\<close>, negative before it.\<close>
type_synonym instant = nat
type_synonym duration = nat
type_synonym system_time = int

section \<open>Errors and panics\<close>

text \<open>\<open>Result<T, E>\<close> is the sum \<open>'e + 'a\<close>.\<close>

abbreviation Ok :: "'a \<Rightarrow> 'e + 'a" where "Ok \<equiv> Inr"
abbreviation Err :: "'e \<Rightarrow> 'e + 'a" where "Err \<equiv> Inl"

text \<open>A panic carries the message of the \<open>expect\<close> or \<open>assert!\<close> that raised it.\<close>
datatype panic = Panic string

definition is_ok :: "'e + 'a \<Rightarrow> bool" where
  "is_ok r = (case r of Ok _ \<Rightarrow> True | Err _ \<Rightarrow> False)"

lemma is_ok_simps [simp]: "is_ok (Ok x)" "\<not> is_ok (Err e)"
  by (simp_all add: is_ok_def)

definition ok_or :: "'e \<Rightarrow> 'a option \<Rightarrow> 'e + 'a" where
  "ok_or e x = (case x of None \<Rightarrow> Err e | Some v \<Rightarrow> Ok v)"

lemma ok_or_simps [simp]: "ok_or e None = Err e" "ok_or e (Some v) = Ok v"
  by (simp_all add: ok_or_def)

lemma ok_or_eq_Ok [simp]: "ok_or e x = Ok v \<longleftrightarrow> x = Some v"
  by (cases x) auto

lemma ok_or_eq_Err [simp]: "ok_or e x = Err e' \<longleftrightarrow> x = None \<and> e' = e"
  by (cases x) auto

text \<open>\<open>call(..).map_err(f)?\<close> followed by the rest \<open>k\<close> of the function: an error leaves at once with
  the state the failing call produced.\<close>

definition try_call ::
  "('e \<Rightarrow> 'f) \<Rightarrow> ('e + 'a) \<times> 's \<Rightarrow> ('a \<Rightarrow> 's \<Rightarrow> ('f + 'b) \<times> 's) \<Rightarrow> ('f + 'b) \<times> 's" where
  "try_call f r k = (case r of (Err e, s) \<Rightarrow> (Err (f e), s) | (Ok v, s) \<Rightarrow> k v s)"

lemma try_call_simps [simp]:
  "try_call f (Err e, s) k = (Err (f e), s)"
  "try_call f (Ok v, s) k = k v s"
  by (simp_all add: try_call_def)

lemma try_call_eq_Ok:
  "try_call f r k = (Ok b, s') \<longleftrightarrow> (\<exists>v s. r = (Ok v, s) \<and> k v s = (Ok b, s'))"
  by (cases r; cases "fst r") auto

lemma try_call_eq_Err:
  "try_call f r k = (Err e', s') \<longleftrightarrow>
     (\<exists>e. r = (Err e, s') \<and> e' = f e) \<or> (\<exists>v s. r = (Ok v, s) \<and> k v s = (Err e', s'))"
  by (cases r; cases "fst r") auto

lemma try_call_split:
  "P (try_call f r k) \<longleftrightarrow>
     (\<forall>e s. r = (Err e, s) \<longrightarrow> P (Err (f e), s)) \<and> (\<forall>v s. r = (Ok v, s) \<longrightarrow> P (k v s))"
  by (cases r; cases "fst r") auto

text \<open>What the call and the rest both keep.\<close>

lemma try_call_keeps:
  assumes "I (snd r)" and "\<And>v s. r = (Ok v, s) \<Longrightarrow> I s \<Longrightarrow> I (snd (k v s))"
  shows "I (snd (try_call f r k))"
  using assms by (cases r; cases "fst r") auto

section \<open>Collections of facts\<close>

named_theorems op_defs \<open>definitions of the operations of the component under proof\<close>
named_theorems inv_defs \<open>definitions of the component invariants\<close>
named_theorems op_keeps \<open>an operation keeps an invariant\<close>

section \<open>Maps and lists\<close>

lemma fun_upd_Some_iff:
  "(m(k \<mapsto> v)) x = Some y \<longleftrightarrow> (x = k \<and> y = v) \<or> (x \<noteq> k \<and> m x = Some y)"
  by auto

lemma finite_dom_upd [simp]: "finite (dom m) \<Longrightarrow> finite (dom (m(k \<mapsto> v)))"
  by simp

lemma filter_distinct_eq_set:
  "distinct xs \<Longrightarrow> distinct (filter P xs) \<and> set (filter P xs) = {x \<in> set xs. P x}"
  by auto

lemma sorted_list_of_fset_props [simp]:
  "sorted (sorted_list_of_fset A)" "distinct (sorted_list_of_fset A)" "set (sorted_list_of_fset A) = fset A"
  by (simp_all add: sorted_list_of_fset.rep_eq)

end
