(* ===== verification/Protocols.thy ===== *)
theory Protocols
  imports Rust_Std
begin

text \<open>
  The messages of the protocol crate that \<^verbatim>\<open>src/src/protocols.rs\<close> re-exports, as records with the
  fields the sources read or write. A field that no code of the repository reads is left out; a
  value the sources only copy (a timestamp, a trace context) is kept as an opaque value.

  The encoders and decoders that the protocol crate generates are not part of the repository. They
  are the parameter \<^verbatim>\<open>wire\<close> of every definition that encodes or decodes; what the sources rely on
  is the named hypothesis \<^verbatim>\<open>wire_ok\<close>: decoding what was encoded gives the message back.
\<close>

section \<open>Common messages\<close>

text \<open>\<open>prost_types::Timestamp\<close> is only stored and forwarded.\<close>
type_synonym Timestamp = int

text \<open>A value of a message type the sources only pass on.\<close>
type_synonym opaque = bytes

type_synonym Metadata = "(string, string) fmap"

record ErrorInfo =
  err_code :: string
  err_message :: string
  err_metadata :: "Metadata option"

record ResourceRequirements =
  rr_cpu_millicores :: u64
  rr_memory_bytes :: u64
  rr_required_capabilities :: "string list"

record TaskIdentity =
  ti_namespace :: string
  ti_application :: string
  ti_name :: string
  ti_version :: string

section \<open>Execution messages\<close>

text \<open>The states the sources name, and any further state of the generated enumeration.\<close>
datatype ExecutionState = Assigned | Running | Succeeded | Failed | OtherState "8 word"

datatype JobState = JobAccepted | JobRunning | JobSucceeded | JobFailed

record JobResult =
  jr_execution_id :: string
  jr_payload :: bytes
  jr_serialization_format :: string
  jr_failure :: "ErrorInfo option"

text \<open>\<open>JobResult::default()\<close>\<close>
definition JobResult_default :: JobResult where
  "JobResult_default =
     \<lparr>jr_execution_id = [], jr_payload = [], jr_serialization_format = [], jr_failure = None\<rparr>"

datatype CommandStatus = CommandAccepted

record CommandResult =
  cr_status :: CommandStatus
  cr_error :: "ErrorInfo option"

record Job =
  job_job_id :: string
  job_application_namespace :: string
  job_task_name :: string
  job_state :: JobState
  job_created_at :: "Timestamp option"
  job_updated_at :: "Timestamp option"
  job_attempt_number :: nat
  job_metadata :: "Metadata option"
  job_task :: "TaskIdentity option"
  job_parent_execution_id :: "string option"
  job_root_execution_id :: "string option"

record SubmitTaskRequest =
  str_application_namespace :: string
  str_task_name :: string
  str_arguments :: bytes
  str_serialization_format :: string
  str_resources :: "ResourceRequirements option"
  str_metadata :: "Metadata option"
  str_task :: "TaskIdentity option"
  str_parent_execution_id :: "string option"

record SubmitTaskResponse =
  stres_job :: "Job option"
  stres_result :: "CommandResult option"

record GetJobResponse =
  gjr_job :: "Job option"
  gjr_result :: "JobResult option"

section \<open>Runtime messages\<close>

record AssignExecutionRequest =
  aer_assignment_id :: string
  aer_execution_id :: string
  aer_job_id :: string
  aer_task :: "TaskIdentity option"
  aer_arguments :: bytes
  aer_serialization_format :: string
  aer_reserved_resources :: "ResourceRequirements option"
  aer_deadline :: "Timestamp option"
  aer_metadata :: "Metadata option"

record CancelExecution =
  ce_assignment_id :: string
  ce_execution_id :: string
  ce_reason :: "string option"

text \<open>\<open>WorkerCommand\<close> with its \<open>payload\<close> present, as the sources always send it.\<close>
datatype WorkerCommand = AssignCommand AssignExecutionRequest | CancelCommand CancelExecution

record WorkerRegistration =
  wr_worker_id :: string
  wr_node_id :: "string option"
  wr_generation :: string
  wr_implementation_version :: string
  wr_protocol_versions :: "string list"
  wr_endpoint :: string
  wr_executors :: "opaque list"
  wr_capacity :: "ResourceRequirements option"
  wr_metadata :: "Metadata option"

record RegisterWorkerRequest =
  rwq_registration :: "WorkerRegistration option"

record RegisterWorkerResponse =
  rwr_accepted :: bool
  rwr_lease_id :: "string option"

text \<open>The \<open>status\<close> field of a heartbeat: the worker only reports \<open>RuntimeStatus::Ready\<close>.\<close>
datatype RuntimeStatus = RuntimeReady

record RuntimeHeartbeat =
  rh_runtime_id :: string
  rh_sequence_number :: u64
  rh_status :: RuntimeStatus
  rh_available_resources :: "ResourceRequirements option"
  rh_observed_at :: "Timestamp option"

record ReportHeartbeatRequest =
  rhq_heartbeat :: "RuntimeHeartbeat option"

record ReportHeartbeatResponse =
  rhr_accepted :: bool

record ReportExecutionResponse =
  rxr_accepted :: bool

text \<open>The \<open>state\<close> field is an \<open>i32\<close> on the wire: a peer may send a number that is no state.\<close>
record ReportExecutionRequest =
  rer_report_id :: string
  rer_assignment_id :: string
  rer_execution_id :: string
  rer_sequence_number :: u64
  rer_state :: int
  rer_outcome :: "JobResult option"
  rer_observed_at :: "Timestamp option"

text \<open>The fields the events of one execution share.\<close>
record ExecutionStarted =
  es_assignment_id :: string
  es_execution_id :: string
  es_sequence_number :: u64
  es_observed_at :: "Timestamp option"

text \<open>A floating point number as the range check sees it.\<close>
datatype float = NaN | NegInf | PosInf | Num rat

record ExecutionProgress =
  ep_assignment_id :: string
  ep_execution_id :: string
  ep_sequence_number :: u64
  ep_progress :: float

record ExecutionMetrics =
  em_assignment_id :: string
  em_execution_id :: string
  em_sequence_number :: u64
  em_execution_ms :: "u64 option"

record ExecutionCompleted =
  ec_assignment_id :: string
  ec_execution_id :: string
  ec_sequence_number :: u64
  ec_result :: "JobResult option"
  ec_observed_at :: "Timestamp option"

record ExecutionFailed =
  ef_assignment_id :: string
  ef_execution_id :: string
  ef_sequence_number :: u64
  ef_failure :: "ErrorInfo option"
  ef_observed_at :: "Timestamp option"

datatype EventPayload =
    Ready string
  | Heartbeat string u64
  | Started ExecutionStarted
  | Progress ExecutionProgress
  | Metrics ExecutionMetrics
  | Completed ExecutionCompleted
  | FailedEvent ExecutionFailed

text \<open>\<open>RuntimeEvent\<close> is its optional payload.\<close>
type_synonym RuntimeEvent = "EventPayload option"

section \<open>Broker messages\<close>

record BrokerEnvelope =
  be_message_id :: string
  be_message_kind :: string
  be_schema_version :: string
  be_source :: string
  be_destination :: string
  be_created_at :: "Timestamp option"
  be_expires_at :: "Timestamp option"
  be_payload :: bytes
  be_content_type :: "string option"
  be_correlation_id :: "string option"
  be_causation_id :: "string option"
  be_trace_context :: "opaque option"
  be_routing_headers :: "opaque option"

section \<open>Status of a remote call\<close>

datatype code =
  InvalidArgument | NotFound | AlreadyExists | FailedPrecondition | Unavailable | Internal
| Unimplemented

datatype Status = Status (status_code: code) (status_message: string)

section \<open>The wire format\<close>

text \<open>The generated encoders, decoders and enumeration conversions, and the \<open>Display\<close> of a
  \<open>tonic::Status\<close> and of a \<open>prost::DecodeError\<close>.\<close>

record wire =
  encode_submit :: "SubmitTaskRequest \<Rightarrow> bytes"
  decode_submit :: "bytes \<Rightarrow> string + SubmitTaskRequest"
  encode_assign :: "AssignExecutionRequest \<Rightarrow> bytes"
  decode_assign :: "bytes \<Rightarrow> string + AssignExecutionRequest"
  encode_envelope :: "BrokerEnvelope \<Rightarrow> bytes"
  decode_envelope :: "bytes \<Rightarrow> string + BrokerEnvelope"
  encode_registration :: "WorkerRegistration \<Rightarrow> bytes"
  decode_registration :: "bytes \<Rightarrow> string + WorkerRegistration"
  encode_result :: "JobResult \<Rightarrow> bytes"
  encode_command :: "CommandResult \<Rightarrow> bytes"
  state_code :: "ExecutionState \<Rightarrow> int"
  state_of_code :: "int \<Rightarrow> ExecutionState option"
  show_status :: "Status \<Rightarrow> string"

text \<open>What the sources rely on: \<open>decode\<close> inverts \<open>encode_to_vec\<close>, \<open>try_from\<close> inverts \<open>i32::from\<close>,
  and the numbers of the states fit an \<open>i32\<close>.\<close>

definition wire_ok :: "wire \<Rightarrow> bool" where
  "wire_ok W \<longleftrightarrow>
     (\<forall>m. decode_submit W (encode_submit W m) = Ok m)
   \<and> (\<forall>m. decode_assign W (encode_assign W m) = Ok m)
   \<and> (\<forall>m. decode_envelope W (encode_envelope W m) = Ok m)
   \<and> (\<forall>m. decode_registration W (encode_registration W m) = Ok m)
   \<and> (\<forall>s. state_of_code W (state_code W s) = Some s)
   \<and> (\<forall>s. - (2 ^ 31) \<le> state_code W s \<and> state_code W s < 2 ^ 31)"

lemma wire_okD:
  assumes "wire_ok W"
  shows "decode_submit W (encode_submit W m1) = Ok m1"
    and "decode_assign W (encode_assign W m2) = Ok m2"
    and "decode_envelope W (encode_envelope W m3) = Ok m3"
    and "decode_registration W (encode_registration W m4) = Ok m4"
    and "state_of_code W (state_code W s) = Some s"
    and "- (2 ^ 31) \<le> state_code W s" and "state_code W s < 2 ^ 31"
  using assms by (simp_all add: wire_ok_def)

end
