(* ===== verification/Pending_Lifecycle.thy ===== *)
theory Pending_Lifecycle
  imports Pending_Executions
begin

text \<open>
  The invariant of the worker's assignment table and what follows from it over every sequence of
  operations: the operations of \<open>PendingExecutions\<close> as a labelled step relation, runs of it, and
  the lifecycle of a single assignment along a run.
\<close>

section \<open>Invariant\<close>

definition untouched :: "AssignmentRecord \<Rightarrow> bool" where
  "untouched r \<longleftrightarrow> ar_last_sequence_number r = None \<and> ar_started_at r = None
     \<and> ar_worker_duration r = None \<and> ar_metrics r = []"

definition phase_ok :: "AssignmentRecord \<Rightarrow> bool" where
  "phase_ok r =
     (case ar_state r of
        AsgPending \<Rightarrow> ar_session_id r = None \<and> untouched r
      | AsgAssigned \<Rightarrow> ar_session_id r \<noteq> None \<and> untouched r
      | AsgRunning \<Rightarrow> ar_started_at r \<noteq> None \<and> ar_last_sequence_number r \<noteq> None
          \<and> ar_worker_duration r = None
      | _ \<Rightarrow> ar_session_id r = None \<and> ar_started_at r \<noteq> None
          \<and> ar_last_sequence_number r \<noteq> None \<and> ar_worker_duration r \<noteq> None)"

text \<open>The metrics a record keeps are about its execution, in the order of their sequence numbers,
  none newer than the last accepted event.\<close>

definition metrics_ok :: "AssignmentRecord \<Rightarrow> bool" where
  "metrics_ok r \<longleftrightarrow>
     sorted_wrt (<) (map em_sequence_number (ar_metrics r))
   \<and> (\<forall>m \<in> set (ar_metrics r).
        em_assignment_id m = aer_assignment_id (ar_assignment r)
      \<and> em_execution_id m = aer_execution_id (ar_assignment r)
      \<and> (\<exists>l. ar_last_sequence_number r = Some l \<and> em_sequence_number m \<le> l))"

definition record_ok :: "string \<Rightarrow> AssignmentRecord \<Rightarrow> bool" where
  "record_ok i r \<longleftrightarrow>
     aer_assignment_id (ar_assignment r) = i \<and> \<not> blank i
   \<and> \<not> blank (aer_execution_id (ar_assignment r)) \<and> phase_ok r \<and> metrics_ok r"

definition queue_ok :: "'a PendingState_scheme \<Rightarrow> bool" where
  "queue_ok p \<longleftrightarrow> distinct (ps_queue p)
     \<and> (\<forall>i. i \<in> set (ps_queue p) \<longleftrightarrow> (\<exists>r. ps_assignments p i = Some r \<and> ar_state r = AsgPending))"

definition pe_inv :: "'a PendingState_scheme \<Rightarrow> bool" where
  "pe_inv p \<longleftrightarrow> queue_ok p \<and> (\<forall>i r. ps_assignments p i = Some r \<longrightarrow> record_ok i r)
     \<and> finite (dom (ps_assignments p))"

lemmas record_defs [inv_defs] =
  record_ok_def phase_ok_def untouched_def metrics_ok_def

lemma pe_inv_recordD: "pe_inv p \<Longrightarrow> ps_assignments p i = Some r \<Longrightarrow> record_ok i r"
  by (simp add: pe_inv_def)

lemma pe_inv_queueD:
  "pe_inv p \<Longrightarrow> i \<in> set (ps_queue p) \<longleftrightarrow> (\<exists>r. ps_assignments p i = Some r \<and> ar_state r = AsgPending)"
  by (simp add: pe_inv_def queue_ok_def)

lemma pe_inv_default: "pe_inv pe_default"
  by (simp add: pe_inv_def queue_ok_def pe_default_def)

lemma iteration_order_exists:
  assumes "pe_inv p"
  shows "\<exists>keys. iteration_order keys (ps_assignments p)"
proof -
  from assms have "finite (dom (ps_assignments p))" by (simp add: pe_inv_def)
  then obtain keys where "set keys = dom (ps_assignments p)" "distinct keys"
    using finite_distinct_list [of "dom (ps_assignments p)"] by metis
  then show ?thesis unfolding iteration_order_def by metis
qed

section \<open>Every operation keeps the invariant\<close>

text \<open>Replacing a record that stays outside the queue.\<close>

lemma put_record_inv:
  assumes "pe_inv p" and "ps_assignments p i = Some r"
    and "record_ok i r'" and "ar_state r \<noteq> AsgPending" and "ar_state r' \<noteq> AsgPending"
  shows "pe_inv (put_record i r' p)"
  using assms by (auto simp: pe_inv_def queue_ok_def put_record_def)

lemma new_record_ok:
  "\<not> blank (aer_assignment_id a) \<Longrightarrow> \<not> blank (aer_execution_id a) \<Longrightarrow>
   record_ok (aer_assignment_id a) (new_record a)"
  by (simp add: inv_defs new_record_def)

lemma enqueue_inv [op_keeps]: "pe_inv p \<Longrightarrow> pe_inv (snd (enqueue a p))"
  using new_record_ok [of a]
  by (auto simp: enqueue_def pe_inv_def queue_ok_def Let_def new_record_def)

lemma register_session_inv [op_keeps]: "pe_inv p \<Longrightarrow> pe_inv (register_session s c p)"
  by (simp add: register_session_def pe_inv_def queue_ok_def)

lemma assigned_record_ok:
  "record_ok i r \<Longrightarrow> ar_state r = AsgPending \<Longrightarrow>
   record_ok i (r\<lparr>ar_state := AsgAssigned, ar_session_id := Some s\<rparr>)"
  by (simp add: inv_defs)

lemma next_for_inv [op_keeps]:
  assumes "pe_inv p"
  shows "pe_inv (snd (next_for s p))"
proof (cases "ps_queue p")
  case Nil
  with assms show ?thesis by (simp add: next_for_def)
next
  case (Cons i rest)
  with assms obtain r where r: "ps_assignments p i = Some r" "ar_state r = AsgPending"
    by (metis list.set_intros(1) pe_inv_queueD)
  with assms Cons show ?thesis
    using assigned_record_ok [OF pe_inv_recordD [OF assms r(1)] r(2), of s]
    by (auto simp: next_for_def pe_inv_def queue_ok_def)
qed

lemma validate_Ok:
  "validate p a e n = Ok r \<longleftrightarrow>
     ps_assignments p a = Some r \<and> aer_execution_id (ar_assignment r) = e
   \<and> \<not> stale n (ar_last_sequence_number r)"
  by (auto simp: validate_def split: option.splits if_splits)

lemma not_stale_metric:
  "metrics_ok r \<Longrightarrow> \<not> stale n (ar_last_sequence_number r) \<Longrightarrow> m \<in> set (ar_metrics r)
   \<Longrightarrow> em_sequence_number m < n"
  by (force simp: metrics_ok_def stale_def)

lemma started_inv [op_keeps]: "pe_inv p \<Longrightarrow> pe_inv (snd (started now e p))"
  by (auto simp: started_def validate_Ok inv_defs dest: pe_inv_recordD
      intro!: put_record_inv split: sum.splits)

lemma progress_record_ok:
  assumes "record_ok i r" "ar_state r = AsgRunning" "\<not> stale n (ar_last_sequence_number r)"
  shows "record_ok i (r\<lparr>ar_last_sequence_number := Some n\<rparr>)"
  using assms not_stale_metric [of r n] by (auto simp: inv_defs dest: less_imp_le)

lemma progress_inv [op_keeps]: "pe_inv p \<Longrightarrow> pe_inv (snd (progress e p))"
  by (auto simp: progress_def validate_Ok dest: pe_inv_recordD
      intro!: put_record_inv progress_record_ok split: sum.splits)

lemma metrics_record_ok:
  assumes "record_ok (em_assignment_id e) r" "ar_state r = AsgRunning"
    "aer_execution_id (ar_assignment r) = em_execution_id e"
    "\<not> stale (em_sequence_number e) (ar_last_sequence_number r)"
  shows "record_ok (em_assignment_id e)
     (r\<lparr>ar_last_sequence_number := Some (em_sequence_number e), ar_metrics := ar_metrics r @ [e]\<rparr>)"
  using assms not_stale_metric [of r "em_sequence_number e"]
  by (auto simp: inv_defs sorted_wrt_append dest: less_imp_le)

lemma metrics_inv [op_keeps]: "pe_inv p \<Longrightarrow> pe_inv (snd (metrics e p))"
  by (auto simp: metrics_def validate_Ok dest: pe_inv_recordD
      intro!: put_record_inv metrics_record_ok split: sum.splits)

lemma terminal_record_ok:
  assumes "record_ok i r" "ar_state r = AsgRunning" "\<not> stale n (ar_last_sequence_number r)"
    "st = AsgSucceeded \<or> st = AsgFailed"
  shows "record_ok i (r\<lparr>ar_state := st,
     ar_last_sequence_number := Some n, ar_worker_duration := Some d, ar_session_id := None\<rparr>)"
  using assms not_stale_metric [of r n] by (auto simp: inv_defs dest: less_imp_le)

lemma terminal_inv [op_keeps]: "pe_inv p \<Longrightarrow> pe_inv (snd (terminal now a e n ok p))"
  by (auto simp: terminal_def validate_Ok Let_def dest: pe_inv_recordD
      intro!: put_record_inv terminal_record_ok split: sum.splits option.splits)

section \<open>Disconnecting a session\<close>

text \<open>What \<open>disconnect\<close> does to one record of the session, and to the map.\<close>

definition release :: "AssignmentRecord \<Rightarrow> AssignmentRecord" where
  "release r = (if ar_state r = AsgAssigned then r\<lparr>ar_session_id := None, ar_state := AsgPending\<rparr>
                else r\<lparr>ar_session_id := None\<rparr>)"

definition release_all ::
  "(string \<Rightarrow> bool) \<Rightarrow> (string \<rightharpoonup> AssignmentRecord) \<Rightarrow> (string \<rightharpoonup> AssignmentRecord)" where
  "release_all P m = (\<lambda>i. if P i then map_option release (m i) else m i)"

definition assigned_in :: "'a PendingState_scheme \<Rightarrow> string \<Rightarrow> bool" where
  "assigned_in p i = (\<exists>r. ps_assignments p i = Some r \<and> ar_state r = AsgAssigned)"

lemma disconnect_loop_spec:
  assumes "distinct ids" and "\<forall>i \<in> set ids. ps_assignments p i \<noteq> None"
  shows "disconnect_loop ids q p =
     (Ok (q \<or> (\<exists>i \<in> set ids. assigned_in p i)),
      p\<lparr>ps_assignments := release_all (\<lambda>i. i \<in> set ids) (ps_assignments p),
        ps_queue := ps_queue p @ filter (assigned_in p) ids\<rparr>)"
  using assms
proof (induction ids arbitrary: q p)
  case Nil
  then show ?case by (simp add: release_all_def)
next
  case (Cons i ids)
  then obtain r where r: "ps_assignments p i = Some r" by auto
  have other: "filter (assigned_in p') ids = filter (assigned_in p) ids
      \<and> (\<exists>j \<in> set ids. assigned_in p' j) = (\<exists>j \<in> set ids. assigned_in p j)
      \<and> (\<forall>j \<in> set ids. ps_assignments p' j \<noteq> None)"
    if "\<And>j. j \<noteq> i \<Longrightarrow> ps_assignments p' j = ps_assignments p j" for p' :: "'a PendingState_scheme"
  proof -
    have "ps_assignments p' j = ps_assignments p j" if "j \<in> set ids" for j
      using that Cons.prems(1) \<open>\<And>j. j \<noteq> i \<Longrightarrow> ps_assignments p' j = ps_assignments p j\<close>
      by (metis distinct.simps(2))
    then show ?thesis using Cons.prems(2) by (auto simp: assigned_in_def intro!: filter_cong)
  qed
  have at_i: "assigned_in p i = (ar_state r = AsgAssigned)"
    using r by (simp add: assigned_in_def)
  have maps: "release_all (\<lambda>j. j \<in> set ids) ((ps_assignments p)(i \<mapsto> release r))
      = release_all (\<lambda>j. j \<in> set (i # ids)) (ps_assignments p)"
    using r Cons.prems(1) by (auto simp: release_all_def fun_eq_iff)
  show ?case
  proof (cases "ar_state r = AsgAssigned")
    case True
    let ?p = "p\<lparr>ps_assignments := (ps_assignments p)(i \<mapsto> release r), ps_queue := ps_queue p @ [i]\<rparr>"
    from True r have "disconnect_loop (i # ids) q p = disconnect_loop ids True ?p"
      by (simp add: release_def)
    moreover have "disconnect_loop ids True ?p =
        (Ok (True \<or> (\<exists>j \<in> set ids. assigned_in ?p j)),
         ?p\<lparr>ps_assignments := release_all (\<lambda>j. j \<in> set ids) (ps_assignments ?p),
            ps_queue := ps_queue ?p @ filter (assigned_in ?p) ids\<rparr>)"
      by (rule Cons.IH) (use Cons.prems(1) other [of ?p] in auto)
    moreover have "filter (assigned_in ?p) ids = filter (assigned_in p) ids"
        "(\<exists>j \<in> set ids. assigned_in ?p j) = (\<exists>j \<in> set ids. assigned_in p j)"
      using other [of ?p] by auto
    ultimately show ?thesis using True at_i maps by (simp del: fun_upd_apply)
  next
    case False
    let ?p = "p\<lparr>ps_assignments := (ps_assignments p)(i \<mapsto> release r)\<rparr>"
    from False r have "disconnect_loop (i # ids) q p = disconnect_loop ids q ?p"
      by (simp add: release_def)
    moreover have "disconnect_loop ids q ?p =
        (Ok (q \<or> (\<exists>j \<in> set ids. assigned_in ?p j)),
         ?p\<lparr>ps_assignments := release_all (\<lambda>j. j \<in> set ids) (ps_assignments ?p),
            ps_queue := ps_queue ?p @ filter (assigned_in ?p) ids\<rparr>)"
      by (rule Cons.IH) (use Cons.prems(1) other [of ?p] in auto)
    moreover have "filter (assigned_in ?p) ids = filter (assigned_in p) ids"
        "(\<exists>j \<in> set ids. assigned_in ?p j) = (\<exists>j \<in> set ids. assigned_in p j)"
      using other [of ?p] by auto
    ultimately show ?thesis using False at_i maps by (simp del: fun_upd_apply)
  qed
qed

lemma owned_by_sessions [simp]:
  "owned_by s (p\<lparr>ps_sessions := m\<rparr>) = owned_by s p" "assigned_in (p\<lparr>ps_sessions := m\<rparr>) = assigned_in p"
  by (auto simp: owned_by_def assigned_in_def fun_eq_iff)

lemma owned_by_iff: "owned_by s p i \<longleftrightarrow> (\<exists>r. ps_assignments p i = Some r \<and> ar_session_id r = Some s)"
  by (auto simp: owned_by_def split: option.splits)

lemma disconnect_spec:
  assumes "iteration_order keys (ps_assignments p)"
  shows "disconnect keys s p =
     (Ok (), p\<lparr>ps_sessions := (ps_sessions p)(s := None),
               ps_assignments := release_all (owned_by s p) (ps_assignments p),
               ps_queue := ps_queue p @ filter (\<lambda>i. owned_by s p i \<and> assigned_in p i) keys,
               pe_available := pe_available p
                 @ (if \<exists>i. owned_by s p i \<and> assigned_in p i then [NotifyWaiters] else [])\<rparr>)"
proof -
  let ?p = "p\<lparr>ps_sessions := (ps_sessions p)(s := None)\<rparr>"
  let ?ids = "filter (owned_by s p) keys"
  have keys: "set keys = dom (ps_assignments p)" "distinct keys"
    using assms by (simp_all add: iteration_order_def)
  have ids: "distinct ?ids" "\<forall>i \<in> set ?ids. ps_assignments ?p i \<noteq> None"
    using keys by (auto simp: owned_by_iff)
  have all: "i \<in> set ?ids \<longleftrightarrow> owned_by s p i" for i
    using keys by (auto simp: owned_by_iff)
  have "(\<exists>i \<in> set ?ids. assigned_in p i) \<longleftrightarrow> (\<exists>i. owned_by s p i \<and> assigned_in p i)"
    using all by blast
  moreover have "filter (assigned_in p) ?ids = filter (\<lambda>i. owned_by s p i \<and> assigned_in p i) keys"
    by (simp add: conj_commute)
  ultimately show ?thesis
    using disconnect_loop_spec [OF ids, of False] all
    by (auto simp: disconnect_def Let_def)
qed

lemma release_ok: "record_ok i r \<Longrightarrow> record_ok i (release r)"
  by (auto simp: inv_defs release_def split: AssignmentState.splits)

lemma release_pending:
  "record_ok i r \<Longrightarrow> ar_session_id r \<noteq> None \<Longrightarrow> ar_state (release r) = AsgPending \<longleftrightarrow> ar_state r = AsgAssigned"
  by (auto simp: inv_defs release_def)

lemma release_all_Some:
  "release_all P m i = Some r' \<longleftrightarrow> (\<exists>r. m i = Some r \<and> r' = (if P i then release r else r))"
  by (auto simp: release_all_def)

lemma disconnect_inv [op_keeps]:
  assumes inv: "pe_inv p" and ord: "iteration_order keys (ps_assignments p)"
  shows "pe_inv (snd (disconnect keys s p))"
proof -
  let ?m = "release_all (owned_by s p) (ps_assignments p)"
  let ?new = "filter (\<lambda>i. owned_by s p i \<and> assigned_in p i) keys"
  have keys: "set keys = dom (ps_assignments p)" "distinct keys"
    using ord by (simp_all add: iteration_order_def)
  have rec: "record_ok i r" if "?m i = Some r" for i r
    using that inv by (auto simp: release_all_Some release_ok pe_inv_recordD)
  have pend: "(\<exists>r. ?m i = Some r \<and> ar_state r = AsgPending) \<longleftrightarrow> i \<in> set (ps_queue p @ ?new)" for i
  proof (cases "ps_assignments p i")
    case None
    then show ?thesis
      using pe_inv_queueD [OF inv, of i] by (simp add: release_all_Some owned_by_iff)
  next
    case (Some r)
    then have "i \<in> set keys" and "record_ok i r" using keys inv by (auto simp: pe_inv_recordD)
    with Some show ?thesis
      using pe_inv_queueD [OF inv, of i] release_pending [of i r]
      by (cases "ar_session_id r = Some s")
        (auto simp: release_all_Some owned_by_iff assigned_in_def inv_defs)
  qed
  have "distinct (ps_queue p @ ?new)"
    using inv keys pe_inv_queueD [OF inv]
    by (auto simp: pe_inv_def queue_ok_def assigned_in_def)
  moreover have "finite (dom ?m)"
    by (rule finite_subset [of _ "dom (ps_assignments p)"])
      (use inv in \<open>auto simp: release_all_def pe_inv_def split: if_splits\<close>)
  ultimately show ?thesis
    using rec pend by (simp add: disconnect_spec [OF ord] pe_inv_def queue_ok_def)
qed

section \<open>Steps and runs\<close>

text \<open>One step is one method call, with any reading of the clock and any iteration order.
  \<open>cancel\<close> changes nothing in the table.\<close>

datatype pe_op =
    OpEnqueue AssignExecutionRequest
  | OpRegister string Sender
  | OpNextFor string
  | OpDisconnect string
  | OpStarted ExecutionStarted
  | OpProgress ExecutionProgress
  | OpMetrics ExecutionMetrics
  | OpTerminal string string u64 bool

inductive pe_step :: "pe_op \<Rightarrow> PendingExecutions \<Rightarrow> PendingExecutions \<Rightarrow> bool" where
  step_enqueue: "pe_step (OpEnqueue a) p (snd (enqueue a p))"
| step_register: "pe_step (OpRegister s c) p (register_session s c p)"
| step_next_for: "pe_step (OpNextFor s) p (snd (next_for s p))"
| step_disconnect: "iteration_order keys (ps_assignments p) \<Longrightarrow>
    pe_step (OpDisconnect s) p (snd (disconnect keys s p))"
| step_started: "pe_step (OpStarted e) p (snd (started now e p))"
| step_progress: "pe_step (OpProgress e) p (snd (progress e p))"
| step_metrics: "pe_step (OpMetrics e) p (snd (metrics e p))"
| step_terminal: "pe_step (OpTerminal a e n ok) p (snd (terminal now a e n ok p))"

inductive_cases pe_step_disconnectE: "pe_step (OpDisconnect s) p q"

inductive pe_run :: "pe_op list \<Rightarrow> PendingExecutions \<Rightarrow> PendingExecutions \<Rightarrow> bool" where
  run_nil: "pe_run [] p p"
| run_cons: "pe_step l p q \<Longrightarrow> pe_run ls q r \<Longrightarrow> pe_run (l # ls) p r"

inductive_simps pe_run_nil_iff [simp]: "pe_run [] p q"
inductive_simps pe_run_cons_iff: "pe_run (l # ls) p q"

lemma pe_step_inv: "pe_step l p q \<Longrightarrow> pe_inv p \<Longrightarrow> pe_inv q"
  by (induction rule: pe_step.induct) (simp_all add: op_keeps)

lemma pe_run_inv: "pe_run ls p q \<Longrightarrow> pe_inv p \<Longrightarrow> pe_inv q"
  by (induction rule: pe_run.induct) (auto dest: pe_step_inv)

lemma pe_run_one: "pe_step l p q \<Longrightarrow> pe_run [l] p q"
  by (rule run_cons [OF _ run_nil])

lemma pe_run_append: "pe_run ls p q \<Longrightarrow> pe_run ms q u \<Longrightarrow> pe_run (ls @ ms) p u"
  by (induction rule: pe_run.induct) (auto intro: pe_run.intros)

section \<open>One record along a run\<close>

definition is_final :: "AssignmentState \<Rightarrow> bool" where
  "is_final s \<longleftrightarrow> s = AsgSucceeded \<or> s = AsgFailed"

definition has_begun :: "AssignmentState \<Rightarrow> bool" where
  "has_begun s \<longleftrightarrow> s = AsgRunning \<or> is_final s"

fun lifecycle_edge :: "AssignmentState \<Rightarrow> AssignmentState \<Rightarrow> bool" where
  "lifecycle_edge AsgPending AsgAssigned = True"
| "lifecycle_edge AsgAssigned AsgPending = True"
| "lifecycle_edge AsgAssigned AsgRunning = True"
| "lifecycle_edge AsgRunning AsgSucceeded = True"
| "lifecycle_edge AsgRunning AsgFailed = True"
| "lifecycle_edge _ _ = False"

definition seq_le :: "u64 option \<Rightarrow> u64 option \<Rightarrow> bool" where
  "seq_le a b = (case a of None \<Rightarrow> True | Some x \<Rightarrow> (\<exists>y. b = Some y \<and> x \<le> y))"

lemma seq_le_refl [simp]: "seq_le a a"
  by (simp add: seq_le_def split: option.splits)

lemma seq_le_trans: "seq_le a b \<Longrightarrow> seq_le b c \<Longrightarrow> seq_le a c"
  by (auto simp: seq_le_def split: option.splits)

lemma seq_le_not_stale: "\<not> stale n l \<Longrightarrow> seq_le l (Some n)"
  by (auto simp: seq_le_def stale_def split: option.splits)

text \<open>What one method call can do to a record.\<close>

definition record_step :: "AssignmentRecord \<Rightarrow> AssignmentRecord \<Rightarrow> bool" where
  "record_step r r' \<longleftrightarrow>
     ar_assignment r' = ar_assignment r
   \<and> (ar_state r' = ar_state r \<or> lifecycle_edge (ar_state r) (ar_state r'))
   \<and> seq_le (ar_last_sequence_number r) (ar_last_sequence_number r')
   \<and> prefix (ar_metrics r) (ar_metrics r')
   \<and> (is_final (ar_state r) \<longrightarrow> r' = r)"

lemma record_step_refl [simp]: "record_step r r"
  by (simp add: record_step_def)

definition keeps_records :: "'a PendingState_scheme \<Rightarrow> 'a PendingState_scheme \<Rightarrow> bool" where
  "keeps_records p q \<longleftrightarrow> (\<forall>i r. ps_assignments p i = Some r \<longrightarrow>
     (\<exists>r'. ps_assignments q i = Some r' \<and> record_step r r'))"

lemma keeps_records_refl [simp]: "keeps_records p p"
  by (simp add: keeps_records_def)

lemma put_record_keeps:
  "ps_assignments p i = Some r \<Longrightarrow> record_step r r' \<Longrightarrow> keeps_records p (put_record i r' p)"
  by (simp add: keeps_records_def put_record_def)

lemma started_keeps: "keeps_records p (snd (started now e p))"
  by (auto simp: started_def validate_Ok record_step_def is_final_def seq_le_not_stale
      intro!: put_record_keeps split: sum.splits)

lemma progress_keeps: "keeps_records p (snd (progress e p))"
  by (auto simp: progress_def validate_Ok record_step_def is_final_def seq_le_not_stale
      intro!: put_record_keeps split: sum.splits)

lemma metrics_keeps: "keeps_records p (snd (metrics e p))"
  by (auto simp: metrics_def validate_Ok record_step_def is_final_def seq_le_not_stale
      intro!: put_record_keeps split: sum.splits)

lemma terminal_keeps: "keeps_records p (snd (terminal now a e n ok p))"
  by (auto simp: terminal_def validate_Ok record_step_def is_final_def seq_le_not_stale Let_def
      intro!: put_record_keeps split: sum.splits option.splits)

lemma enqueue_keeps: "keeps_records p (snd (enqueue a p))"
  by (auto simp: enqueue_def keeps_records_def Let_def)

lemma next_for_keeps:
  assumes "pe_inv p"
  shows "keeps_records p (snd (next_for s p))"
proof (cases "ps_queue p")
  case Nil
  then show ?thesis by (simp add: next_for_def)
next
  case (Cons i rest)
  with assms obtain r where "ps_assignments p i = Some r" "ar_state r = AsgPending"
    by (metis list.set_intros(1) pe_inv_queueD)
  with Cons show ?thesis
    by (simp add: next_for_def keeps_records_def record_step_def is_final_def)
qed

lemma disconnect_keeps:
  assumes "pe_inv p" and "iteration_order keys (ps_assignments p)"
  shows "keeps_records p (snd (disconnect keys s p))"
proof -
  have "record_step r (release r)" if "record_ok i r" "ar_session_id r = Some s" for i r
    using that by (auto simp: record_step_def release_def is_final_def inv_defs)
  then show ?thesis
    using pe_inv_recordD [OF assms(1)]
    by (auto simp: disconnect_spec [OF assms(2)] keeps_records_def release_all_Some owned_by_iff)
qed

lemma pe_step_keeps: "pe_step l p q \<Longrightarrow> pe_inv p \<Longrightarrow> keeps_records p q"
  by (induction rule: pe_step.induct)
    (simp_all add: started_keeps progress_keeps metrics_keeps terminal_keeps enqueue_keeps
      next_for_keeps disconnect_keeps, simp add: keeps_records_def register_session_def)

text \<open>What any number of calls can do to a record.\<close>

definition record_run :: "AssignmentRecord \<Rightarrow> AssignmentRecord \<Rightarrow> bool" where
  "record_run r r' \<longleftrightarrow>
     ar_assignment r' = ar_assignment r
   \<and> lifecycle_edge\<^sup>*\<^sup>* (ar_state r) (ar_state r')
   \<and> seq_le (ar_last_sequence_number r) (ar_last_sequence_number r')
   \<and> prefix (ar_metrics r) (ar_metrics r')
   \<and> (is_final (ar_state r) \<longrightarrow> r' = r)"

lemma record_step_run: "record_step r r' \<Longrightarrow> record_run r' r'' \<Longrightarrow> record_run r r''"
  by (auto simp: record_step_def record_run_def intro: seq_le_trans converse_rtranclp_into_rtranclp)

lemma pe_run_record:
  "pe_run ls p q \<Longrightarrow> pe_inv p \<Longrightarrow> ps_assignments p i = Some r \<Longrightarrow>
   \<exists>r'. ps_assignments q i = Some r' \<and> record_run r r'"
proof (induction arbitrary: r rule: pe_run.induct)
  case (run_nil p)
  then show ?case by (simp add: record_run_def)
next
  case (run_cons l p q ls u)
  then obtain r1 where r1: "ps_assignments q i = Some r1" "record_step r r1"
    using pe_step_keeps unfolding keeps_records_def by blast
  from run_cons.IH [OF pe_step_inv [OF run_cons.hyps(1) run_cons.prems(1)] r1(1)]
  show ?case using r1(2) record_step_run by blast
qed

lemma edge_has_begun: "lifecycle_edge\<^sup>*\<^sup>* s t \<Longrightarrow> has_begun s \<Longrightarrow> has_begun t"
proof (induction rule: rtranclp_induct)
  case base
  then show ?case .
next
  case (step y z)
  then show ?case
    by (cases "(y, z)" rule: lifecycle_edge.cases) (auto simp: has_begun_def is_final_def)
qed

section \<open>Ownership\<close>

text \<open>A record that is out of the queue and, while only assigned, belongs to session \<open>s\<close>.\<close>

definition held_by :: "string \<Rightarrow> AssignmentRecord \<Rightarrow> bool" where
  "held_by s r \<longleftrightarrow> ar_state r \<noteq> AsgPending \<and> (ar_state r = AsgAssigned \<longrightarrow> ar_session_id r = Some s)"

definition stays_held :: "string \<Rightarrow> 'a PendingState_scheme \<Rightarrow> 'a PendingState_scheme \<Rightarrow> bool" where
  "stays_held s p q \<longleftrightarrow> (\<forall>i r. ps_assignments p i = Some r \<and> held_by s r \<longrightarrow>
     (\<exists>r'. ps_assignments q i = Some r' \<and> held_by s r'))"

lemma stays_held_refl [simp]: "stays_held s p p"
  by (simp add: stays_held_def)

lemma put_record_held:
  "ps_assignments p i = Some r \<Longrightarrow> held_by s r' \<Longrightarrow> stays_held s p (put_record i r' p)"
  by (simp add: stays_held_def put_record_def)

lemma event_held:
  "stays_held s p (snd (started now e1 p))" "stays_held s p (snd (progress e2 p))"
  "stays_held s p (snd (metrics e3 p))" "stays_held s p (snd (terminal now a e n ok p))"
  by (auto simp: started_def progress_def metrics_def terminal_def validate_Ok held_by_def Let_def
      intro!: put_record_held split: sum.splits option.splits)

lemma next_for_held:
  assumes "pe_inv p"
  shows "stays_held s p (snd (next_for s' p))"
proof (cases "ps_queue p")
  case Nil
  then show ?thesis by (simp add: next_for_def)
next
  case (Cons i rest)
  with assms obtain r where "ps_assignments p i = Some r" "ar_state r = AsgPending"
    by (metis list.set_intros(1) pe_inv_queueD)
  with Cons show ?thesis by (auto simp: next_for_def stays_held_def held_by_def)
qed

lemma disconnect_held:
  assumes "iteration_order keys (ps_assignments p)" and "s' \<noteq> s"
  shows "stays_held s p (snd (disconnect keys s' p))"
  using assms(2)
  by (auto simp: disconnect_spec [OF assms(1)] stays_held_def held_by_def release_all_Some
      owned_by_iff release_def)

lemma pe_step_held:
  "pe_step l p q \<Longrightarrow> pe_inv p \<Longrightarrow> l \<noteq> OpDisconnect s \<Longrightarrow> stays_held s p q"
  by (induction rule: pe_step.induct)
    (auto simp: event_held next_for_held disconnect_held, auto simp: stays_held_def enqueue_def
      register_session_def Let_def)

lemma pe_run_held:
  "pe_run ls p q \<Longrightarrow> pe_inv p \<Longrightarrow> OpDisconnect s \<notin> set ls \<Longrightarrow> stays_held s p q"
proof (induction rule: pe_run.induct)
  case (run_nil p)
  then show ?case by simp
next
  case (run_cons l p q ls u)
  then have "stays_held s p q" and "stays_held s q u"
    using pe_step_held pe_step_inv by auto
  then show ?case unfolding stays_held_def by meson
qed

section \<open>The table as a first-in first-out queue\<close>

text \<open>The interface between the worker's assignment loop, which puts, and the runtime sessions, which
  take: a queue seen as the list of the waiting items.\<close>

datatype ('a, 's) queue_call = Put 'a | Take 's

fun queue_calls ::
  "('a \<Rightarrow> 'q \<Rightarrow> ('e + unit) \<times> 'q) \<Rightarrow> ('s \<Rightarrow> 'q \<Rightarrow> ('p + 'a) option \<times> 'q)
   \<Rightarrow> ('a, 's) queue_call list \<Rightarrow> 'q \<Rightarrow> 'a list \<times> 'a list \<times> 'q" where
  "queue_calls put tak [] q = ([], [], q)"
| "queue_calls put tak (Put x # cs) q =
     (let (r, q1) = put x q; (ins, outs, q2) = queue_calls put tak cs q1
      in (if is_ok r then x # ins else ins, outs, q2))"
| "queue_calls put tak (Take s # cs) q =
     (let (r, q1) = tak s q; (ins, outs, q2) = queue_calls put tak cs q1
      in (ins, case r of Some (Ok x) \<Rightarrow> x # outs | _ \<Rightarrow> outs, q2))"

locale work_queue =
  fixes put :: "'a \<Rightarrow> 'q \<Rightarrow> ('e + unit) \<times> 'q"
    and tak :: "'s \<Rightarrow> 'q \<Rightarrow> ('p + 'a) option \<times> 'q"
    and view :: "'q \<Rightarrow> 'a list"
    and invar :: "'q \<Rightarrow> bool"
  assumes put_ok: "invar q \<Longrightarrow> put x q = (Ok (), q') \<Longrightarrow> view q' = view q @ [x]"
    and put_err: "invar q \<Longrightarrow> put x q = (Err e, q') \<Longrightarrow> q' = q"
    and take_empty: "invar q \<Longrightarrow> view q = [] \<Longrightarrow> tak s q = (None, q)"
    and take_cons: "invar q \<Longrightarrow> view q = x # xs \<Longrightarrow> \<exists>q'. tak s q = (Some (Ok x), q') \<and> view q' = xs"
    and invar_put: "invar q \<Longrightarrow> invar (snd (put x q))"
    and invar_take: "invar q \<Longrightarrow> invar (snd (tak s q))"
begin

text \<open>Over any interleaving of puts and takes, what came out and what still waits is what waited and
  what was accepted, in that order.\<close>

lemma calls_fifo:
  "invar q \<Longrightarrow> queue_calls put tak cs q = (ins, outs, q') \<Longrightarrow>
   invar q' \<and> view q @ ins = outs @ view q'"
proof (induction cs arbitrary: q ins outs)
  case Nil
  then show ?case by simp
next
  case (Cons c cs)
  show ?case
  proof (cases c)
    case (Put x)
    obtain r q1 where r: "put x q = (r, q1)" by fastforce
    obtain ins1 outs1 where rest: "queue_calls put tak cs q1 = (ins1, outs1, q')"
      and ins: "ins = (if is_ok r then x # ins1 else ins1)" and outs: "outs = outs1"
      using Cons.prems(2) Put r by (auto simp: Let_def split: prod.splits)
    have "invar q1" using invar_put [OF Cons.prems(1), of x] r by simp
    from Cons.IH [OF this rest] show ?thesis
      using put_ok [OF Cons.prems(1), of x q1] put_err [OF Cons.prems(1), of x _ q1] r ins outs
      by (cases r) auto
  next
    case (Take s)
    obtain r q1 where r: "tak s q = (r, q1)" by fastforce
    obtain ins1 outs1 where rest: "queue_calls put tak cs q1 = (ins1, outs1, q')"
      and ins: "ins = ins1" and outs: "outs = (case r of Some (Ok x) \<Rightarrow> x # outs1 | _ \<Rightarrow> outs1)"
      using Cons.prems(2) Take r by (auto simp: Let_def split: prod.splits)
    have inv1: "invar q1" using invar_take [OF Cons.prems(1), of s] r by simp
    note IH = Cons.IH [OF inv1 rest]
    show ?thesis
    proof (cases "view q")
      case Nil
      then show ?thesis using take_empty [OF Cons.prems(1), of s] r ins outs IH by simp
    next
      case (Cons x xs)
      then obtain q2 where "tak s q = (Some (Ok x), q2)" "view q2 = xs"
        using take_cons \<open>invar q\<close> by meson
      then show ?thesis using Cons r ins outs IH by simp
    qed
  qed
qed

end

definition waiting :: "'a PendingState_scheme \<Rightarrow> AssignExecutionRequest list" where
  "waiting p = map (\<lambda>i. ar_assignment (the (ps_assignments p i))) (ps_queue p)"

lemma enqueue_waiting:
  assumes "pe_inv p" and "enqueue a p = (Ok (), q)"
  shows "waiting q = waiting p @ [a]"
proof -
  have "aer_assignment_id a \<notin> set (ps_queue p)"
    using assms pe_inv_queueD [OF assms(1)] by (auto simp: enqueue_def Let_def split: if_splits)
  with assms(2) show ?thesis
    by (auto simp: enqueue_def waiting_def Let_def new_record_def split: if_splits)
qed

lemma next_for_waiting:
  assumes inv: "pe_inv p" and w: "waiting p = a # w"
  shows "\<exists>q. next_for s p = (Some (Ok a), q) \<and> waiting q = w"
proof -
  from w obtain i rest where q: "ps_queue p = i # rest" by (auto simp: waiting_def)
  with inv obtain r where "ps_assignments p i = Some r" by (metis list.set_intros(1) pe_inv_queueD)
  moreover have "i \<notin> set rest" using inv q by (simp add: pe_inv_def queue_ok_def)
  ultimately show ?thesis using q w by (auto simp: next_for_def waiting_def)
qed

interpretation pending_queue: work_queue enqueue next_for waiting pe_inv
proof unfold_locales
  show "q' = q" if "enqueue x q = (Err e, q')" for q x e q'
    using that by (auto simp: enqueue_def Let_def split: if_splits)
  show "next_for s q = (None, q)" if "waiting q = []" for q :: PendingExecutions and s
    using that by (simp add: next_for_def waiting_def)
qed (simp_all add: enqueue_waiting next_for_waiting op_keeps)

section \<open>Properties\<close>

text \<open>A small run for the witnesses: an assignment is queued and handed to a session.\<close>

definition sample_assignment :: AssignExecutionRequest where
  "sample_assignment =
     \<lparr>aer_assignment_id = ''a'', aer_execution_id = ''e'', aer_job_id = ''j'', aer_task = None,
      aer_arguments = [], aer_serialization_format = ''json'', aer_reserved_resources = None,
      aer_deadline = None, aer_metadata = None\<rparr>"

definition sample_queued :: PendingExecutions where
  "sample_queued = snd (enqueue sample_assignment pe_default)"

definition sample_assigned :: PendingExecutions where
  "sample_assigned = snd (next_for ''s'' sample_queued)"

definition sample_started :: ExecutionStarted where
  "sample_started = \<lparr>es_assignment_id = ''a'', es_execution_id = ''e'', es_sequence_number = 1,
     es_observed_at = None\<rparr>"

definition sample_running :: PendingExecutions where
  "sample_running = snd (started 5 sample_started sample_assigned)"

definition sample_done :: PendingExecutions where
  "sample_done = snd (terminal 9 ''a'' ''e'' 2 True sample_running)"

lemma sample_not_blank [simp]: "\<not> blank ''a''" "\<not> blank ''e''"
  by (simp_all add: blank_def trim_id byte_def ws1_def)

lemma sample_inv: "pe_inv sample_queued" "pe_inv sample_assigned" "pe_inv sample_running"
    "pe_inv sample_done"
  by (simp_all add: sample_queued_def sample_assigned_def sample_running_def sample_done_def
      op_keeps pe_inv_default)

lemma sample_queued_eval:
  "ps_queue sample_queued = [''a'']"
  "ps_assignments sample_queued = [''a'' \<mapsto> new_record sample_assignment]"
  by (simp_all add: sample_queued_def enqueue_def sample_assignment_def pe_default_def Let_def)

lemma sample_assigned_eval:
  "ps_queue sample_assigned = []"
  "ps_assignments sample_assigned =
     [''a'' \<mapsto> (new_record sample_assignment)\<lparr>ar_state := AsgAssigned, ar_session_id := Some ''s''\<rparr>]"
  by (simp_all add: sample_assigned_def next_for_def sample_queued_eval new_record_def)

lemma sample_running_eval:
  "ps_assignments sample_running =
     [''a'' \<mapsto> (new_record sample_assignment)\<lparr>ar_state := AsgRunning, ar_session_id := Some ''s'',
        ar_last_sequence_number := Some 1, ar_started_at := Some 5\<rparr>]"
  by (simp add: sample_running_def started_def validate_def stale_def put_record_def
      sample_started_def sample_assigned_eval new_record_def sample_assignment_def)

lemma sample_done_eval:
  "ps_assignments sample_done =
     [''a'' \<mapsto> (new_record sample_assignment)\<lparr>ar_state := AsgSucceeded,
        ar_last_sequence_number := Some 2, ar_started_at := Some 5, ar_worker_duration := Some 4\<rparr>]"
  by (simp add: sample_done_def terminal_def validate_def stale_def put_record_def word_le_nat_alt
      sample_running_eval new_record_def sample_assignment_def)

lemma sample_run: "pe_run [OpEnqueue sample_assignment, OpNextFor ''s'',
    OpStarted sample_started, OpTerminal ''a'' ''e'' 2 True] pe_default sample_done"
  unfolding sample_done_def sample_running_def sample_assigned_def sample_queued_def
  by (rule pe_run.intros pe_step.intros)+

text \<open>C3. From the empty table, after any sequence of method calls, the queue holds exactly the
  pending assignments, each once, and every record is consistent with its state: identifiers not
  blank, session, start time, duration and metrics present exactly where the state says so.\<close>

theorem pending_table_invariant:
  assumes "pe_run ls pe_default p"
  shows "pe_inv p"
  using pe_run_inv [OF assms pe_inv_default] .

theorem pending_table_invariant_witness: "pe_inv sample_done"
  by (rule pending_table_invariant [OF sample_run])

text \<open>In every state the worker can reach, the two \<open>expect\<close> calls never fail: \<open>next_for\<close> waits
  exactly when nothing is queued and otherwise returns an assignment, and \<open>disconnect\<close> completes
  whatever the iteration order of the map.\<close>

lemma pending_table_no_panic:
  assumes "pe_run ls pe_default p"
  shows "(fst (next_for s p) = None \<longleftrightarrow> ps_queue p = [])
    \<and> (\<forall>e. fst (next_for s p) \<noteq> Some (Err e))
    \<and> (\<forall>keys. iteration_order keys (ps_assignments p) \<longrightarrow> fst (disconnect keys s p) = Ok ())"
proof (intro conjI allI impI)
  have inv: "pe_inv p" using pe_run_inv [OF assms pe_inv_default] .
  show "fst (next_for s p) = None \<longleftrightarrow> ps_queue p = []"
    using next_for_waiting [OF inv] by (cases "ps_queue p") (auto simp: next_for_def split: option.splits)
  show "fst (next_for s p) \<noteq> Some (Err e)" for e
    using pe_inv_queueD [OF inv, of "hd (ps_queue p)"]
    by (cases "ps_queue p") (auto simp: next_for_def split: option.splits)
  show "fst (disconnect keys s p) = Ok ()" if "iteration_order keys (ps_assignments p)" for keys
    by (simp add: disconnect_spec [OF that])
qed

lemma pending_table_no_panic_example:
  "iteration_order [''a''] (ps_assignments sample_done)
   \<and> fst (disconnect [''a''] ''s'' sample_done) = Ok ()"
proof -
  have "iteration_order [''a''] (ps_assignments sample_done)"
    by (simp add: iteration_order_def sample_done_eval)
  with pending_table_no_panic [OF sample_run, of "''s''"] show ?thesis by blast
qed

text \<open>C24. An assignment that was accepted is never dropped, altered or moved backwards by any later
  sequence of calls: it keeps its content, its state follows the lifecycle (pending and assigned
  alternate until it runs, running ends in success or failure), its last sequence number never
  decreases and its metrics only grow.\<close>

theorem assignment_kept_along_runs:
  assumes "pe_run ls p q" and "pe_inv p" and "ps_assignments p i = Some r"
  shows "\<exists>r'. ps_assignments q i = Some r' \<and> ar_assignment r' = ar_assignment r
    \<and> lifecycle_edge\<^sup>*\<^sup>* (ar_state r) (ar_state r')
    \<and> seq_le (ar_last_sequence_number r) (ar_last_sequence_number r')
    \<and> prefix (ar_metrics r) (ar_metrics r')"
  using pe_run_record [OF assms] by (auto simp: record_run_def)

theorem assignment_kept_along_runs_witness:
  "\<exists>r'. ps_assignments sample_done ''a'' = Some r' \<and> ar_assignment r' = sample_assignment
    \<and> lifecycle_edge\<^sup>*\<^sup>* AsgPending (ar_state r')"
proof -
  have run: "pe_run [OpNextFor ''s'', OpStarted sample_started, OpTerminal ''a'' ''e'' 2 True]
      sample_queued sample_done"
    unfolding sample_done_def sample_running_def sample_assigned_def
    by (rule pe_run.intros pe_step.intros)+
  show ?thesis
    using assignment_kept_along_runs [OF run sample_inv(1), of "''a''"]
    by (auto simp: sample_queued_eval new_record_def)
qed

text \<open>C8. A finished assignment is final: no later call changes anything in its record, and no
  event for it is accepted.\<close>

theorem finished_assignment_is_final:
  assumes "pe_run ls p q" and "pe_inv p" and "ps_assignments p i = Some r" and "is_final (ar_state r)"
  shows "ps_assignments q i = Some r
    \<and> \<not> is_ok (fst (terminal now i e n ok q))
    \<and> (es_assignment_id ev = i \<longrightarrow> \<not> is_ok (fst (started now ev q)))"
proof -
  from pe_run_record [OF assms(1-3)] assms(4) have q: "ps_assignments q i = Some r"
    by (auto simp: record_run_def)
  with assms(4) show ?thesis
    by (auto simp: terminal_def started_def validate_def is_final_def split: sum.splits if_splits)
qed

theorem finished_assignment_is_final_witness:
  "\<not> is_ok (fst (terminal 11 ''a'' ''e'' 3 False sample_done))"
proof -
  have "is_final (ar_state (the (ps_assignments sample_done ''a'')))"
    by (simp add: sample_done_eval is_final_def)
  then show ?thesis
    using finished_assignment_is_final [OF run_nil sample_inv(4), of "''a''" _ 11 "''e''" 3 False]
    by (simp add: sample_done_eval)
qed

text \<open>C9. Once the runtime reported that an assignment started, the assignment is never queued and
  so never handed to a session again, whatever happens later (disconnects included).\<close>

theorem started_assignment_never_handed_out_again:
  assumes "pe_run ls p q" and "pe_inv p" and "ps_assignments p i = Some r"
    and "has_begun (ar_state r)"
  shows "i \<notin> set (ps_queue q) \<and> fst (next_for s q) \<noteq> Some (Ok (ar_assignment r))"
proof -
  have inv: "pe_inv q" using pe_run_inv [OF assms(1,2)] .
  obtain r' where r': "ps_assignments q i = Some r'" "has_begun (ar_state r')"
    using pe_run_record [OF assms(1-3)] assms(4) edge_has_begun by (auto simp: record_run_def)
  then have notin: "i \<notin> set (ps_queue q)"
    using pe_inv_queueD [OF inv, of i] by (auto simp: has_begun_def is_final_def)
  have "aer_assignment_id (ar_assignment r) = i"
    using pe_inv_recordD [OF assms(2,3)] by (simp add: record_ok_def)
  moreover have "aer_assignment_id a = hd (ps_queue q)" if "fst (next_for s q) = Some (Ok a)" for a
    using that pe_inv_recordD [OF inv]
    by (auto simp: next_for_def record_ok_def split: list.splits option.splits)
  moreover have "ps_queue q \<noteq> []" if "fst (next_for s q) = Some (Ok a)" for a
    using that by (auto simp: next_for_def)
  ultimately show ?thesis using notin hd_in_set by metis
qed

theorem started_assignment_never_handed_out_again_witness:
  "''a'' \<notin> set (ps_queue (snd (disconnect [''a''] ''s'' sample_running)))"
proof -
  have ord: "iteration_order [''a''] (ps_assignments sample_running)"
    by (simp add: iteration_order_def sample_running_eval)
  have run: "pe_run [OpDisconnect ''s''] sample_running (snd (disconnect [''a''] ''s'' sample_running))"
    using step_disconnect [OF ord] by (auto intro: pe_run.intros)
  show ?thesis
    using started_assignment_never_handed_out_again [OF run sample_inv(3), of "''a''"]
    by (simp add: sample_running_eval has_begun_def)
qed

text \<open>C22. While a session holds an assignment, no other session gets it: after \<open>next_for\<close> gave it
  to session \<open>s\<close>, it stays out of the queue over every sequence of calls in which \<open>s\<close> is not
  disconnected.\<close>

theorem assignment_held_until_disconnect:
  assumes "pe_inv p" and "next_for s p = (Some (Ok a), p1)" and "pe_run ls p1 q"
    and "OpDisconnect s \<notin> set ls"
  shows "aer_assignment_id a \<notin> set (ps_queue q)"
proof -
  let ?i = "aer_assignment_id a"
  from assms(2) obtain i rest r where i: "ps_queue p = i # rest" "ps_assignments p i = Some r"
      "a = ar_assignment r"
      "ps_assignments p1 i = Some (r\<lparr>ar_state := AsgAssigned, ar_session_id := Some s\<rparr>)"
    by (auto simp: next_for_def split: list.splits option.splits)
  have id: "?i = i" using pe_inv_recordD [OF assms(1) i(2)] i(3) by (simp add: record_ok_def)
  have inv1: "pe_inv p1" using next_for_inv [OF assms(1), of s] assms(2) by simp
  obtain r' where "ps_assignments q i = Some r'" "held_by s r'"
    using pe_run_held [OF assms(3) inv1 assms(4)] i(4)
    by (force simp: stays_held_def held_by_def)
  then show ?thesis
    using pe_inv_queueD [OF pe_run_inv [OF assms(3) inv1], of i] id by (auto simp: held_by_def)
qed

theorem assignment_held_until_disconnect_witness:
  "''a'' \<notin> set (ps_queue (snd (next_for ''other'' sample_assigned)))"
proof -
  have run: "pe_run [OpNextFor ''other''] sample_assigned (snd (next_for ''other'' sample_assigned))"
    by (rule pe_run.intros pe_step.intros)+
  have "next_for ''s'' sample_queued = (Some (Ok sample_assignment), sample_assigned)"
    by (simp add: sample_assigned_def next_for_def sample_queued_eval new_record_def)
  from assignment_held_until_disconnect [OF sample_inv(1) this run] show ?thesis
    by (simp add: sample_assignment_def)
qed

text \<open>Runs of the table that keep what was put in line and what was handed out. An assignment is put in line
  when it is accepted, and again when the session that held it closes before it was started.\<close>

definition given_back :: "string list \<Rightarrow> string \<Rightarrow> PendingExecutions \<Rightarrow> AssignExecutionRequest list" where
  "given_back keys s p = map (\<lambda>i. ar_assignment (the (ps_assignments p i)))
     (filter (\<lambda>i. \<exists>r. ps_assignments p i = Some r \<and> ar_session_id r = Some s \<and> ar_state r = AsgAssigned) keys)"

inductive line_run ::
  "AssignExecutionRequest list \<Rightarrow> AssignExecutionRequest list \<Rightarrow> PendingExecutions \<Rightarrow> PendingExecutions \<Rightarrow> bool" where
  line_stop: "line_run [] [] p p"
| line_accepted: "enqueue a p = (Ok (), p1) \<Longrightarrow> line_run ins outs p1 q \<Longrightarrow> line_run (a # ins) outs p q"
| line_refused: "enqueue a p = (Err e, p1) \<Longrightarrow> line_run ins outs p1 q \<Longrightarrow> line_run ins outs p q"
| line_handed: "next_for s p = (Some (Ok a), p1) \<Longrightarrow> line_run ins outs p1 q \<Longrightarrow> line_run ins (a # outs) p q"
| line_waits: "next_for s p = (None, p1) \<Longrightarrow> line_run ins outs p1 q \<Longrightarrow> line_run ins outs p q"
| line_closed: "iteration_order keys (ps_assignments p) \<Longrightarrow> disconnect keys s p = (r, p1) \<Longrightarrow>
    line_run ins outs p1 q \<Longrightarrow> line_run (given_back keys s p @ ins) outs p q"
| line_other: "pe_step l p p1 \<Longrightarrow> \<forall>a s. l \<noteq> OpEnqueue a \<and> l \<noteq> OpNextFor s \<and> l \<noteq> OpDisconnect s \<Longrightarrow>
    line_run ins outs p1 q \<Longrightarrow> line_run ins outs p q"

text \<open>The other methods keep the line.\<close>

lemma put_record_waiting:
  assumes "pe_inv p" and "ps_assignments p i = Some r" and "ar_state r \<noteq> AsgPending"
  shows "waiting (put_record i r' p) = waiting p"
proof -
  have "i \<notin> set (ps_queue p)" using pe_inv_queueD [OF assms(1)] assms(2,3) by auto
  then show ?thesis by (auto simp: waiting_def put_record_def)
qed

lemma other_waiting:
  assumes "pe_step l p q" and "pe_inv p" and "\<forall>a s. l \<noteq> OpEnqueue a \<and> l \<noteq> OpNextFor s \<and> l \<noteq> OpDisconnect s"
  shows "waiting q = waiting p"
  using assms
proof (induction rule: pe_step.induct)
  case (step_register s c p)
  then show ?case by (simp add: register_session_def waiting_def)
next
  case (step_started e p now)
  then show ?case by (auto simp: started_def validate_Ok intro: put_record_waiting split: sum.splits)
next
  case (step_progress e p)
  then show ?case by (auto simp: progress_def validate_Ok intro: put_record_waiting split: sum.splits)
next
  case (step_metrics e p)
  then show ?case by (auto simp: metrics_def validate_Ok intro: put_record_waiting split: sum.splits)
next
  case (step_terminal a e n ok p now)
  then show ?case by (auto simp: terminal_def validate_Ok Let_def intro: put_record_waiting split: sum.splits option.splits)
qed simp_all

lemma disconnect_waiting:
  assumes inv: "pe_inv p" and ord: "iteration_order keys (ps_assignments p)"
  shows "waiting (snd (disconnect keys s p)) = waiting p @ given_back keys s p"
proof -
  have same: "ar_assignment (the (release_all P m i)) = ar_assignment (the (m i))" if "m i \<noteq> None" for P m i
    using that by (auto simp: release_all_def release_def)
  have "owned_by s p i \<and> assigned_in p i \<longleftrightarrow>
      (\<exists>r. ps_assignments p i = Some r \<and> ar_session_id r = Some s \<and> ar_state r = AsgAssigned)" for i
    by (auto simp: owned_by_iff assigned_in_def)
  then show ?thesis
    unfolding disconnect_spec [OF ord] waiting_def given_back_def
    using pe_inv_queueD [OF inv] same by (auto simp: map_eq_conv)
qed

text \<open>C23. Assignments leave the line in the order in which they were put there, whatever methods of the
  table are called and whoever calls them: what was handed out followed by what still waits is what waited
  before followed by what was put in line since. Put in line, at its end, are the assignments that were
  accepted and those that a closing session gives back because it had not started them.\<close>

theorem assignments_are_fifo:
  assumes "pe_inv p" and "line_run ins outs p q"
  shows "waiting p @ ins = outs @ waiting q"
  using assms(2,1)
proof (induction rule: line_run.induct)
  case (line_stop p)
  show ?case by simp
next
  case (line_accepted a p p1 ins outs q)
  have "pe_inv p1" using enqueue_inv [OF line_accepted.prems, of a] line_accepted.hyps by simp
  with line_accepted enqueue_waiting [OF line_accepted.prems] show ?case by simp
next
  case (line_refused a p e p1 ins outs q)
  then have "p1 = p" by (auto simp: enqueue_def Let_def split: if_splits)
  with line_refused show ?case by simp
next
  case (line_handed s p a p1 ins outs q)
  have inv: "pe_inv p1" using next_for_inv [OF line_handed.prems, of s] line_handed.hyps by simp
  obtain b w where w: "waiting p = b # w"
    using line_handed.hyps(1) by (cases "ps_queue p") (auto simp: next_for_def waiting_def)
  with line_handed.IH [OF inv] next_for_waiting [OF line_handed.prems w, of s] line_handed.hyps show ?case by auto
next
  case (line_waits s p p1 ins outs q)
  then have "p1 = p" by (auto simp: next_for_def split: list.splits option.splits)
  with line_waits show ?case by simp
next
  case (line_closed keys p s r p1 ins outs q)
  have "pe_inv p1" "waiting p1 = waiting p @ given_back keys s p"
    using disconnect_inv [OF line_closed.prems line_closed.hyps(1), of s]
      disconnect_waiting [OF line_closed.prems line_closed.hyps(1), of s] line_closed.hyps(2) by simp_all
  with line_closed.IH show ?case by simp
next
  case (line_other l p p1 ins outs q)
  then show ?case using other_waiting pe_step_inv by metis
qed

text \<open>The queued assignment is handed out and given back.\<close>

theorem assignments_are_fifo_witness:
  "\<exists>q. line_run [sample_assignment, sample_assignment] [sample_assignment] pe_default q \<and> waiting q = [sample_assignment]"
proof -
  have put: "enqueue sample_assignment pe_default = (Ok (), sample_queued)"
    by (simp add: sample_queued_def enqueue_def pe_default_def sample_assignment_def Let_def)
  have take: "next_for ''s'' sample_queued = (Some (Ok sample_assignment), sample_assigned)"
    by (simp add: sample_assigned_def next_for_def sample_queued_eval new_record_def)
  have ord: "iteration_order [''a''] (ps_assignments sample_assigned)"
    by (simp add: iteration_order_def sample_assigned_eval)
  have "given_back [''a''] ''s'' sample_assigned = [sample_assignment]"
    by (simp add: given_back_def sample_assigned_eval new_record_def)
  then have run: "line_run [sample_assignment, sample_assignment] [sample_assignment] pe_default
      (snd (disconnect [''a''] ''s'' sample_assigned))"
    using line_accepted [OF put line_handed [OF take line_closed [OF ord prod.collapse [symmetric] line_stop]], of "''s''"] by simp
  from assignments_are_fifo [OF pe_inv_default run] run show ?thesis by (auto simp: waiting_def pe_default_def)
qed

text \<open>Without sessions that close, the order is that of acceptance.\<close>

lemma accepted_order:
  assumes "pe_inv p" and "queue_calls enqueue next_for cs p = (accepted, handed_out, q)"
  shows "waiting p @ accepted = handed_out @ waiting q"
  using pending_queue.calls_fifo [OF assms] by simp

end
