(* ===== verification/Pending_Spec.thy ===== *)
theory Pending_Spec
  imports Pending_Lifecycle
begin

text \<open>
  What \<open>PendingExecutions\<close> promises, without sequence numbers, clocks, metrics, sessions or notifications: a
  dispenser that hands every offered assignment to one holder at a time, in order, takes it back as long as
  it was not begun, and ends it once. The table refines it: whatever calls are made on the table and
  whatever they answer, the dispenser can do and answer the same.
\<close>

section \<open>The dispenser\<close>

datatype standing = InLine | HeldBy string | Begun | Ended bool

record dispenser =
  dp_line :: "string list"
  dp_items :: "string \<rightharpoonup> AssignExecutionRequest \<times> standing"

text \<open>A call with what it answered; a panic is an event of its own.\<close>

datatype table_event =
    Offered AssignExecutionRequest bool
  | Opened string
  | Taken string "AssignExecutionRequest option"
  | Returned string
  | Began string bool
  | Noted string bool
  | Finished string bool bool
  | Crashed panic

definition acceptable :: "AssignExecutionRequest \<Rightarrow> dispenser \<Rightarrow> bool" where
  "acceptable a d \<longleftrightarrow> \<not> blank (aer_assignment_id a) \<and> \<not> blank (aer_execution_id a)
     \<and> dp_items d (aer_assignment_id a) = None"

definition held_items :: "string \<Rightarrow> dispenser \<Rightarrow> string set" where
  "held_items s d = {i. \<exists>a. dp_items d i = Some (a, HeldBy s)}"

definition move_item :: "string \<Rightarrow> standing \<Rightarrow> dispenser \<Rightarrow> dispenser" where
  "move_item i st d = d\<lparr>dp_items := (dp_items d)(i := map_option (\<lambda>x. (fst x, st)) (dp_items d i))\<rparr>"

definition take_back :: "string list \<Rightarrow> dispenser \<Rightarrow> dispenser" where
  "take_back ks d = d\<lparr>dp_line := dp_line d @ ks,
     dp_items := (\<lambda>i. if i \<in> set ks then map_option (\<lambda>x. (fst x, InLine)) (dp_items d i) else dp_items d i)\<rparr>"

text \<open>The dispenser never crashes. An event of a runtime may be refused; it is accepted only when the
  assignment stands where the event needs it.\<close>

inductive dispenser_step :: "table_event \<Rightarrow> dispenser \<Rightarrow> dispenser \<Rightarrow> bool" where
  offered: "acceptable a d \<Longrightarrow> dispenser_step (Offered a True) d
     (d\<lparr>dp_line := dp_line d @ [aer_assignment_id a], dp_items := (dp_items d)(aer_assignment_id a \<mapsto> (a, InLine))\<rparr>)"
| not_offered: "\<not> acceptable a d \<Longrightarrow> dispenser_step (Offered a False) d d"
| opened: "dispenser_step (Opened s) d d"
| taken: "dp_line d = i # rest \<Longrightarrow> dp_items d i = Some (a, InLine) \<Longrightarrow>
     dispenser_step (Taken s (Some a)) d (move_item i (HeldBy s) (d\<lparr>dp_line := rest\<rparr>))"
| nothing_there: "dp_line d = [] \<Longrightarrow> dispenser_step (Taken s None) d d"
| returned: "distinct ks \<Longrightarrow> set ks = held_items s d \<Longrightarrow> dispenser_step (Returned s) d (take_back ks d)"
| began: "dp_items d i = Some (a, HeldBy s) \<Longrightarrow> dispenser_step (Began i True) d (move_item i Begun d)"
| not_begun: "dispenser_step (Began i False) d d"
| noted: "dp_items d i = Some (a, Begun) \<Longrightarrow> dispenser_step (Noted i True) d d"
| not_noted: "dispenser_step (Noted i False) d d"
| ended: "dp_items d i = Some (a, Begun) \<Longrightarrow> dispenser_step (Finished i ok True) d (move_item i (Ended ok) d)"
| not_ended: "dispenser_step (Finished i ok False) d d"

inductive dispenser_trace :: "table_event list \<Rightarrow> dispenser \<Rightarrow> dispenser \<Rightarrow> bool" where
  spec_nil: "dispenser_trace [] d d"
| spec_cons: "dispenser_step e d d1 \<Longrightarrow> dispenser_trace es d1 d2 \<Longrightarrow> dispenser_trace (e # es) d d2"

section \<open>The table\<close>

text \<open>The calls of the table with what they answer, at any clock and in any iteration order.\<close>

inductive table_step :: "table_event \<Rightarrow> PendingExecutions \<Rightarrow> PendingExecutions \<Rightarrow> bool" where
  call_enqueue: "enqueue a p = (r, q) \<Longrightarrow> table_step (Offered a (is_ok r)) p q"
| call_register: "table_step (Opened s) p (register_session s c p)"
| call_next_waits: "next_for s p = (None, q) \<Longrightarrow> table_step (Taken s None) p q"
| call_next: "next_for s p = (Some (Ok a), q) \<Longrightarrow> table_step (Taken s (Some a)) p q"
| call_next_panics: "next_for s p = (Some (Err e), q) \<Longrightarrow> table_step (Crashed e) p q"
| call_disconnect: "iteration_order keys (ps_assignments p) \<Longrightarrow> disconnect keys s p = (Ok (), q) \<Longrightarrow>
    table_step (Returned s) p q"
| call_disconnect_panics: "iteration_order keys (ps_assignments p) \<Longrightarrow> disconnect keys s p = (Err e, q) \<Longrightarrow>
    table_step (Crashed e) p q"
| call_started: "started now e p = (r, q) \<Longrightarrow> table_step (Began (es_assignment_id e) (is_ok r)) p q"
| call_progress: "progress e p = (r, q) \<Longrightarrow> table_step (Noted (ep_assignment_id e) (is_ok r)) p q"
| call_metrics: "metrics m p = (r, q) \<Longrightarrow> table_step (Noted (em_assignment_id m) (is_ok r)) p q"
| call_terminal: "terminal now a x n ok p = (r, q) \<Longrightarrow> table_step (Finished a ok (is_ok r)) p q"

inductive table_trace :: "table_event list \<Rightarrow> PendingExecutions \<Rightarrow> PendingExecutions \<Rightarrow> bool" where
  table_nil: "table_trace [] p p"
| table_cons: "table_step e p p1 \<Longrightarrow> table_trace es p1 p2 \<Longrightarrow> table_trace (e # es) p p2"

fun standing_of :: "AssignmentState \<Rightarrow> string option \<Rightarrow> standing" where
  "standing_of AsgPending _ = InLine"
| "standing_of AsgAssigned s = HeldBy (the s)"
| "standing_of AsgRunning _ = Begun"
| "standing_of AsgSucceeded _ = Ended True"
| "standing_of AsgFailed _ = Ended False"

definition seen :: "PendingExecutions \<Rightarrow> dispenser" where
  "seen p = \<lparr>dp_line = ps_queue p,
     dp_items = (\<lambda>i. map_option (\<lambda>r. (ar_assignment r, standing_of (ar_state r) (ar_session_id r))) (ps_assignments p i))\<rparr>"

section \<open>The table refines the dispenser\<close>

lemma seen_simps [simp]:
  "dp_line (seen p) = ps_queue p"
  "dp_items (seen p) i = map_option (\<lambda>r. (ar_assignment r, standing_of (ar_state r) (ar_session_id r))) (ps_assignments p i)"
  by (simp_all add: seen_def)

lemma standing_of_eq:
  "standing_of st s = InLine \<longleftrightarrow> st = AsgPending" "standing_of st s = Begun \<longleftrightarrow> st = AsgRunning"
  "standing_of st s = HeldBy i \<longleftrightarrow> st = AsgAssigned \<and> the s = i"
  by (cases st; simp)+

text \<open>A method that replaces one record moves its item.\<close>

lemma seen_put_record:
  assumes "ps_assignments p i = Some r" and "ar_assignment r' = ar_assignment r"
  shows "seen (put_record i r' p) = move_item i (standing_of (ar_state r') (ar_session_id r')) (seen p)"
  using assms by (auto simp: seen_def move_item_def put_record_def fun_eq_iff)

lemma move_item_same: "dp_items d i = Some (a, st) \<Longrightarrow> move_item i st d = d"
  by (auto simp: move_item_def intro!: dispenser.equality)

lemma enqueue_refines:
  assumes "enqueue a p = (r, q)"
  shows "dispenser_step (Offered a (is_ok r)) (seen p) (seen q)"
proof (cases "acceptable a (seen p)")
  case True
  let ?d = "(seen p)\<lparr>dp_line := dp_line (seen p) @ [aer_assignment_id a],
    dp_items := (dp_items (seen p))(aer_assignment_id a \<mapsto> (a, InLine))\<rparr>"
  have "is_ok r" "seen q = ?d"
    using assms True by (auto simp: acceptable_def enqueue_def Let_def seen_def new_record_def fun_eq_iff)
  with offered [OF True] show ?thesis by simp
next
  case False
  then have "\<not> is_ok r" "q = p"
    using assms by (auto simp: acceptable_def enqueue_def Let_def split: if_splits)
  with not_offered [OF False] show ?thesis by simp
qed

lemma next_for_refines:
  assumes inv: "pe_inv p" and run: "next_for s p = (x, q)"
  obtains "x = None" "dispenser_step (Taken s None) (seen p) (seen q)"
  | a where "x = Some (Ok a)" "dispenser_step (Taken s (Some a)) (seen p) (seen q)"
proof (cases "ps_queue p")
  case Nil
  with run have "x = None" "q = p" by (simp_all add: next_for_def)
  with Nil that(1) nothing_there [of "seen p" s] show thesis by simp
next
  case (Cons i rest)
  then obtain r where r: "ps_assignments p i = Some r" "ar_state r = AsgPending" using pe_inv_queueD [OF inv, of i] by auto
  with Cons run have x: "x = Some (Ok (ar_assignment r))"
    and q: "q = p\<lparr>ps_queue := rest, ps_assignments := (ps_assignments p)(i \<mapsto> r\<lparr>ar_state := AsgAssigned, ar_session_id := Some s\<rparr>)\<rparr>"
    by (simp_all add: next_for_def)
  have "seen q = move_item i (HeldBy s) ((seen p)\<lparr>dp_line := rest\<rparr>)"
    using r by (auto simp: q seen_def move_item_def fun_eq_iff)
  moreover have "dispenser_step (Taken s (Some (ar_assignment r))) (seen p) (move_item i (HeldBy s) ((seen p)\<lparr>dp_line := rest\<rparr>))"
    by (rule taken) (use Cons r in simp_all)
  ultimately show thesis using x that(2) by simp
qed

lemma disconnect_refines:
  assumes inv: "pe_inv p" and keys: "iteration_order keys (ps_assignments p)"
  shows "dispenser_step (Returned s) (seen p) (seen (snd (disconnect keys s p)))"
proof -
  let ?ks = "filter (\<lambda>i. owned_by s p i \<and> assigned_in p i) keys"
  have held: "owned_by s p i \<and> assigned_in p i \<longleftrightarrow> i \<in> held_items s (seen p)" for i
  proof (cases "ps_assignments p i")
    case None
    then show ?thesis by (simp add: owned_by_iff held_items_def)
  next
    case (Some r)
    moreover have "ar_state r = AsgAssigned \<Longrightarrow> ar_session_id r \<noteq> None" using pe_inv_recordD [OF inv Some] by (simp add: inv_defs)
    ultimately show ?thesis by (auto simp: owned_by_iff assigned_in_def held_items_def standing_of_eq)
  qed
  have ks: "distinct ?ks" "set ?ks = held_items s (seen p)"
    using keys held unfolding iteration_order_def by (auto simp: owned_by_iff)
  have "dp_items (seen (snd (disconnect keys s p))) i = dp_items (take_back ?ks (seen p)) i" for i
  proof (cases "ps_assignments p i")
    case None
    then show ?thesis by (simp add: disconnect_spec [OF keys] release_all_def take_back_def)
  next
    case (Some r)
    then have "i \<in> set keys" using keys by (auto simp: iteration_order_def)
    with Some pe_inv_recordD [OF inv Some] show ?thesis
      by (auto simp: disconnect_spec [OF keys] release_all_def take_back_def release_def owned_by_iff assigned_in_def inv_defs
          split: AssignmentState.splits)
  qed
  then have "seen (snd (disconnect keys s p)) = take_back ?ks (seen p)"
    by (intro dispenser.equality) (auto simp: disconnect_spec [OF keys] take_back_def fun_eq_iff)
  with returned [OF ks] show ?thesis by simp
qed

text \<open>The events of a runtime.\<close>

lemma started_refines:
  assumes "started now e p = (r, q)"
  shows "dispenser_step (Began (es_assignment_id e) (is_ok r)) (seen p) (seen q)"
proof (cases "validate p (es_assignment_id e) (es_execution_id e) (es_sequence_number e)")
  case (Inl s)
  with assms not_begun show ?thesis by (auto simp: started_def)
next
  case (Inr rec)
  then have rec: "ps_assignments p (es_assignment_id e) = Some rec" by (simp add: validate_Ok)
  show ?thesis
  proof (cases "ar_state rec = AsgAssigned")
    case True
    then have "dispenser_step (Began (es_assignment_id e) True) (seen p) (move_item (es_assignment_id e) Begun (seen p))"
      by (intro began [of _ _ "ar_assignment rec" "the (ar_session_id rec)"]) (simp add: rec)
    with assms Inr True rec show ?thesis by (auto simp: started_def seen_put_record)
  next
    case False
    with assms Inr not_begun show ?thesis by (auto simp: started_def)
  qed
qed

text \<open>A noted event changes a record that is and stays running.\<close>

lemma noted_refines:
  assumes "ps_assignments p i = Some rec" and "ar_state rec = AsgRunning"
    and "ar_assignment rec' = ar_assignment rec" and "ar_state rec' = AsgRunning"
  shows "dispenser_step (Noted i True) (seen p) (seen (put_record i rec' p))"
proof -
  have "dp_items (seen p) i = Some (ar_assignment rec, Begun)" using assms(1,2) by simp
  then show ?thesis using noted [of "seen p" i] assms move_item_same by (simp add: seen_put_record)
qed

lemma progress_refines:
  assumes "progress e p = (r, q)"
  shows "dispenser_step (Noted (ep_assignment_id e) (is_ok r)) (seen p) (seen q)"
  using assms not_noted
  by (auto simp: progress_def validate_Ok intro!: noted_refines split: if_splits sum.splits)

lemma metrics_refines:
  assumes "metrics e p = (r, q)"
  shows "dispenser_step (Noted (em_assignment_id e) (is_ok r)) (seen p) (seen q)"
  using assms not_noted
  by (auto simp: metrics_def validate_Ok intro!: noted_refines split: if_splits sum.splits)

lemma terminal_refines:
  assumes "terminal now a x n ok p = (r, q)"
  shows "dispenser_step (Finished a ok (is_ok r)) (seen p) (seen q)"
proof (cases r)
  case (Inl e)
  with assms not_ended show ?thesis by (auto simp: terminal_def Let_def split: sum.splits if_splits option.splits)
next
  case (Inr y)
  with assms obtain rec rec' where rec: "ps_assignments p a = Some rec" "ar_state rec = AsgRunning"
    and q: "q = put_record a rec' p" "ar_assignment rec' = ar_assignment rec" "standing_of (ar_state rec') (ar_session_id rec') = Ended ok"
    by (auto simp: terminal_def validate_Ok Let_def split: sum.splits if_splits option.splits)
  have "dispenser_step (Finished a ok True) (seen p) (move_item a (Ended ok) (seen p))"
    by (rule ended [of _ _ "ar_assignment rec"]) (simp add: rec)
  with Inr rec q show ?thesis by (simp add: seen_put_record)
qed

lemma register_refines: "seen (register_session s c p) = seen p"
  by (simp add: seen_def register_session_def)

lemma table_step_inv: "table_step e p q \<Longrightarrow> pe_inv p \<Longrightarrow> pe_inv q"
  by (induction rule: table_step.induct) (metis op_keeps snd_conv)+

lemma table_step_refines:
  assumes "table_step e p q" and "pe_inv p"
  shows "dispenser_step e (seen p) (seen q)"
  using assms
proof (induction rule: table_step.induct)
  case (call_next_waits s p q)
  then show ?case by (elim next_for_refines) auto
next
  case (call_next s p a q)
  then show ?case by (elim next_for_refines) auto
next
  case (call_next_panics s p e q)
  then show ?case by (elim next_for_refines) auto
next
  case (call_disconnect keys p s q)
  then show ?case using disconnect_refines [of p keys s] by simp
next
  case (call_disconnect_panics keys p s e q)
  then show ?case using disconnect_spec [of keys p s] by simp
qed (simp_all add: enqueue_refines register_refines opened started_refines progress_refines metrics_refines terminal_refines)

section \<open>Property\<close>

text \<open>C5. The assignment table refines the dispenser: whatever sequence of calls is made on a table, with
  whatever answers, the dispenser can make with the same answers, and ends where the table does. So the
  table never panics; it accepts an assignment exactly when it is complete and new; it hands out the
  assignments in the order in which they stand in line, each to one session; it gives back exactly those
  that a closed session held and had not begun; and an event is accepted only for an assignment that is
  held, or begun, as the event requires.\<close>

theorem table_refines_dispenser:
  assumes "table_trace es p q" and "pe_inv p"
  shows "dispenser_trace es (seen p) (seen q)"
  using assms
proof (induction rule: table_trace.induct)
  case (table_nil p)
  show ?case by (rule spec_nil)
next
  case (table_cons e p p1 es p2)
  then show ?case using table_step_refines table_step_inv by (blast intro: spec_cons)
qed

theorem table_refines_dispenser_witness:
  "dispenser_trace [Offered sample_assignment True, Taken ''s'' (Some sample_assignment), Began ''a'' True, Finished ''a'' True True]
     (seen pe_default) (seen sample_done)"
proof -
  have "table_trace [Offered sample_assignment True, Taken ''s'' (Some sample_assignment), Began ''a'' True, Finished ''a'' True True]
      pe_default sample_done"
  proof (intro table_cons)
    have "fst (enqueue sample_assignment pe_default) = Ok ()"
      by (simp add: enqueue_def pe_default_def sample_assignment_def Let_def)
    then show "table_step (Offered sample_assignment True) pe_default sample_queued"
      using call_enqueue [of sample_assignment pe_default "Ok ()" sample_queued] by (simp add: sample_queued_def prod_eq_iff)
    have "fst (next_for ''s'' sample_queued) = Some (Ok sample_assignment)"
      by (simp add: next_for_def sample_queued_eval new_record_def)
    then show "table_step (Taken ''s'' (Some sample_assignment)) sample_queued sample_assigned"
      by (intro call_next) (simp add: sample_assigned_def prod_eq_iff)
    have "fst (started 5 sample_started sample_assigned) = Ok sample_assignment"
      by (simp add: started_def validate_def stale_def sample_started_def sample_assigned_eval new_record_def sample_assignment_def)
    then show "table_step (Began ''a'' True) sample_assigned sample_running"
      using call_started [of 5 sample_started sample_assigned "Ok sample_assignment" sample_running]
      by (simp add: sample_running_def sample_started_def prod_eq_iff)
    have "is_ok (fst (terminal 9 ''a'' ''e'' 2 True sample_running))"
      by (simp add: terminal_def validate_def stale_def word_le_nat_alt sample_running_eval new_record_def sample_assignment_def)
    then show "table_step (Finished ''a'' True True) sample_running sample_done"
      using call_terminal [of 9 "''a''" "''e''" 2 True sample_running _ sample_done]
      by (metis sample_done_def prod.collapse)
  qed (rule table_nil)
  then show ?thesis by (rule table_refines_dispenser) (rule pe_inv_default)
qed

end
