(* ===== verification/Worker_Tasks.thy ===== *)
theory Worker_Tasks
  imports Pending_Lifecycle
begin

text \<open>
  How the tasks of a worker wait for each other: the sessions that ask \<open>PendingExecutions\<close> for work, the
  calls that put work there, and the \<open>tokio::sync::Notify\<close> between them, of \<^verbatim>\<open>src/src/worker/runtime.rs\<close>.
  The methods hold the mutex of the table for their effect and call \<open>notify_one\<close> and \<open>notify_waiters\<close> after
  they released it; \<open>next_for\<close> creates its \<open>Notified\<close> future before it looks into the queue and awaits it
  afterwards, and \<open>select!\<close> may drop it at every await. Each of these is a step of its own here, so that the
  tasks interleave the way the threads of the runtime let them.
\<close>

section \<open>The notifications\<close>

text \<open>\<open>Notify\<close> is a type of tokio: its operations are a parameter. A future of \<open>notified()\<close> is named by a
  number; \<open>nt_poll\<close> answers whether the future is ready.\<close>

record 'n Notify =
  nt_notified :: "'n \<Rightarrow> nat \<times> 'n"
  nt_poll :: "nat \<Rightarrow> 'n \<Rightarrow> bool \<times> 'n"
  nt_drop :: "nat \<Rightarrow> 'n \<Rightarrow> 'n"
  nt_notify_one :: "'n \<Rightarrow> 'n"
  nt_notify_waiters :: "'n \<Rightarrow> 'n"

text \<open>What the documentation speaks of: whether a permit is stored, and how each future stands that is
  neither ready nor dropped. A future is created, sleeps from its first poll on, and is woken by one of the
  two calls.\<close>

datatype future_state = Created | Asleep | WokenOne | WokenAll

record notify_view =
  nv_permit :: bool
  nv_futures :: "nat \<rightharpoonup> future_state"

text \<open>\<open>notify_one\<close> wakes one of the sleeping futures, and stores the permit if there is none; there is only
  one permit.\<close>

definition wakes_one :: "notify_view \<Rightarrow> notify_view \<Rightarrow> bool" where
  "wakes_one v v' \<longleftrightarrow>
     (if \<exists>t. nv_futures v t = Some Asleep
      then \<exists>t. nv_futures v t = Some Asleep \<and> v' = v\<lparr>nv_futures := (nv_futures v)(t \<mapsto> WokenOne)\<rparr>
      else v' = v\<lparr>nv_permit := True\<rparr>)"

text \<open>\<open>notify_waiters\<close> reaches every future that exists, also one that has not been polled yet.\<close>

definition woken_all :: "future_state \<Rightarrow> future_state" where
  "woken_all f = (if f = WokenOne then WokenOne else WokenAll)"

text \<open>What the code relies on. A future that is dropped with a notification of \<open>notify_one\<close> it has not
  received passes it on; a future that was woken may use up the permit as well.\<close>

locale notify =
  fixes N :: "'n Notify" and view :: "'n \<Rightarrow> notify_view"
  assumes notified: "nt_notified N n = (t, n') \<Longrightarrow> nv_futures (view n) t = None
      \<and> view n' = (view n)\<lparr>nv_futures := (nv_futures (view n))(t \<mapsto> Created)\<rparr>"
    and poll_created: "nv_futures (view n) t = Some Created \<Longrightarrow> nt_poll N t n = (ready, n') \<Longrightarrow>
      ready = nv_permit (view n)
      \<and> view n' = \<lparr>nv_permit = False, nv_futures = (nv_futures (view n))(t := if ready then None else Some Asleep)\<rparr>"
    and poll_asleep: "nv_futures (view n) t = Some Asleep \<Longrightarrow> nt_poll N t n = (ready, n') \<Longrightarrow>
      \<not> ready \<and> view n' = view n"
    and poll_woken: "nv_futures (view n) t = Some f \<Longrightarrow> f = WokenOne \<or> f = WokenAll \<Longrightarrow>
      nt_poll N t n = (ready, n') \<Longrightarrow> ready \<and> nv_futures (view n') = (nv_futures (view n))(t := None)
      \<and> (nv_permit (view n') \<longrightarrow> nv_permit (view n))"
    and drop_idle: "nv_futures (view n) t = Some f \<Longrightarrow> f \<noteq> WokenOne \<Longrightarrow>
      view (nt_drop N t n) = (view n)\<lparr>nv_futures := (nv_futures (view n))(t := None)\<rparr>"
    and drop_notified: "nv_futures (view n) t = Some WokenOne \<Longrightarrow>
      wakes_one ((view n)\<lparr>nv_futures := (nv_futures (view n))(t := None)\<rparr>) (view (nt_drop N t n))"
    and notify_one: "wakes_one (view n) (view (nt_notify_one N n))"
    and notify_waiters: "view (nt_notify_waiters N n) = (view n)\<lparr>nv_futures := map_option woken_all \<circ> nv_futures (view n)\<rparr>"

section \<open>The loop of \<open>next_for\<close>, await by await\<close>

datatype next_point = AtTop | AtLock nat | AtAwait nat | Handed "panic + AssignExecutionRequest"

text \<open>At its top a pass creates the future; then it takes the lock for the queue, and returns, which drops
  the future, or awaits the future, and starts again once that is ready.\<close>

fun next_for_step ::
  "'n Notify \<Rightarrow> string \<Rightarrow> next_point \<times> PendingExecutions \<times> 'n \<Rightarrow> next_point \<times> PendingExecutions \<times> 'n" where
  "next_for_step N session (AtTop, p, n) = (case nt_notified N n of (t, n) \<Rightarrow> (AtLock t, p, n))"
| "next_for_step N session (AtLock t, p, n) =
     (case next_for session p of
        (None, p) \<Rightarrow> (AtAwait t, p, n)
      | (Some result, p) \<Rightarrow> (Handed result, p, nt_drop N t n))"
| "next_for_step N session (AtAwait t, p, n) =
     (case nt_poll N t n of (ready, n) \<Rightarrow> (if ready then AtTop else AtAwait t, p, n))"
| "next_for_step N session (Handed result, p, n) = (Handed result, p, n)"

text \<open>Dropping the future of \<open>next_for\<close> drops the future it holds.\<close>

fun drop_next_for :: "'n Notify \<Rightarrow> next_point \<Rightarrow> 'n \<Rightarrow> 'n" where
  "drop_next_for N (AtLock t) n = nt_drop N t n"
| "drop_next_for N (AtAwait t) n = nt_drop N t n"
| "drop_next_for N _ n = n"

fun make_call :: "'n Notify \<Rightarrow> notify_call \<Rightarrow> 'n \<Rightarrow> 'n" where
  "make_call N NotifyOne n = nt_notify_one N n"
| "make_call N NotifyWaiters n = nt_notify_waiters N n"

section \<open>The tasks of a worker\<close>

text \<open>A session is busy while it handles an event or sends a command, asks while its \<open>select!\<close> runs, and
  leaves when its loop was broken and \<open>disconnect\<close> is still to come.\<close>

datatype session_phase = Closed | Busy | Asking next_point | Leaving

text \<open>\<open>wt_calls\<close> are the calls on \<open>Notify\<close> that methods have still to make after they released the mutex.\<close>

record 'n worker_tasks =
  wt_pending :: PendingExecutions
  wt_notify :: 'n
  wt_calls :: "notify_call list"
  wt_sessions :: "string \<Rightarrow> session_phase"

datatype task_move =
    Connect string | Ask string | Advance string | Interrupt string | Leave string | Finish string
  | Arrive AssignExecutionRequest | Call notify_call | Method pe_op

fun event_method :: "pe_op \<Rightarrow> bool" where
  "event_method (OpStarted _) = True"
| "event_method (OpProgress _) = True"
| "event_method (OpMetrics _) = True"
| "event_method (OpTerminal _ _ _ _) = True"
| "event_method _ = False"

text \<open>The calls a method has added to the log of the table.\<close>

definition new_calls :: "PendingExecutions \<Rightarrow> PendingExecutions \<Rightarrow> notify_call list" where
  "new_calls p q = drop (length (pe_available p)) (pe_available q)"

definition set_session :: "string \<Rightarrow> session_phase \<Rightarrow> 'n worker_tasks \<Rightarrow> 'n worker_tasks" where
  "set_session i ph s = s\<lparr>wt_sessions := (wt_sessions s)(i := ph)\<rparr>"

text \<open>A session whose \<open>next_for\<close> returned sends the command; one in which \<open>expect\<close> failed is gone without
  \<open>disconnect\<close>.\<close>

fun phase_after :: "next_point \<Rightarrow> session_phase" where
  "phase_after (Handed (Ok _)) = Busy"
| "phase_after (Handed (Err _)) = Closed"
| "phase_after pt = Asking pt"

inductive task_step :: "'n Notify \<Rightarrow> task_move \<Rightarrow> 'n worker_tasks \<Rightarrow> 'n worker_tasks \<Rightarrow> bool" for N where
  connected: "wt_sessions s i = Closed \<Longrightarrow>
    task_step N (Connect i) s (set_session i Busy (s\<lparr>wt_pending := register_session i sender (wt_pending s)\<rparr>))"
| asked: "wt_sessions s i = Busy \<Longrightarrow> task_step N (Ask i) s (set_session i (Asking AtTop) s)"
| advanced: "wt_sessions s i = Asking pt \<Longrightarrow>
    next_for_step N i (pt, wt_pending s, wt_notify s) = (pt', p, n) \<Longrightarrow>
    task_step N (Advance i) s (set_session i (phase_after pt') (s\<lparr>wt_pending := p, wt_notify := n\<rparr>))"
| interrupted: "wt_sessions s i = Asking pt \<Longrightarrow>
    task_step N (Interrupt i) s (set_session i Busy (s\<lparr>wt_notify := drop_next_for N pt (wt_notify s)\<rparr>))"
| left_busy: "wt_sessions s i = Busy \<Longrightarrow> task_step N (Leave i) s (set_session i Leaving s)"
| left_asking: "wt_sessions s i = Asking pt \<Longrightarrow>
    task_step N (Leave i) s (set_session i Leaving (s\<lparr>wt_notify := drop_next_for N pt (wt_notify s)\<rparr>))"
| finished: "wt_sessions s i = Leaving \<Longrightarrow> iteration_order keys (ps_assignments (wt_pending s)) \<Longrightarrow>
    disconnect keys i (wt_pending s) = (r, p) \<Longrightarrow>
    task_step N (Finish i) s
      (set_session i Closed (s\<lparr>wt_pending := p, wt_calls := wt_calls s @ new_calls (wt_pending s) p\<rparr>))"
| arrived: "enqueue a (wt_pending s) = (r, p) \<Longrightarrow>
    task_step N (Arrive a) s (s\<lparr>wt_pending := p, wt_calls := wt_calls s @ new_calls (wt_pending s) p\<rparr>)"
| called: "wt_calls s = before @ c # after \<Longrightarrow>
    task_step N (Call c) s (s\<lparr>wt_calls := before @ after, wt_notify := make_call N c (wt_notify s)\<rparr>)"
| event: "event_method l \<Longrightarrow> pe_step l (wt_pending s) p \<Longrightarrow> task_step N (Method l) s (s\<lparr>wt_pending := p\<rparr>)"

text \<open>Runs whose moves satisfy \<open>P\<close>.\<close>

definition task_run ::
  "'n Notify \<Rightarrow> (task_move \<Rightarrow> 'n worker_tasks \<Rightarrow> bool) \<Rightarrow> 'n worker_tasks \<Rightarrow> 'n worker_tasks \<Rightarrow> bool" where
  "task_run N P = (\<lambda>s s'. \<exists>m. P m s \<and> task_step N m s s')\<^sup>*\<^sup>*"

definition tasks_start :: "PendingExecutions \<Rightarrow> 'n \<Rightarrow> 'n worker_tasks" where
  "tasks_start p n = \<lparr>wt_pending = p, wt_notify = n, wt_calls = [], wt_sessions = \<lambda>_. Closed\<rparr>"

section \<open>An instance\<close>

text \<open>A \<open>Notify\<close> that wakes the oldest sleeping future first.\<close>

record notify_state =
  ns_permit :: bool
  ns_count :: nat
  ns_futures :: "nat \<rightharpoonup> future_state"

definition ns_view :: "notify_state \<Rightarrow> notify_view" where
  "ns_view n = \<lparr>nv_permit = ns_permit n, nv_futures = (\<lambda>t. if t < ns_count n then ns_futures n t else None)\<rparr>"

definition ns_set :: "nat \<Rightarrow> future_state option \<Rightarrow> notify_state \<Rightarrow> notify_state" where
  "ns_set t f n = n\<lparr>ns_futures := (ns_futures n)(t := f)\<rparr>"

definition ns_one :: "notify_state \<Rightarrow> notify_state" where
  "ns_one n = (case find (\<lambda>t. ns_futures n t = Some Asleep) [0..<ns_count n] of
     None \<Rightarrow> n\<lparr>ns_permit := True\<rparr> | Some t \<Rightarrow> ns_set t (Some WokenOne) n)"

definition ns_poll :: "nat \<Rightarrow> notify_state \<Rightarrow> bool \<times> notify_state" where
  "ns_poll t n = (case ns_futures n t of
     Some Created \<Rightarrow> if ns_permit n then (True, (ns_set t None n)\<lparr>ns_permit := False\<rparr>) else (False, ns_set t (Some Asleep) n)
   | Some Asleep \<Rightarrow> (False, n)
   | _ \<Rightarrow> (True, ns_set t None n))"

definition fifo_notify :: "notify_state Notify" where
  "fifo_notify = \<lparr>
     nt_notified = (\<lambda>n. (ns_count n, ns_set (ns_count n) (Some Created) (n\<lparr>ns_count := Suc (ns_count n)\<rparr>))),
     nt_poll = ns_poll,
     nt_drop = (\<lambda>t n. if ns_futures n t = Some WokenOne then ns_one (ns_set t None n) else ns_set t None n),
     nt_notify_one = ns_one,
     nt_notify_waiters = (\<lambda>n. n\<lparr>ns_futures := map_option woken_all \<circ> ns_futures n\<rparr>)\<rparr>"

definition ns_start :: notify_state where
  "ns_start = \<lparr>ns_permit = False, ns_count = 0, ns_futures = Map.empty\<rparr>"

lemma set_session_simps [simp]:
  "wt_sessions (set_session i ph s) = (wt_sessions s)(i := ph)" "wt_pending (set_session i ph s) = wt_pending s"
  "wt_notify (set_session i ph s) = wt_notify s" "wt_calls (set_session i ph s) = wt_calls s"
  by (simp_all add: set_session_def)

lemma ns_futures_view:
  "nv_futures (ns_view n) t = Some f \<longleftrightarrow> t < ns_count n \<and> ns_futures n t = Some f" "nv_permit (ns_view n) = ns_permit n"
  by (simp_all add: ns_view_def)

lemma ns_set_view:
  "t < ns_count n \<Longrightarrow> ns_view (ns_set t f n) = (ns_view n)\<lparr>nv_futures := (nv_futures (ns_view n))(t := f)\<rparr>"
  by (auto simp: ns_view_def ns_set_def fun_eq_iff)

lemma ns_one_wakes: "wakes_one (ns_view n) (ns_view (ns_one n))"
proof (cases "find (\<lambda>t. ns_futures n t = Some Asleep) [0..<ns_count n]")
  case None
  then have "\<not> (\<exists>t. nv_futures (ns_view n) t = Some Asleep)" by (auto simp: find_None_iff ns_futures_view)
  with None show ?thesis by (simp add: wakes_one_def ns_one_def ns_view_def cong: if_cong)
next
  case (Some t)
  then have "t < ns_count n" "ns_futures n t = Some Asleep" by (auto simp: find_Some_iff)
  with Some show ?thesis by (auto simp: wakes_one_def ns_one_def ns_set_view ns_futures_view)
qed

interpretation fifo: notify fifo_notify ns_view
proof (unfold_locales, unfold fifo_notify_def Notify.select_convs, goal_cases)
  case (1 n t n')
  then show ?case by (auto simp: ns_view_def ns_set_def fun_eq_iff)
next
  case (2 n t ready n')
  then show ?case
    by (auto simp: ns_futures_view ns_poll_def ns_set_def ns_view_def fun_eq_iff split: if_splits)
next
  case (3 n t ready n')
  then show ?case by (auto simp: ns_futures_view ns_poll_def)
next
  case (4 n t f ready n')
  then show ?case by (auto simp: ns_futures_view ns_poll_def ns_set_view) (simp_all add: ns_set_def)
next
  case (5 n t f)
  then show ?case by (simp add: ns_futures_view ns_set_view)
next
  case (6 n t)
  then have "ns_view (ns_set t None n) = (ns_view n)\<lparr>nv_futures := (nv_futures (ns_view n))(t := None)\<rparr>"
    by (simp add: ns_futures_view ns_set_view)
  with 6 ns_one_wakes [of "ns_set t None n"] show ?case by (simp add: ns_futures_view)
next
  case (7 n)
  show ?case by (rule ns_one_wakes)
next
  case (8 n)
  show ?case by (auto simp: ns_view_def fun_eq_iff)
qed

lemma ns_start_view: "ns_view ns_start = \<lparr>nv_permit = False, nv_futures = Map.empty\<rparr>"
  by (auto simp: ns_view_def ns_start_def)

end
