(* ===== verification/Worker_Wakeups.thy ===== *)
theory Worker_Wakeups
  imports Worker_Tasks
begin

text \<open>
  That no assignment waits while a session sleeps. The invariant says who knows of queued work: a call that
  is still to be made, the stored permit, or a session that is awake; every step keeps it, as long as no
  session ends between its wake-up and its next look into the queue. A session that does end there takes
  the wake-up with it.
\<close>

section \<open>The invariant\<close>

fun ticket :: "session_phase \<Rightarrow> nat option" where
  "ticket (Asking (AtLock t)) = Some t"
| "ticket (Asking (AtAwait t)) = Some t"
| "ticket _ = None"

fun is_open :: "session_phase \<Rightarrow> bool" where
  "is_open Busy = True"
| "is_open (Asking _) = True"
| "is_open _ = False"

text \<open>A session that will look into the queue by itself, because it is on its way there or holds a
  notification of its own.\<close>

fun stirring :: "notify_view \<Rightarrow> session_phase \<Rightarrow> bool" where
  "stirring v Busy = True"
| "stirring v (Asking (AtAwait t)) = (nv_futures v t = Some WokenOne)"
| "stirring v (Asking _) = True"
| "stirring v _ = False"

definition roused :: "notify_view \<Rightarrow> session_phase \<Rightarrow> bool" where
  "roused v ph \<longleftrightarrow> (\<exists>t. ph = Asking (AtAwait t) \<and> nv_futures v t = Some WokenAll)"

text \<open>Somebody knows of the work: the permit is stored, a session stirs, or all have been woken.\<close>

definition noticed :: "notify_view \<Rightarrow> (string \<Rightarrow> session_phase) \<Rightarrow> bool" where
  "noticed v S \<longleftrightarrow> nv_permit v \<or> (\<exists>i. stirring v (S i)) \<or> (\<forall>i. is_open (S i) \<longrightarrow> roused v (S i))"

text \<open>The futures are those the sessions hold, each by one; one that has not been polled has not slept; and
  nobody sleeps while the permit is stored.\<close>

definition futures_ok :: "notify_view \<Rightarrow> (string \<Rightarrow> session_phase) \<Rightarrow> bool" where
  "futures_ok v S \<longleftrightarrow> (\<forall>t. nv_futures v t \<noteq> None \<longleftrightarrow> (\<exists>i. ticket (S i) = Some t))
     \<and> (\<forall>i j t. ticket (S i) = Some t \<longrightarrow> ticket (S j) = Some t \<longrightarrow> i = j)
     \<and> (\<forall>i t. S i = Asking (AtLock t) \<longrightarrow> nv_futures v t = Some Created \<or> nv_futures v t = Some WokenAll)
     \<and> (\<forall>i r. S i \<noteq> Asking (Handed r))
     \<and> (nv_permit v \<longrightarrow> (\<forall>t. nv_futures v t \<noteq> Some Asleep))"

definition tasks_inv :: "('n \<Rightarrow> notify_view) \<Rightarrow> 'n worker_tasks \<Rightarrow> bool" where
  "tasks_inv view s \<longleftrightarrow> pe_inv (wt_pending s) \<and> futures_ok (view (wt_notify s)) (wt_sessions s)
   \<and> (ps_queue (wt_pending s) \<noteq> [] \<longrightarrow> wt_calls s \<noteq> [] \<or> noticed (view (wt_notify s)) (wt_sessions s))"

lemma tasks_inv_start:
  "pe_inv p \<Longrightarrow> view n = \<lparr>nv_permit = False, nv_futures = Map.empty\<rparr> \<Longrightarrow> tasks_inv view (tasks_start p n)"
  by (simp add: tasks_inv_def tasks_start_def futures_ok_def noticed_def)

lemma futures_okD:
  assumes "futures_ok v S"
  shows "ticket (S i) = Some t \<Longrightarrow> nv_futures v t \<noteq> None"
    and "nv_futures v t = Some f \<Longrightarrow> \<exists>i. ticket (S i) = Some t"
    and "ticket (S i) = Some t \<Longrightarrow> ticket (S j) = Some t \<Longrightarrow> i = j"
    and "S i = Asking (AtLock t) \<Longrightarrow> nv_futures v t = Some Created \<or> nv_futures v t = Some WokenAll"
    and "S i \<noteq> Asking (Handed r)"
    and "nv_permit v \<Longrightarrow> nv_futures v t \<noteq> Some Asleep"
  using assms unfolding futures_ok_def by blast+

lemma futures_okI:
  assumes "\<And>i t. ticket (S i) = Some t \<Longrightarrow> nv_futures v t \<noteq> None"
    and "\<And>t f. nv_futures v t = Some f \<Longrightarrow> \<exists>i. ticket (S i) = Some t"
    and "\<And>i j t. ticket (S i) = Some t \<Longrightarrow> ticket (S j) = Some t \<Longrightarrow> i = j"
    and "\<And>i t. S i = Asking (AtLock t) \<Longrightarrow> nv_futures v t = Some Created \<or> nv_futures v t = Some WokenAll"
    and "\<And>i r. S i \<noteq> Asking (Handed r)"
    and "\<And>t. nv_permit v \<Longrightarrow> nv_futures v t \<noteq> Some Asleep"
  shows "futures_ok v S"
  using assms unfolding futures_ok_def by blast

lemma ticketE:
  assumes "ticket ph = Some t"
  obtains "ph = Asking (AtLock t)" | "ph = Asking (AtAwait t)"
  using assms by (cases ph rule: ticket.cases) auto

lemma stirring_elsewhere:
  "ticket ph \<noteq> Some t \<Longrightarrow> stirring (v\<lparr>nv_permit := b, nv_futures := (nv_futures v)(t := f)\<rparr>) ph = stirring v ph"
  by (cases "(v, ph)" rule: stirring.cases) auto

lemma roused_elsewhere:
  "ticket ph \<noteq> Some t \<Longrightarrow> roused (v\<lparr>nv_permit := b, nv_futures := (nv_futures v)(t := f)\<rparr>) ph = roused v ph"
  by (auto simp: roused_def)

text \<open>Phases without a future may change freely; a phase that gives its future up takes it out of the view.\<close>

lemma futures_ok_idle:
  assumes "futures_ok v S" and "ticket (S i) = None" and "ticket ph = None" and "\<And>r. ph \<noteq> Asking (Handed r)"
  shows "futures_ok v (S(i := ph))"
proof -
  have "(ticket ((S(i := ph)) j) = Some t) = (ticket (S j) = Some t)" for j t using assms(2,3) by auto
  moreover have "(S(i := ph)) j = Asking (AtLock t) \<longleftrightarrow> S j = Asking (AtLock t)" for j t
    using assms(2,3) by (auto simp del: ticket.simps dest: arg_cong [of _ _ ticket] simp: ticket.simps(1))
  ultimately show ?thesis using assms(1,4) unfolding futures_ok_def by simp
qed

lemma futures_ok_release:
  assumes ok: "futures_ok v S" and i: "ticket (S i) = Some t" and ph: "ticket ph = None" "\<And>r. ph \<noteq> Asking (Handed r)"
    and v': "nv_futures v' = (nv_futures v)(t := None)" "nv_permit v' \<Longrightarrow> nv_permit v"
  shows "futures_ok v' (S(i := ph))"
proof -
  have held: "(ticket ((S(i := ph)) j) = Some u) = (ticket (S j) = Some u \<and> u \<noteq> t)" for j u
  proof (cases "j = i")
    case False
    then have "ticket (S j) \<noteq> Some t" using futures_okD(3) [OF ok i] by blast
    with False show ?thesis by auto
  qed (use ph(1) i in simp)
  have lock: "(S(i := ph)) j = Asking (AtLock u) \<Longrightarrow> S j = Asking (AtLock u) \<and> u \<noteq> t" for j u
    using held [of j u] ph(1) by (cases "j = i") auto
  show ?thesis
  proof (rule futures_okI, unfold held, goal_cases)
    case (1 j u)
    then show ?case using futures_okD(1) [OF ok, of j u] by (simp add: v'(1))
  next
    case (2 u f)
    then show ?case using futures_okD(2) [OF ok, of u f] by (simp add: v'(1) split: if_splits)
  next
    case (3 j k u)
    then show ?case using futures_okD(3) [OF ok] by blast
  next
    case (4 j u)
    then show ?case using lock futures_okD(4) [OF ok] by (auto simp: v'(1))
  next
    case (5 j r)
    then show ?case using ph(2) futures_okD(5) [OF ok] by simp
  next
    case (6 u)
    then show ?case using v'(2) futures_okD(6) [OF ok] by (simp add: v'(1))
  qed
qed

lemma wakes_one_ok:
  assumes ok: "futures_ok v S" and w: "wakes_one v v'"
  shows "futures_ok v' S" and "noticed v' S"
proof -
  have "futures_ok v' S \<and> noticed v' S"
  proof (cases "\<exists>t. nv_futures v t = Some Asleep")
    case False
    with w have "v' = v\<lparr>nv_permit := True\<rparr>" by (simp add: wakes_one_def)
    with ok False show ?thesis by (auto simp: futures_ok_def noticed_def)
  next
    case True
    with w obtain t where t: "nv_futures v t = Some Asleep"
      and v': "v' = v\<lparr>nv_futures := (nv_futures v)(t \<mapsto> WokenOne)\<rparr>" by (auto simp: wakes_one_def)
    from futures_okD(2) [OF ok t] obtain i where i: "ticket (S i) = Some t" ..
    then have "S i = Asking (AtAwait t)" by (rule ticketE) (use futures_okD(4) [OF ok, of i t] t in auto)
    then have "stirring v' (S i)" by (simp add: v')
    moreover have "futures_ok v' S"
    proof (rule futures_okI, goal_cases)
      case (4 j u)
      then show ?case using futures_okD(4) [OF ok 4] t by (auto simp: v')
    qed (use futures_okD [OF ok] t i in \<open>auto simp: v' split: if_splits\<close>)
    ultimately show ?thesis unfolding noticed_def by blast
  qed
  then show "futures_ok v' S" "noticed v' S" by simp_all
qed


lemma woken_all_ok:
  assumes ok: "futures_ok v S" and v': "v' = v\<lparr>nv_futures := map_option woken_all \<circ> nv_futures v\<rparr>"
  shows "futures_ok v' S" and "noticed v' S"
proof -
  have w: "woken_all f \<noteq> Asleep" for f by (simp add: woken_all_def)
  show "futures_ok v' S"
  proof (rule futures_okI, goal_cases)
    case (4 i t)
    then show ?case using futures_okD(4) [OF ok 4] by (auto simp: v' woken_all_def)
  next
    case (3 i j t)
    then show ?case using futures_okD(3) [OF ok] by blast
  qed (use futures_okD(1,2,5) [OF ok] w in \<open>auto simp: v'\<close>)
  have "roused v' (S i)" if none: "\<And>j. \<not> stirring v' (S j)" and "is_open (S i)" for i
  proof -
    from that(2) none [of i] obtain t where t: "S i = Asking (AtAwait t)" "nv_futures v' t \<noteq> Some WokenOne"
      by (cases "(v', S i)" rule: stirring.cases) auto
    moreover obtain f where "nv_futures v t = Some f" using futures_okD(1) [OF ok, of i t] t(1) by auto
    ultimately show ?thesis by (auto simp: roused_def v' woken_all_def split: if_splits)
  qed
  then show "noticed v' S" unfolding noticed_def by blast
qed

context notify
begin

lemma call_ok:
  assumes "futures_ok (view n) S"
  shows "futures_ok (view (make_call N c n)) S" and "noticed (view (make_call N c n)) S"
  using wakes_one_ok [OF assms notify_one] woken_all_ok [OF assms notify_waiters] by (cases c; simp)+

lemma drop_ok:
  assumes ok: "futures_ok (view n) S" and i: "ticket (S i) = Some t" and ph: "ticket ph = None" "\<And>r. ph \<noteq> Asking (Handed r)"
  shows "futures_ok (view (nt_drop N t n)) (S(i := ph))"
proof -
  let ?v = "(view n)\<lparr>nv_futures := (nv_futures (view n))(t := None)\<rparr>"
  obtain f where f: "nv_futures (view n) t = Some f" using futures_okD(1) [OF ok i] by auto
  have gone: "futures_ok ?v (S(i := ph))"
    using futures_ok_release [OF ok i ph, of ?v] by simp
  show ?thesis
  proof (cases "f = WokenOne")
    case True
    show ?thesis by (rule wakes_one_ok(1) [OF gone drop_notified [OF f [unfolded True]]])
  next
    case False
    with gone show ?thesis by (simp add: drop_idle [OF f])
  qed
qed

text \<open>A session that leaves while it waits takes no notification with it.\<close>

lemma leave_noticed:
  assumes ok: "futures_ok (view n) S" and i: "S i = Asking (AtAwait t)" and "noticed (view n) S"
  shows "noticed (view (nt_drop N t n)) (S(i := Leaving))"
proof -
  let ?v = "(view n)\<lparr>nv_futures := (nv_futures (view n))(t := None)\<rparr>"
  have ti: "ticket (S i) = Some t" using i by simp
  have gone: "futures_ok ?v (S(i := Leaving))"
    using futures_ok_release [OF ok ti, of Leaving ?v] by simp
  have other: "ticket (S j) \<noteq> Some t" if "j \<noteq> i" for j using futures_okD(3) [OF ok ti] that by blast
  obtain f where f: "nv_futures (view n) t = Some f" using futures_okD(1) [OF ok ti] by auto
  show ?thesis
  proof (cases "f = WokenOne")
    case True
    show ?thesis by (rule wakes_one_ok(2) [OF gone drop_notified [OF f [unfolded True]]])
  next
    case False
    then have "\<not> stirring (view n) (S i)" using i f by simp
    with assms(3) have "nv_permit (view n) \<or> (\<exists>j. j \<noteq> i \<and> stirring (view n) (S j))
        \<or> (\<forall>j. is_open (S j) \<longrightarrow> roused (view n) (S j))" unfolding noticed_def by metis
    then consider "nv_permit (view n)" | j where "j \<noteq> i" "stirring (view n) (S j)"
      | "\<forall>j. is_open (S j) \<longrightarrow> roused (view n) (S j)" by (elim disjE exE conjE) simp_all
    then have "noticed ?v (S(i := Leaving))"
    proof cases
      case (2 j)
      with stirring_elsewhere [where v = "view n" and b = "nv_permit (view n)" and f = None, OF other, of j]
      have "stirring ?v ((S(i := Leaving)) j)" by simp
      then show ?thesis unfolding noticed_def by blast
    next
      case 3
      then have "roused ?v ((S(i := Leaving)) j)" if "is_open ((S(i := Leaving)) j)" for j
        using that roused_elsewhere [where v = "view n" and b = "nv_permit (view n)" and f = None, OF other, of j] by (auto split: if_splits)
      then show ?thesis unfolding noticed_def by blast
    qed (simp add: noticed_def)
    then show ?thesis by (simp add: drop_idle [OF f False])
  qed
qed

end

lemma futures_ok_create:
  assumes ok: "futures_ok v S" and i: "ticket (S i) = None" and t: "nv_futures v t = None"
  shows "futures_ok (v\<lparr>nv_futures := (nv_futures v)(t \<mapsto> Created)\<rparr>) (S(i := Asking (AtLock t)))"
proof -
  have held: "(ticket ((S(i := Asking (AtLock t))) j) = Some u) = (if j = i then u = t else ticket (S j) = Some u)" for j u
    by auto
  have none: "ticket (S j) \<noteq> Some t" for j using futures_okD(1) [OF ok, of j t] t by blast
  show ?thesis
  proof (rule futures_okI, unfold held, goal_cases)
    case (1 j u)
    then show ?case using futures_okD(1) [OF ok, of j u] by (auto split: if_splits)
  next
    case (2 u f)
    show ?case
    proof (cases "u = t")
      case False
      with 2 obtain j where "ticket (S j) = Some u" using futures_okD(2) [OF ok, of u f] by auto
      then show ?thesis using i by (intro exI [of _ j]) auto
    qed auto
  next
    case (3 j k u)
    then show ?case using futures_okD(3) [OF ok, of j u k] none by (auto split: if_splits)
  next
    case (4 j u)
    then show ?case using futures_okD(4) [OF ok, of j u] by (auto split: if_splits)
  next
    case (5 j r)
    then show ?case using futures_okD(5) [OF ok] by simp
  next
    case (6 u)
    then show ?case using futures_okD(6) [OF ok] by simp
  qed
qed

lemma futures_ok_await:
  assumes ok: "futures_ok v S" and i: "S i = Asking (AtLock t)"
  shows "futures_ok v (S(i := Asking (AtAwait t)))"
proof -
  have held: "ticket ((S(i := Asking (AtAwait t))) j) = ticket (S j)" for j using i by simp
  show ?thesis
  proof (rule futures_okI, unfold held, goal_cases)
    case (4 j u)
    then show ?case using futures_okD(4) [OF ok, of j u] by (auto split: if_splits)
  next
    case (5 j r)
    then show ?case using futures_okD(5) [OF ok] by simp
  qed (use futures_okD(1-3,6) [OF ok] in blast)+
qed

lemma futures_ok_sleep:
  assumes ok: "futures_ok v S" and i: "S i = Asking (AtAwait t)"
  shows "futures_ok \<lparr>nv_permit = False, nv_futures = (nv_futures v)(t \<mapsto> Asleep)\<rparr> S"
proof (rule futures_okI, goal_cases)
  case (1 j u)
  then show ?case using futures_okD(1) [OF ok, of j u] by simp
next
  case (2 u f)
  then show ?case using futures_okD(2) [OF ok, of u f] i by (cases "u = t") (auto intro: exI [of _ i])
next
  case (3 j k u)
  then show ?case using futures_okD(3) [OF ok] by blast
next
  case (4 j u)
  then have "u \<noteq> t" using futures_okD(3) [OF ok, of i t j] i by auto
  with 4 show ?case using futures_okD(4) [OF ok, of j u] by simp
next
  case (5 j r)
  show ?case by (rule futures_okD(5) [OF ok])
qed simp

section \<open>What the methods add\<close>

lemma event_quiet:
  assumes "pe_step l p q" and "event_method l"
  shows "ps_queue q = ps_queue p"
  using assms
  by (induction rule: pe_step.induct)
    (auto simp: started_def progress_def metrics_def terminal_def put_record_def Let_def split: sum.split option.split)

lemma enqueue_calls: "enqueue a p = (r, q) \<Longrightarrow> ps_queue q = ps_queue p \<or> new_calls p q \<noteq> []"
  by (auto simp: enqueue_def new_calls_def Let_def split: if_splits)

lemma disconnect_calls:
  assumes "iteration_order keys (ps_assignments p)" and "disconnect keys i p = (r, q)"
  shows "ps_queue q = ps_queue p \<or> new_calls p q \<noteq> []"
proof -
  have "filter (\<lambda>k. owned_by i p k \<and> assigned_in p k) keys = []" if "\<nexists>k. owned_by i p k \<and> assigned_in p k"
    using that by (simp add: filter_empty_conv)
  with disconnect_spec [OF assms(1), of i] assms(2) show ?thesis by (auto simp: new_calls_def)
qed

lemma next_for_hands:
  assumes "pe_inv p" and "next_for i p = (r, q)"
  shows "r = None \<and> ps_queue p = [] \<and> q = p
    \<or> (\<exists>a. r = Some (Ok a) \<and> waiting p = a # waiting q)"
proof (cases "ps_queue p")
  case Nil
  with assms(2) show ?thesis by (simp add: next_for_def)
next
  case (Cons k rest)
  then obtain a w where "waiting p = a # w" by (simp add: waiting_def)
  with next_for_waiting [OF assms(1) this, of i] assms(2) show ?thesis by auto
qed

text \<open>Seen from the table, a step of the tasks is at most one method call, so what holds along every run of
  the table holds along every run of the tasks.\<close>

lemma task_step_table:
  assumes "task_step N m s s'"
  shows "\<exists>ls. pe_run ls (wt_pending s) (wt_pending s')"
  using assms
proof cases
  case (connected i sender)
  then show ?thesis using pe_run_one [OF step_register, of i sender "wt_pending s"] by auto
next
  case (advanced i pt pt' p n)
  from advanced(4) have "p = wt_pending s \<or> p = snd (next_for i (wt_pending s))"
    by (cases pt) (auto split: prod.split_asm option.split_asm)
  then show ?thesis using advanced(2) pe_run_one [OF step_next_for, of i "wt_pending s"]
    by (auto intro: exI [of _ "[]"])
next
  case (finished i keys r p)
  then have "p = snd (disconnect keys i (wt_pending s))" by simp
  then show ?thesis using finished pe_run_one [OF step_disconnect [OF finished(4)], of i] by auto
next
  case (arrived a r p)
  then show ?thesis using pe_run_one [OF step_enqueue, of a "wt_pending s"] by auto
next
  case (event l p)
  then show ?thesis using pe_run_one [OF event(4)] by auto
qed (auto intro: exI [of _ "[]"])

lemma task_run_table:
  assumes "task_run N P s s'"
  shows "\<exists>ls. pe_run ls (wt_pending s) (wt_pending s')"
  using assms unfolding task_run_def
proof (induction rule: rtranclp_induct)
  case base
  show ?case using run_nil by blast
next
  case (step u w)
  then show ?case using task_step_table pe_run_append by blast
qed

section \<open>Every step keeps the invariant\<close>

text \<open>Sessions that leave only while they wait, or while there is nothing to do.\<close>

definition leaves_waiting :: "task_move \<Rightarrow> 'n worker_tasks \<Rightarrow> bool" where
  "leaves_waiting m s \<longleftrightarrow> (\<forall>i. m = Leave i \<longrightarrow>
     (\<exists>t. wt_sessions s i = Asking (AtAwait t)) \<or> ps_queue (wt_pending s) = [])"

lemma noticed_stirring: "stirring v (S i) \<Longrightarrow> noticed v S"
  unfolding noticed_def by blast

lemma noticed_busy [simp]: "noticed v (S(i := Busy))" "noticed v (S(i := Asking AtTop))"
    "noticed v (S(i := Asking (AtLock t)))"
  by (rule noticed_stirring [of _ _ i]; simp)+

lemma noticed_quiet:
  assumes "noticed v S" and "\<not> is_open (S i)" and "\<not> is_open ph"
  shows "noticed v (S(i := ph))"
proof -
  have "\<not> stirring v (S i)" using assms(2) by (cases "(v, S i)" rule: stirring.cases) auto
  then have "stirring v (S j) \<Longrightarrow> stirring v ((S(i := ph)) j)" for j by auto
  moreover have "is_open ((S(i := ph)) j) \<Longrightarrow> is_open (S j) \<and> (S(i := ph)) j = S j" for j using assms(3) by auto
  ultimately show ?thesis using assms(1) unfolding noticed_def by metis
qed

context notify
begin

lemma poll_cases:
  assumes "nv_futures (view n) t = Some f" and "nv_permit (view n) \<longrightarrow> f \<noteq> Asleep" and poll: "nt_poll N t n = (ready, n')"
  obtains (pending) "\<not> ready" "\<not> nv_permit (view n)" "f = Created \<or> f = Asleep"
      "view n' = (view n)\<lparr>nv_permit := False, nv_futures := (nv_futures (view n))(t \<mapsto> Asleep)\<rparr>"
  | (ready) "ready" "nv_futures (view n') = (nv_futures (view n))(t := None)" "nv_permit (view n') \<Longrightarrow> nv_permit (view n)"
      "f = Created \<Longrightarrow> nv_permit (view n)" "f \<noteq> Asleep"
proof (cases f)
  case Created
  with poll_created [OF _ poll] assms(1) that show thesis by (cases ready) (auto intro: notify_view.equality)
next
  case Asleep
  with poll_asleep [OF _ poll] assms(1,2) show thesis
    by (intro pending) (auto simp: fun_upd_idem intro!: notify_view.equality)
next
  case WokenOne
  with poll_woken [OF assms(1) _ poll] show thesis by (intro ready) auto
next
  case WokenAll
  with poll_woken [OF assms(1) _ poll] show thesis by (intro ready) auto
qed

lemma poll_ok:
  assumes ok: "futures_ok (view n) S" and i: "S i = Asking (AtAwait t)" and poll: "nt_poll N t n = (ready, n')"
  shows "futures_ok (view n') (S(i := Asking (if ready then AtTop else AtAwait t)))
    \<and> (noticed (view n) S \<longrightarrow> noticed (view n') (S(i := Asking (if ready then AtTop else AtAwait t))))"
proof -
  have ti: "ticket (S i) = Some t" using i by simp
  obtain f where f: "nv_futures (view n) t = Some f" using futures_okD(1) [OF ok ti] by auto
  have "nv_permit (view n) \<longrightarrow> f \<noteq> Asleep" using futures_okD(6) [OF ok, of t] f by auto
  from f this poll show ?thesis
  proof (cases rule: poll_cases)
    case ready
    then show ?thesis using futures_ok_release [OF ok ti, of "Asking AtTop" "view n'"] by simp
  next
    case pending
    have same: "S(i := Asking (AtAwait t)) = S" using i by auto
    have "noticed (view n') S" if no: "noticed (view n) S"
    proof -
      from pending i f have "\<not> stirring (view n) (S i)" "is_open (S i)" "\<not> roused (view n) (S i)"
        by (auto simp: roused_def)
      with no pending obtain j where j: "stirring (view n) (S j)" "j \<noteq> i" unfolding noticed_def by metis
      then have "ticket (S j) \<noteq> Some t" using futures_okD(3) [OF ok ti] by blast
      with j show ?thesis using stirring_elsewhere [of "S j" t]
        by (intro noticed_stirring [of _ _ j]) (simp add: pending(4))
    qed
    moreover have "view n' = \<lparr>nv_permit = False, nv_futures = (nv_futures (view n))(t \<mapsto> Asleep)\<rparr>"
      using pending(4) by (simp add: notify_view.equality)
    ultimately show ?thesis using futures_ok_sleep [OF ok i] pending(1) same by simp
  qed
qed

lemma advance_inv:
  assumes inv: "tasks_inv view s" and i: "wt_sessions s i = Asking pt"
    and step: "next_for_step N i (pt, wt_pending s, wt_notify s) = (pt', p, n)"
  shows "tasks_inv view (set_session i (phase_after pt') (s\<lparr>wt_pending := p, wt_notify := n\<rparr>))"
proof -
  from inv have pe: "pe_inv (wt_pending s)" and ok: "futures_ok (view (wt_notify s)) (wt_sessions s)"
    and q: "ps_queue (wt_pending s) \<noteq> [] \<Longrightarrow> wt_calls s \<noteq> [] \<or> noticed (view (wt_notify s)) (wt_sessions s)"
    by (simp_all add: tasks_inv_def)
  show ?thesis
  proof (cases pt)
    case AtTop
    obtain t n' where t: "nt_notified N (wt_notify s) = (t, n')" by fastforce
    from AtTop step t i pe show ?thesis
      using futures_ok_create [OF ok, of i t] notified [OF t] by (auto simp: tasks_inv_def)
  next
    case (AtLock t)
    obtain r p' where r: "next_for i (wt_pending s) = (r, p')" by fastforce
    from next_for_inv [OF pe, of i] r have pe': "pe_inv p'" by simp
    from next_for_hands [OF pe r] show ?thesis
    proof (elim disjE conjE exE)
      assume "r = None" "ps_queue (wt_pending s) = []" "p' = wt_pending s"
      with AtLock step r pe show ?thesis using futures_ok_await [OF ok, of i t] i by (auto simp: tasks_inv_def)
    next
      fix a assume "r = Some (Ok a)"
      with AtLock step r pe' show ?thesis using drop_ok [OF ok, of i t Busy] i by (auto simp: tasks_inv_def)
    qed
  next
    case (AtAwait t)
    obtain rdy n' where poll: "nt_poll N t (wt_notify s) = (rdy, n')" by fastforce
    from AtAwait step poll pe q show ?thesis
      using poll_ok [OF ok _ poll, of i] i by (cases rdy) (auto simp: tasks_inv_def)
  next
    case (Handed r)
    with i futures_okD(5) [OF ok, of i r] show ?thesis by simp
  qed
qed

text \<open>A session that gives up \<open>next_for\<close> goes on, or leaves.\<close>

lemma give_up_inv:
  assumes inv: "tasks_inv view s" and i: "wt_sessions s i = Asking pt" and ph: "ph = Busy \<or> ph = Leaving"
    and leave: "ph = Leaving \<Longrightarrow> (\<exists>t. pt = AtAwait t) \<or> ps_queue (wt_pending s) = []"
  shows "tasks_inv view (set_session i ph (s\<lparr>wt_notify := drop_next_for N pt (wt_notify s)\<rparr>))"
proof -
  from inv have ok: "futures_ok (view (wt_notify s)) (wt_sessions s)" by (simp add: tasks_inv_def)
  have none: "ticket ph = None" "\<And>r. ph \<noteq> Asking (Handed r)" using ph by auto
  have "futures_ok (view (drop_next_for N pt (wt_notify s))) ((wt_sessions s)(i := ph))"
    using drop_ok [OF ok _ none, of i] futures_ok_idle [OF ok _ none, of i] i by (cases pt) simp_all
  moreover have "noticed (view (drop_next_for N pt (wt_notify s))) ((wt_sessions s)(i := ph))"
    if "noticed (view (wt_notify s)) (wt_sessions s)" "ps_queue (wt_pending s) \<noteq> []"
    using ph leave that leave_noticed [OF ok, of i] i by auto
  ultimately show ?thesis using inv by (auto simp: tasks_inv_def)
qed

lemma task_step_inv:
  assumes "task_step N m s s'" and "tasks_inv view s" and "leaves_waiting m s"
  shows "tasks_inv view s'"
  using assms
proof (cases rule: task_step.cases)
  case (connected i sender)
  with assms(2) show ?thesis
    by (auto simp: tasks_inv_def register_session_inv futures_ok_idle)
next
  case (asked i)
  with assms(2) show ?thesis by (auto simp: tasks_inv_def futures_ok_idle)
next
  case (advanced i pt pt' p n)
  with assms(2) show ?thesis by (simp add: advance_inv)
next
  case (interrupted i pt)
  with assms(2) give_up_inv [of s i pt Busy] show ?thesis by simp
next
  case (left_busy i)
  with assms(2,3) show ?thesis by (auto simp: tasks_inv_def leaves_waiting_def futures_ok_idle)
next
  case (left_asking i pt)
  with assms(2,3) show ?thesis by (auto simp: leaves_waiting_def intro!: give_up_inv)
next
  case (finished i keys r p)
  have "pe_inv p" using disconnect_inv [of "wt_pending s" keys i] finished assms(2) by (simp add: tasks_inv_def)
  with finished assms(2) disconnect_calls [OF finished(4,5)] show ?thesis
    by (auto simp: tasks_inv_def futures_ok_idle intro: noticed_quiet)
next
  case (arrived a r p)
  have "pe_inv p" using enqueue_inv [of "wt_pending s" a] arrived assms(2) by (simp add: tasks_inv_def)
  with arrived assms(2) enqueue_calls [OF arrived(3)] show ?thesis by (auto simp: tasks_inv_def)
next
  case (called before c after)
  with assms(2) show ?thesis by (simp add: tasks_inv_def call_ok)
next
  case (event l p)
  with assms(2) show ?thesis
    using event_quiet [OF event(4,3)] pe_step_inv [OF event(4)] by (simp add: tasks_inv_def)
qed

lemma task_run_inv:
  assumes "task_run N P s s'" and "tasks_inv view s" and "\<And>m s. P m s \<Longrightarrow> leaves_waiting m s"
  shows "tasks_inv view s'"
  using assms(1,2) unfolding task_run_def
  by (induction rule: rtranclp_induct) (use assms(3) task_step_inv in blast)+

end

section \<open>Work is handed out\<close>

text \<open>The moves the tasks make by themselves: no session comes, leaves or is interrupted, nothing arrives.\<close>

fun own_move :: "task_move \<Rightarrow> bool" where
  "own_move (Ask _) = True"
| "own_move (Advance _) = True"
| "own_move (Call _) = True"
| "own_move _ = False"

text \<open>The first waiting assignment has gone to the session.\<close>

definition handed_out :: "string \<Rightarrow> PendingExecutions \<Rightarrow> PendingExecutions \<Rightarrow> bool" where
  "handed_out i p q \<longleftrightarrow> (\<exists>a r. waiting p = a # waiting q \<and> ps_assignments q (aer_assignment_id a) = Some r
     \<and> ar_assignment r = a \<and> ar_state r = AsgAssigned \<and> ar_session_id r = Some i)"

definition can_take :: "'n Notify \<Rightarrow> string \<Rightarrow> 'n worker_tasks \<Rightarrow> bool" where
  "can_take N i s \<longleftrightarrow> (\<exists>s'. task_run N (\<lambda>m _. own_move m) s s' \<and> handed_out i (wt_pending s) (wt_pending s'))"

lemma next_for_handed_out:
  assumes "pe_inv p" and "ps_queue p \<noteq> []"
  shows "\<exists>a q. next_for i p = (Some (Ok a), q) \<and> handed_out i p q"
proof -
  from assms(2) obtain k rest where k: "ps_queue p = k # rest" by (cases "ps_queue p") auto
  then obtain r where r: "ps_assignments p k = Some r" using pe_inv_queueD [OF assms(1), of k] by auto
  let ?q = "p\<lparr>ps_queue := rest, ps_assignments := (ps_assignments p)(k \<mapsto> r\<lparr>ar_state := AsgAssigned, ar_session_id := Some i\<rparr>)\<rparr>"
  have run: "next_for i p = (Some (Ok (ar_assignment r)), ?q)" using k r by (simp add: next_for_def)
  moreover have "aer_assignment_id (ar_assignment r) = k" using pe_inv_recordD [OF assms(1) r] by (simp add: record_ok_def)
  moreover have "waiting p = ar_assignment r # waiting ?q" using next_for_hands [OF assms(1) run] by simp
  ultimately show ?thesis by (auto simp: handed_out_def)
qed

lemma can_take_step:
  assumes "task_step N m s s'" and "own_move m" and "wt_pending s' = wt_pending s" and "can_take N i s'"
  shows "can_take N i s"
proof -
  have "(\<exists>m. own_move m \<and> task_step N m s s')" using assms(1,2) by blast
  then show ?thesis using assms(3,4) unfolding can_take_def task_run_def by (metis (no_types, lifting) converse_rtranclp_into_rtranclp)
qed

lemma can_take_lock:
  assumes "pe_inv (wt_pending s)" and "ps_queue (wt_pending s) \<noteq> []" and i: "wt_sessions s i = Asking (AtLock t)"
  shows "can_take N i s"
proof -
  obtain a q where q: "next_for i (wt_pending s) = (Some (Ok a), q)" "handed_out i (wt_pending s) q"
    using next_for_handed_out [OF assms(1,2)] by blast
  let ?s = "set_session i Busy (s\<lparr>wt_pending := q, wt_notify := nt_drop N t (wt_notify s)\<rparr>)"
  have "task_step N (Advance i) s ?s" using task_step.advanced [OF i, of N "Handed (Ok a)" q] q(1) by simp
  then have "task_run N (\<lambda>m _. own_move m) s ?s" unfolding task_run_def by (intro r_into_rtranclp exI [of _ "Advance i"]) simp
  with q(2) show ?thesis unfolding can_take_def by (intro exI [of _ ?s]) simp
qed

lemma can_take_top:
  assumes "pe_inv (wt_pending s)" and "ps_queue (wt_pending s) \<noteq> []" and i: "wt_sessions s i = Asking AtTop"
  shows "can_take N i s"
proof -
  obtain t n where t: "nt_notified N (wt_notify s) = (t, n)" by fastforce
  have "task_step N (Advance i) s (set_session i (Asking (AtLock t)) (s\<lparr>wt_pending := wt_pending s, wt_notify := n\<rparr>))"
    using task_step.advanced [OF i, of N "AtLock t" "wt_pending s" n] t by simp
  then show ?thesis by (rule can_take_step) (use assms in \<open>auto intro: can_take_lock\<close>)
qed

lemma can_take_busy:
  assumes "pe_inv (wt_pending s)" and "ps_queue (wt_pending s) \<noteq> []" and i: "wt_sessions s i = Busy"
  shows "can_take N i s"
  by (rule can_take_step [OF task_step.asked [OF i]]) (use assms in \<open>auto intro: can_take_top\<close>)

context notify
begin

lemma can_take_await:
  assumes "pe_inv (wt_pending s)" and "ps_queue (wt_pending s) \<noteq> []" and i: "wt_sessions s i = Asking (AtAwait t)"
    and "nv_futures (view (wt_notify s)) t = Some f" and "f \<noteq> Asleep" and "f = Created \<Longrightarrow> nv_permit (view (wt_notify s))"
  shows "can_take N i s"
proof -
  obtain rdy n where poll: "nt_poll N t (wt_notify s) = (rdy, n)" by fastforce
  have "rdy" using assms(5,6) by (cases rule: poll_cases [OF assms(4) _ poll]) auto
  then have "task_step N (Advance i) s (set_session i (Asking AtTop) (s\<lparr>wt_pending := wt_pending s, wt_notify := n\<rparr>))"
    using task_step.advanced [OF i, of N AtTop "wt_pending s" n] poll by simp
  then show ?thesis by (rule can_take_step) (use assms in \<open>auto intro: can_take_top\<close>)
qed

lemma awake_can_take:
  assumes inv: "tasks_inv view s" and q: "ps_queue (wt_pending s) \<noteq> []" and "is_open (wt_sessions s i)"
    and awake: "\<And>t. wt_sessions s i = Asking (AtAwait t) \<Longrightarrow> \<exists>f. nv_futures (view (wt_notify s)) t = Some f
      \<and> f \<noteq> Asleep \<and> (f = Created \<longrightarrow> nv_permit (view (wt_notify s)))"
  shows "can_take N i s"
  using assms(3)
proof (cases "wt_sessions s i" rule: is_open.cases)
  case 1
  with inv show ?thesis by (intro can_take_busy [OF _ q]) (simp_all add: tasks_inv_def)
next
  case (2 pt)
  from inv have pe: "pe_inv (wt_pending s)" and ok: "futures_ok (view (wt_notify s)) (wt_sessions s)"
    by (simp_all add: tasks_inv_def)
  show ?thesis
  proof (cases pt)
    case (AtAwait t)
    with 2 awake obtain f where "nv_futures (view (wt_notify s)) t = Some f" "f \<noteq> Asleep"
      "f = Created \<longrightarrow> nv_permit (view (wt_notify s))" by blast
    with 2 AtAwait show ?thesis by (intro can_take_await [OF pe q]) auto
  qed (use 2 can_take_top [OF pe q] can_take_lock [OF pe q] futures_okD(5) [OF ok, of i] in auto)
qed auto

lemma noticed_can_take:
  assumes inv: "tasks_inv view s" and q: "ps_queue (wt_pending s) \<noteq> []" and "noticed (view (wt_notify s)) (wt_sessions s)"
    and o: "is_open (wt_sessions s i)"
  shows "\<exists>j. is_open (wt_sessions s j) \<and> can_take N j s"
  using assms(3) unfolding noticed_def
proof (elim disjE exE)
  from inv have ok: "futures_ok (view (wt_notify s)) (wt_sessions s)" by (simp add: tasks_inv_def)
  assume p: "nv_permit (view (wt_notify s))"
  have "\<exists>f. nv_futures (view (wt_notify s)) t = Some f \<and> f \<noteq> Asleep \<and> (f = Created \<longrightarrow> nv_permit (view (wt_notify s)))"
    if "wt_sessions s i = Asking (AtAwait t)" for t
    using futures_okD(1) [OF ok, of i t] futures_okD(6) [OF ok p, of t] that p by auto
  with o awake_can_take [OF inv q o] show ?thesis by blast
next
  fix j assume j: "stirring (view (wt_notify s)) (wt_sessions s j)"
  then have "is_open (wt_sessions s j)" by (cases "(view (wt_notify s), wt_sessions s j)" rule: stirring.cases) auto
  moreover from this have "can_take N j s" by (rule awake_can_take [OF inv q]) (use j in auto)
  ultimately show ?thesis by blast
next
  assume "\<forall>i. is_open (wt_sessions s i) \<longrightarrow> roused (view (wt_notify s)) (wt_sessions s i)"
  with o have "roused (view (wt_notify s)) (wt_sessions s i)" by blast
  then have "can_take N i s" by (intro awake_can_take [OF inv q o]) (auto simp: roused_def)
  with o show ?thesis by blast
qed

lemma work_can_be_taken:
  assumes "tasks_inv view s" and "ps_queue (wt_pending s) \<noteq> []" and "is_open (wt_sessions s i)"
  shows "\<exists>j. is_open (wt_sessions s j) \<and> can_take N j s"
proof (cases "wt_calls s")
  case Nil
  with assms show ?thesis by (intro noticed_can_take) (auto simp: tasks_inv_def)
next
  case (Cons c cs)
  let ?s = "s\<lparr>wt_calls := [] @ cs, wt_notify := make_call N c (wt_notify s)\<rparr>"
  have step: "task_step N (Call c) s ?s" using Cons by (intro task_step.called) simp
  have "tasks_inv view ?s" by (rule task_step_inv [OF step assms(1)]) (simp add: leaves_waiting_def)
  moreover have "noticed (view (wt_notify ?s)) (wt_sessions ?s)" using assms(1) by (simp add: tasks_inv_def call_ok)
  ultimately obtain j where "is_open (wt_sessions s j)" "can_take N j ?s"
    using noticed_can_take [of ?s i] assms(2,3) by auto
  with can_take_step [OF step] show ?thesis by auto
qed

end

section \<open>A wake-up that is lost\<close>

text \<open>Sessions end only between a wake-up and the lock.\<close>

definition leaves_at_lock :: "task_move \<Rightarrow> 'n worker_tasks \<Rightarrow> bool" where
  [simp]: "leaves_at_lock m s \<longleftrightarrow> (\<forall>k. m = Leave k \<longrightarrow> (\<exists>t. wt_sessions s k = Asking (AtLock t)))"

abbreviation lock_run :: "'n Notify \<Rightarrow> 'n worker_tasks \<Rightarrow> 'n worker_tasks \<Rightarrow> bool" where
  "lock_run N \<equiv> task_run N leaves_at_lock"

lemma run_step: "task_step N m s s' \<Longrightarrow> P m s \<Longrightarrow> task_run N P s s'"
  unfolding task_run_def by (rule r_into_rtranclp) blast

lemma run_refl [simp]: "task_run N P s s"
  unfolding task_run_def by simp

lemma run_trans: "task_run N P s s1 \<Longrightarrow> task_run N P s1 s2 \<Longrightarrow> task_run N P s s2"
  unfolding task_run_def by (rule rtranclp_trans)

definition all_asleep :: "('n \<Rightarrow> notify_view) \<Rightarrow> 'n worker_tasks \<Rightarrow> bool" where
  "all_asleep view s \<longleftrightarrow> wt_calls s = [] \<and> (\<forall>i. is_open (wt_sessions s i) \<longrightarrow>
     (\<exists>t. wt_sessions s i = Asking (AtAwait t) \<and> nv_futures (view (wt_notify s)) t = Some Asleep))"

text \<open>The sample assignment arrives.\<close>

lemma sample_enqueued:
  obtains q where "enqueue sample_assignment (register_session ''b'' 1 (register_session ''a'' 0 pe_default)) = (Ok (), q)"
    "ps_queue q = [''a'']" "new_calls (register_session ''b'' 1 (register_session ''a'' 0 pe_default)) q = [NotifyOne]"
    "ps_assignments q = [''a'' \<mapsto> new_record sample_assignment]"
  by (simp add: enqueue_def register_session_def pe_default_def sample_assignment_def new_calls_def Let_def)

context notify
begin

lemma asleep_step:
  assumes "task_step N m s s'" and "own_move m" and "all_asleep view s"
  shows "all_asleep view s' \<and> wt_pending s' = wt_pending s"
  using assms(1)
proof cases
  case (asked i)
  with assms(3) have "\<exists>t. Busy = Asking (AtAwait t)" unfolding all_asleep_def by (metis is_open.simps(1))
  then show ?thesis by simp
next
  case (advanced i pt pt' p n)
  then obtain t where t: "pt = AtAwait t" "nv_futures (view (wt_notify s)) t = Some Asleep"
    using assms(3) unfolding all_asleep_def by (metis is_open.simps(2) session_phase.inject)
  obtain rdy n' where poll: "nt_poll N t (wt_notify s) = (rdy, n')" by fastforce
  from poll_asleep [OF t(2) poll] have "\<not> rdy" "view n' = view (wt_notify s)" by simp_all
  with advanced t poll assms(3) show ?thesis by (auto simp: all_asleep_def)
qed (use assms(2,3) in \<open>auto simp: all_asleep_def\<close>)

lemma asleep_stays:
  assumes "task_run N (\<lambda>m _. own_move m) s s'" and "all_asleep view s"
  shows "wt_pending s' = wt_pending s"
proof -
  have "all_asleep view s' \<and> wt_pending s' = wt_pending s"
    using assms unfolding task_run_def
  proof (induction rule: rtranclp_induct)
    case (step u w)
    then obtain m where "own_move m" "task_step N m u w" by blast
    with step asleep_step show ?case by metis
  qed simp
  then show ?thesis ..
qed

lemma fall_asleep:
  assumes P: "\<And>m s. (\<forall>k. m \<noteq> Leave k) \<Longrightarrow> P m s"
    and "wt_sessions s i = Busy" and "ps_queue (wt_pending s) = []" and "\<not> nv_permit (view (wt_notify s))"
  shows "\<exists>t n. nv_futures (view (wt_notify s)) t = None
    \<and> task_run N P s (set_session i (Asking (AtAwait t)) (s\<lparr>wt_notify := n\<rparr>))
    \<and> view n = \<lparr>nv_permit = False, nv_futures = (nv_futures (view (wt_notify s)))(t \<mapsto> Asleep)\<rparr>"
proof -
  obtain t n1 where t: "nt_notified N (wt_notify s) = (t, n1)" by fastforce
  obtain rdy n2 where poll: "nt_poll N t n1 = (rdy, n2)" by fastforce
  let ?s = "\<lambda>pt n. set_session i (Asking pt) (s\<lparr>wt_notify := n\<rparr>)"
  note created = notified [OF t]
  have rdy: "\<not> rdy" "view n2 = \<lparr>nv_permit = False, nv_futures = (nv_futures (view (wt_notify s)))(t \<mapsto> Asleep)\<rparr>"
    using poll_created [OF _ poll] created assms(4) by simp_all
  have "task_run N P (?s (AtAwait t) n1) (?s (AtAwait t) n2)"
    using task_step.advanced [of "?s (AtAwait t) n1" i "AtAwait t" N "AtAwait t" "wt_pending s" n2] poll rdy(1)
    by (intro run_step [where m = "Advance i"]) (simp_all add: P set_session_def)
  moreover have "task_run N P (?s (AtLock t) n1) (?s (AtAwait t) n1)"
    using task_step.advanced [of "?s (AtLock t) n1" i "AtLock t" N "AtAwait t" "wt_pending s" n1] assms(3)
    by (intro run_step [where m = "Advance i"]) (simp_all add: P set_session_def next_for_def)
  moreover have "task_run N P (?s AtTop (wt_notify s)) (?s (AtLock t) n1)"
    using task_step.advanced [of "?s AtTop (wt_notify s)" i AtTop N "AtLock t" "wt_pending s" n1] t
    by (intro run_step [where m = "Advance i"]) (simp_all add: P set_session_def)
  moreover have "task_run N P s (?s AtTop (wt_notify s))"
    using task_step.asked [OF assms(2), of N]
    by (intro run_step [where m = "Ask i"]) (simp_all add: P set_session_def)
  ultimately have "task_run N P s (?s (AtAwait t) n2)" by (meson run_trans)
  with created rdy(2) show ?thesis by blast
qed

text \<open>A session that was woken and ends before it has the lock again takes the wake-up with it.\<close>

lemma lost_at_lock:
  assumes inv: "pe_inv (wt_pending s)" and i: "wt_sessions s i = Asking (AtAwait t)"
    and t: "nv_futures (view (wt_notify s)) t = Some WokenOne" and none: "\<And>k. \<not> owned_by i (wt_pending s) k"
  shows "\<exists>p n. lock_run N s (set_session i Closed (s\<lparr>wt_notify := n, wt_pending := p\<rparr>))
    \<and> ps_queue p = ps_queue (wt_pending s)
    \<and> nv_futures (view n) = (nv_futures (view (wt_notify s)))(t := None)"
proof -
  obtain rdy n1 where poll: "nt_poll N t (wt_notify s) = (rdy, n1)" by fastforce
  obtain u n2 where u: "nt_notified N n1 = (u, n2)" by fastforce
  obtain keys where keys: "iteration_order keys (ps_assignments (wt_pending s))" using iteration_order_exists [OF inv] by blast
  let ?p = "(wt_pending s)\<lparr>ps_sessions := (ps_sessions (wt_pending s))(i := None)\<rparr>"
  let ?n = "nt_drop N u n2"
  have d: "disconnect keys i (wt_pending s) = (Ok (), ?p)"
    unfolding disconnect_spec [OF keys] using none by (simp add: release_all_def)
  have woken: "rdy" "nv_futures (view n1) = (nv_futures (view (wt_notify s)))(t := None)"
    using poll_woken [OF t _ poll] by simp_all
  have fresh: "nv_futures (view n1) u = None" "nv_futures (view n2) = (nv_futures (view n1))(u \<mapsto> Created)"
    using notified [OF u] by simp_all
  have after: "nv_futures (view ?n) = (nv_futures (view (wt_notify s)))(t := None)"
    using drop_idle [of n2 u Created] fresh woken(2) by (simp add: fun_upd_idem)
  let ?s = "\<lambda>ph n. set_session i ph (s\<lparr>wt_notify := n\<rparr>)"
  have "lock_run N s (?s (Asking AtTop) n1)"
    using task_step.advanced [OF i, of N AtTop "wt_pending s" n1] poll woken(1)
    by (intro run_step [where m = "Advance i"]) (simp_all add: set_session_def)
  moreover have "lock_run N (?s (Asking AtTop) n1) (?s (Asking (AtLock u)) n2)"
    using task_step.advanced [of "?s (Asking AtTop) n1" i AtTop N "AtLock u" "wt_pending s" n2] u
    by (intro run_step [where m = "Advance i"]) (simp_all add: set_session_def)
  moreover have "lock_run N (?s (Asking (AtLock u)) n2) (?s Leaving ?n)"
    using task_step.left_asking [of "?s (Asking (AtLock u)) n2" i "AtLock u" N]
    by (intro run_step [where m = "Leave i"]) (simp_all add: set_session_def)
  moreover have "lock_run N (?s Leaving ?n) (set_session i Closed (s\<lparr>wt_notify := ?n, wt_pending := ?p\<rparr>))"
    using task_step.finished [of "?s Leaving ?n" i keys "Ok ()" ?p N] keys d
    by (intro run_step [where m = "Finish i"]) (simp_all add: set_session_def new_calls_def)
  ultimately have "lock_run N s (set_session i Closed (s\<lparr>wt_notify := ?n, wt_pending := ?p\<rparr>))" by (meson run_trans)
  with after show ?thesis by (intro exI [of _ ?p] exI [of _ ?n]) simp
qed

lemma two_sleepers:
  assumes P: "\<And>m s. (\<forall>k. m \<noteq> Leave k) \<Longrightarrow> P m s"
    and v: "view n = \<lparr>nv_permit = False, nv_futures = Map.empty\<rparr>"
  shows "\<exists>s t u. task_run N P (tasks_start pe_default n) s \<and> t \<noteq> u \<and> wt_calls s = []
    \<and> wt_sessions s = (\<lambda>_. Closed)(''a'' := Asking (AtAwait t), ''b'' := Asking (AtAwait u))
    \<and> view (wt_notify s) = \<lparr>nv_permit = False, nv_futures = [t \<mapsto> Asleep, u \<mapsto> Asleep]\<rparr>
    \<and> wt_pending s = register_session ''b'' 1 (register_session ''a'' 0 pe_default)"
proof -
  let ?p = "register_session ''a'' 0 pe_default"
  let ?q = "register_session ''b'' 1 ?p"
  let ?s0 = "tasks_start pe_default n"
  let ?s1 = "set_session ''a'' Busy (?s0\<lparr>wt_pending := ?p\<rparr>)"
  let ?s2 = "set_session ''b'' Busy (?s1\<lparr>wt_pending := ?q\<rparr>)"
  have p: "ps_queue ?q = []" by (simp add: register_session_def pe_default_def)
  have s1: "task_run N P ?s0 ?s1"
    using task_step.connected [of ?s0 "''a''" N 0] by (intro run_step [where m = "Connect ''a''"]) (simp_all add: P tasks_start_def)
  have s2: "task_run N P ?s1 ?s2"
    using task_step.connected [of ?s1 "''b''" N 1] by (intro run_step [where m = "Connect ''b''"]) (simp_all add: P tasks_start_def)
  from fall_asleep [of P ?s2 "''a''"] P p v obtain t n3 where
    s3: "task_run N P ?s2 (set_session ''a'' (Asking (AtAwait t)) (?s2\<lparr>wt_notify := n3\<rparr>))"
      "view n3 = \<lparr>nv_permit = False, nv_futures = [t \<mapsto> Asleep]\<rparr>" by (auto simp: tasks_start_def)
  let ?s3 = "set_session ''a'' (Asking (AtAwait t)) (?s2\<lparr>wt_notify := n3\<rparr>)"
  from fall_asleep [of P ?s3 "''b''"] P p s3(2) obtain u n4 where
    s4: "task_run N P ?s3 (set_session ''b'' (Asking (AtAwait u)) (?s3\<lparr>wt_notify := n4\<rparr>))"
      "view n4 = \<lparr>nv_permit = False, nv_futures = [t \<mapsto> Asleep, u \<mapsto> Asleep]\<rparr>" "u \<noteq> t"
    by (auto simp: tasks_start_def split: if_splits)
  let ?s4 = "set_session ''b'' (Asking (AtAwait u)) (?s3\<lparr>wt_notify := n4\<rparr>)"
  have run: "task_run N P ?s0 ?s4" using s1 s2 s3(1) s4(1) by (meson run_trans)
  show ?thesis
    by (rule exI [of _ ?s4], rule exI [of _ t], rule exI [of _ u]) (use run s4 in \<open>auto simp: tasks_start_def fun_eq_iff\<close>)
qed

text \<open>Of two sessions that slept, the woken one ends: the other one sleeps on.\<close>

lemma lost_of_two:
  assumes inv: "pe_inv (wt_pending s)" and calls: "wt_calls s = []" and none: "\<And>k. \<not> owned_by i (wt_pending s) k"
    and i: "wt_sessions s i = Asking (AtAwait x)" and j: "wt_sessions s j = Asking (AtAwait y)" "x \<noteq> y" "i \<noteq> j"
    and F: "nv_futures (view (wt_notify s)) = [y \<mapsto> Asleep, x \<mapsto> WokenOne]"
    and only: "\<And>k. is_open (wt_sessions s k) \<Longrightarrow> k = i \<or> k = j"
  shows "\<exists>s'. lock_run N s s' \<and> ps_queue (wt_pending s') = ps_queue (wt_pending s)
    \<and> is_open (wt_sessions s' j) \<and> all_asleep view s'"
proof -
  from lost_at_lock [of s i x] inv none i F obtain p n where
    l: "lock_run N s (set_session i Closed (s\<lparr>wt_notify := n, wt_pending := p\<rparr>))"
      "ps_queue p = ps_queue (wt_pending s)" "nv_futures (view n) = [y \<mapsto> Asleep, x \<mapsto> WokenOne](x := None)" by auto
  let ?s = "set_session i Closed (s\<lparr>wt_notify := n, wt_pending := p\<rparr>)"
  have "all_asleep view ?s" unfolding all_asleep_def using only j l(3) calls by (auto split: if_splits)
  with l j show ?thesis by (intro exI [of _ ?s]) auto
qed

lemma wake_up_lost:
  assumes v: "view n = \<lparr>nv_permit = False, nv_futures = Map.empty\<rparr>"
  shows "\<exists>s i. lock_run N (tasks_start pe_default n) s \<and> ps_queue (wt_pending s) \<noteq> []
    \<and> is_open (wt_sessions s i) \<and> all_asleep view s"
proof -
  let ?p = "register_session ''b'' 1 (register_session ''a'' 0 pe_default)"
  from two_sleepers [of leaves_at_lock, OF _ v] obtain s t u where s: "lock_run N (tasks_start pe_default n) s" "t \<noteq> u" "wt_calls s = []"
      "wt_sessions s = (\<lambda>_. Closed)(''a'' := Asking (AtAwait t), ''b'' := Asking (AtAwait u))"
      "view (wt_notify s) = \<lparr>nv_permit = False, nv_futures = [t \<mapsto> Asleep, u \<mapsto> Asleep]\<rparr>" "wt_pending s = ?p" by auto
  obtain q where q: "enqueue sample_assignment ?p = (Ok (), q)" "ps_queue q = [''a'']" "new_calls ?p q = [NotifyOne]"
      "ps_assignments q = [''a'' \<mapsto> new_record sample_assignment]" by (rule sample_enqueued)
  have inv: "pe_inv q" using enqueue_inv [of ?p sample_assignment] q(1) by (simp add: register_session_inv pe_inv_default)
  have none: "\<not> owned_by i q k" for i k by (simp add: owned_by_iff q(4) new_record_def)
  let ?s5 = "s\<lparr>wt_pending := q, wt_calls := [NotifyOne]\<rparr>"
  let ?s6 = "s\<lparr>wt_pending := q, wt_calls := [], wt_notify := nt_notify_one N (wt_notify s)\<rparr>"
  have "lock_run N s ?s5"
    using task_step.arrived [of sample_assignment s "Ok ()" q N] s q by (intro run_step [where m = "Arrive sample_assignment"]) simp_all
  moreover have "lock_run N ?s5 ?s6"
    using task_step.called [of ?s5 "[]" NotifyOne "[]" N] s(3) by (intro run_step [where m = "Call NotifyOne"]) simp_all
  ultimately have run: "lock_run N (tasks_start pe_default n) ?s6" using s(1) by (meson run_trans)
  have two: "is_open (wt_sessions s k) \<Longrightarrow> k = ''a'' \<or> k = ''b''" for k by (auto simp: s(4) split: if_splits)
  from notify_one [of "wt_notify s"] s(2,5)
  consider "nv_futures (view (nt_notify_one N (wt_notify s))) = [u \<mapsto> Asleep, t \<mapsto> WokenOne]"
    | "nv_futures (view (nt_notify_one N (wt_notify s))) = [t \<mapsto> Asleep, u \<mapsto> WokenOne]"
    by (auto simp: wakes_one_def fun_upd_twist split: if_splits)
  then have "\<exists>s' j. lock_run N ?s6 s' \<and> ps_queue (wt_pending s') = ps_queue (wt_pending ?s6)
    \<and> is_open (wt_sessions s' j) \<and> all_asleep view s'"
  proof cases
    case 1
    then show ?thesis using lost_of_two [of ?s6 "''a''" t "''b''" u] inv none s(2,4) two by fastforce
  next
    case 2
    then show ?thesis using lost_of_two [of ?s6 "''b''" u "''a''" t] inv none s(2,4) two by fastforce
  qed
  with run q(2) show ?thesis by (auto intro: run_trans)
qed

end

section \<open>Properties\<close>

text \<open>C10. No wake-up is lost: as long as the sessions of a worker end only while they wait for work, or
  while there is none, the first waiting assignment can be handed to an open session by what the tasks do
  themselves, the calls on \<open>Notify\<close> that are still to be made and the polls of the sessions, without a
  further arrival, connection or event. That holds in every state that the sessions, the arrivals, the
  disconnections and the events reach, however their steps interleave between lock, notification and await,
  and whichever futures \<open>select!\<close> drops.\<close>

theorem queued_assignment_is_taken:
  assumes "notify N view" and "pe_inv p" and "view n = \<lparr>nv_permit = False, nv_futures = Map.empty\<rparr>"
    and "task_run N leaves_waiting (tasks_start p n) s"
    and "ps_queue (wt_pending s) \<noteq> []" and "is_open (wt_sessions s i)"
  shows "\<exists>j s'. is_open (wt_sessions s j) \<and> task_run N (\<lambda>m _. own_move m) s s'
    \<and> handed_out j (wt_pending s) (wt_pending s')"
proof -
  have "tasks_inv view s"
    by (rule notify.task_run_inv [OF assms(1,4) tasks_inv_start [where view = view, OF assms(2,3)]])
  from notify.work_can_be_taken [OF assms(1) this assms(5,6)] show ?thesis unfolding can_take_def by blast
qed

text \<open>Two sessions sleep when the sample assignment arrives, and \<open>notify_one\<close> is still to be called.\<close>

lemma sample_arrival:
  "\<exists>s. task_run fifo_notify leaves_waiting (tasks_start pe_default ns_start) s
    \<and> ps_queue (wt_pending s) = [''a''] \<and> is_open (wt_sessions s ''a'') \<and> wt_calls s = [NotifyOne]
    \<and> (\<forall>i t. wt_sessions s i = Asking (AtAwait t) \<longrightarrow> nv_futures (ns_view (wt_notify s)) t = Some Asleep)"
proof -
  let ?p = "register_session ''b'' 1 (register_session ''a'' 0 pe_default)"
  from fifo.two_sleepers [of leaves_waiting, OF _ ns_start_view]
  obtain s t u where s: "task_run fifo_notify leaves_waiting (tasks_start pe_default ns_start) s" "t \<noteq> u" "wt_calls s = []"
      "wt_sessions s = (\<lambda>_. Closed)(''a'' := Asking (AtAwait t), ''b'' := Asking (AtAwait u))"
      "ns_view (wt_notify s) = \<lparr>nv_permit = False, nv_futures = [t \<mapsto> Asleep, u \<mapsto> Asleep]\<rparr>" "wt_pending s = ?p"
    by (auto simp: leaves_waiting_def)
  obtain q where q: "enqueue sample_assignment ?p = (Ok (), q)" "ps_queue q = [''a'']" "new_calls ?p q = [NotifyOne]"
    by (rule sample_enqueued)
  let ?s = "s\<lparr>wt_pending := q, wt_calls := [NotifyOne]\<rparr>"
  have "task_run fifo_notify leaves_waiting s ?s"
    using task_step.arrived [of sample_assignment s "Ok ()" q fifo_notify] s q
    by (intro run_step [where m = "Arrive sample_assignment"]) (simp_all add: leaves_waiting_def)
  with s(1) have "task_run fifo_notify leaves_waiting (tasks_start pe_default ns_start) ?s" by (rule run_trans)
  with s q show ?thesis by (intro exI [of _ ?s]) (auto split: if_splits)
qed

theorem queued_assignment_is_taken_witness:
  "\<exists>s j s'. task_run fifo_notify leaves_waiting (tasks_start pe_default ns_start) s
    \<and> (\<forall>i t. wt_sessions s i = Asking (AtAwait t) \<longrightarrow> nv_futures (ns_view (wt_notify s)) t = Some Asleep)
    \<and> is_open (wt_sessions s j) \<and> task_run fifo_notify (\<lambda>m _. own_move m) s s'
    \<and> handed_out j (wt_pending s) (wt_pending s')"
proof -
  from sample_arrival obtain s where s: "task_run fifo_notify leaves_waiting (tasks_start pe_default ns_start) s"
    "ps_queue (wt_pending s) = [''a'']" "is_open (wt_sessions s ''a'')"
    "\<forall>i t. wt_sessions s i = Asking (AtAwait t) \<longrightarrow> nv_futures (ns_view (wt_notify s)) t = Some Asleep" by blast
  from queued_assignment_is_taken [OF fifo.notify_axioms pe_inv_default ns_start_view s(1) _ s(3)] s(2)
  show ?thesis using s(1,4) by auto
qed

text \<open>C31. A wake-up is lost when a session ends after it was woken and before it has taken the lock again:
  \<open>select!\<close> drops its \<open>next_for\<close>, \<open>disconnect\<close> finds nothing to give back and notifies nobody. An
  assignment then stays queued although another session is open and idle, and nothing the tasks do by
  themselves changes that. The run that leads there ends sessions at no other point.\<close>

theorem session_end_loses_wakeup:
  assumes "notify N view" and "view n = \<lparr>nv_permit = False, nv_futures = Map.empty\<rparr>"
  shows "\<exists>s i. task_run N leaves_at_lock (tasks_start pe_default n) s
    \<and> ps_queue (wt_pending s) \<noteq> [] \<and> is_open (wt_sessions s i)
    \<and> (\<forall>s'. task_run N (\<lambda>m _. own_move m) s s' \<longrightarrow> wt_pending s' = wt_pending s)"
  using notify.wake_up_lost [OF assms] notify.asleep_stays [OF assms(1)] by metis

theorem session_end_loses_wakeup_witness:
  "\<exists>s i. task_run fifo_notify leaves_at_lock (tasks_start pe_default ns_start) s
    \<and> ps_queue (wt_pending s) \<noteq> [] \<and> is_open (wt_sessions s i)
    \<and> (\<forall>s'. task_run fifo_notify (\<lambda>m _. own_move m) s s' \<longrightarrow> wt_pending s' = wt_pending s)"
  using session_end_loses_wakeup [OF fifo.notify_axioms ns_start_view] .

end
