(* ===== verification/Worker_Runtime.thy ===== *)
theory Worker_Runtime
  imports Pending_Lifecycle
begin

text \<open>
  \<open>WorkerRuntimeService\<close> of \<^verbatim>\<open>src/src/worker/runtime.rs\<close>: what a worker does with the events of a
  runtime, and the task of one runtime session. The client of the control plane is the trait object the
  code holds, a record of operations; identifiers of reports and readings of the clocks are arguments.
\<close>

section \<open>The client of the control plane\<close>

record 'c CoreWorkerClient =
  cwc_register_worker :: "RegisterWorkerRequest \<Rightarrow> 'c \<Rightarrow> (Status + RegisterWorkerResponse) \<times> 'c"
  cwc_report_heartbeat :: "ReportHeartbeatRequest \<Rightarrow> 'c \<Rightarrow> (Status + ReportHeartbeatResponse) \<times> 'c"
  cwc_report_execution :: "ReportExecutionRequest \<Rightarrow> 'c \<Rightarrow> (Status + ReportExecutionResponse) \<times> 'c"

section \<open>Events\<close>

text \<open>What one event draws from the clocks and the generator of identifiers.\<close>

record event_stamp =
  ev_instant :: instant
  ev_report_id :: string
  ev_now :: Timestamp

definition forward ::
  "'c CoreWorkerClient \<Rightarrow> ReportExecutionRequest \<Rightarrow> 'c \<Rightarrow> (Status + unit) \<times> 'c" where
  "forward client report c =
     try_call (\<lambda>status. status) (cwc_report_execution client report c) (\<lambda>response c.
       if \<not> rxr_accepted response then (Err (Status Internal ''Core did not accept execution report''), c)
       else (Ok (), c))"

definition report_for ::
  "wire \<Rightarrow> event_stamp \<Rightarrow> string \<Rightarrow> string \<Rightarrow> u64 \<Rightarrow> ExecutionState \<Rightarrow> JobResult option \<Rightarrow> Timestamp option
   \<Rightarrow> ReportExecutionRequest" where
  "report_for W st assignment_id execution_id sequence_number state outcome observed_at =
     \<lparr>rer_report_id = ev_report_id st, rer_assignment_id = assignment_id, rer_execution_id = execution_id,
      rer_sequence_number = sequence_number, rer_state = state_code W state, rer_outcome = outcome,
      rer_observed_at = (case observed_at of Some t \<Rightarrow> Some t | None \<Rightarrow> Some (ev_now st))\<rparr>"

text \<open>The table and the client's world; an operation on the table, then a call of the client.\<close>

definition on_table ::
  "((Status + 'x) \<times> PendingExecutions) \<Rightarrow> 'c \<Rightarrow> ('x \<Rightarrow> PendingExecutions \<Rightarrow> 'c \<Rightarrow> (Status + unit) \<times> PendingExecutions \<times> 'c)
   \<Rightarrow> (Status + unit) \<times> PendingExecutions \<times> 'c" where
  "on_table r c k = (case r of (Err s, p) \<Rightarrow> (Err s, p, c) | (Ok x, p) \<Rightarrow> k x p c)"

definition completed ::
  "wire \<Rightarrow> 'c CoreWorkerClient \<Rightarrow> event_stamp \<Rightarrow> ExecutionCompleted \<Rightarrow> PendingExecutions \<times> 'c
   \<Rightarrow> (Status + unit) \<times> PendingExecutions \<times> 'c" where
  "completed W client st event s =
     (case s of (p, c) \<Rightarrow>
      case ec_result event of
        None \<Rightarrow> (Err (Status InvalidArgument ''completed event requires a result''), p, c)
      | Some result \<Rightarrow>
          if jr_failure result \<noteq> None then
            (Err (Status InvalidArgument ''completed result cannot contain failure''), p, c)
          else
            on_table (terminal (ev_instant st) (ec_assignment_id event) (ec_execution_id event)
                (ec_sequence_number event) True p) c (\<lambda>_ p c.
              case forward client (report_for W st (ec_assignment_id event) (ec_execution_id event)
                  (ec_sequence_number event) Succeeded (Some result) (ec_observed_at event)) c of
                (r, c) \<Rightarrow> (r, p, c)))"

definition failed ::
  "wire \<Rightarrow> 'c CoreWorkerClient \<Rightarrow> event_stamp \<Rightarrow> ExecutionFailed \<Rightarrow> PendingExecutions \<times> 'c
   \<Rightarrow> (Status + unit) \<times> PendingExecutions \<times> 'c" where
  "failed W client st event s =
     (case s of (p, c) \<Rightarrow>
      case ef_failure event of
        None \<Rightarrow> (Err (Status InvalidArgument ''failed event requires failure information''), p, c)
      | Some failure \<Rightarrow>
          on_table (terminal (ev_instant st) (ef_assignment_id event) (ef_execution_id event)
              (ef_sequence_number event) False p) c (\<lambda>_ p c.
            case forward client (report_for W st (ef_assignment_id event) (ef_execution_id event)
                (ef_sequence_number event) Failed (Some (JobResult_default\<lparr>jr_failure := Some failure\<rparr>))
                (ef_observed_at event)) c of
              (r, c) \<Rightarrow> (r, p, c)))"

definition handle_event ::
  "wire \<Rightarrow> 'c CoreWorkerClient \<Rightarrow> event_stamp \<Rightarrow> RuntimeEvent \<Rightarrow> PendingExecutions \<times> 'c
   \<Rightarrow> (Status + unit) \<times> PendingExecutions \<times> 'c" where
  "handle_event W client st event s =
     (case s of (p, c) \<Rightarrow>
      case event of
        None \<Rightarrow> (Err (Status InvalidArgument ''runtime event payload is required''), p, c)
      | Some (Ready _) \<Rightarrow> (Ok (), p, c)
      | Some (Heartbeat _ _) \<Rightarrow> (Ok (), p, c)
      | Some (Started e) \<Rightarrow>
          on_table (started (ev_instant st) e p) c (\<lambda>_ p c.
            case forward client (report_for W st (es_assignment_id e) (es_execution_id e)
                (es_sequence_number e) Running None (es_observed_at e)) c of
              (r, c) \<Rightarrow> (r, p, c))
      | Some (Progress e) \<Rightarrow> on_table (progress e p) c (\<lambda>_ p c. (Ok (), p, c))
      | Some (Metrics e) \<Rightarrow> on_table (metrics e p) c (\<lambda>_ p c. (Ok (), p, c))
      | Some (Completed e) \<Rightarrow> completed W client st e (p, c)
      | Some (FailedEvent e) \<Rightarrow> failed W client st e (p, c))"

text \<open>The remaining methods of the service.\<close>

definition runtime_report_execution ::
  "'c CoreWorkerClient \<Rightarrow> ReportExecutionRequest \<Rightarrow> PendingExecutions \<times> 'c
   \<Rightarrow> (Status + ReportExecutionResponse) \<times> PendingExecutions \<times> 'c" where
  "runtime_report_execution client report s =
     (case s of (p, c) \<Rightarrow>
      case ps_assignments p (rer_assignment_id report) of
        None \<Rightarrow> (Err (Status NotFound ''assignment not found''), p, c)
      | Some _ \<Rightarrow>
          (case try_call (\<lambda>e. e) (forward client report c) (\<lambda>_ c. (Ok \<lparr>rxr_accepted = True\<rparr>, c)) of
             (r, c) \<Rightarrow> (r, p, c)))"

definition runtime_register_runtime :: "Status + unit" where
  "runtime_register_runtime = Err (Status Unimplemented ''registration is outside the runtime session'')"

definition runtime_report_heartbeat :: "ReportHeartbeatRequest \<Rightarrow> Status + ReportHeartbeatResponse" where
  "runtime_report_heartbeat _ = Err (Status Unimplemented ''runtime heartbeats use RuntimeSession'')"

definition runtime_register_worker :: "RegisterWorkerRequest \<Rightarrow> Status + RegisterWorkerResponse" where
  "runtime_register_worker _ = Err (Status Unimplemented ''worker registration belongs to Core'')"

definition runtime_assign_execution :: "AssignExecutionRequest \<Rightarrow> Status + unit" where
  "runtime_assign_execution _ = Err (Status Unimplemented ''assignments arrive through the broker'')"

section \<open>A runtime session\<close>

text \<open>What the \<open>select!\<close> of the session task takes next: an item of the inbound stream, its end, or the
  assignment \<open>next_for\<close> has ready. Before it, the other tasks of the worker change the table and the
  client's world.\<close>

datatype session_input = Inbound event_stamp "Status + RuntimeEvent" | InboundEnd | NextAssignment

record ('c, 'ch) session_state =
  sst_pending :: PendingExecutions
  sst_client :: 'c
  sst_channels :: 'ch

text \<open>How a session stands: still in its loop, out of the loop by \<open>break\<close>, ended, ended by a panic, or
  blocked in a send on a full channel.\<close>

datatype session_end = Open | Broken | Disconnected | Panicked panic | Blocked

fun session_loop ::
  "wire \<Rightarrow> 'c CoreWorkerClient \<Rightarrow> 'ch send \<Rightarrow> string \<Rightarrow> Sender
   \<Rightarrow> (session_input \<times> (('c, 'ch) session_state \<Rightarrow> ('c, 'ch) session_state)) list
   \<Rightarrow> ('c, 'ch) session_state \<Rightarrow> session_end \<times> ('c, 'ch) session_state" where
  "session_loop W client send sid sender [] s = (Open, s)"
| "session_loop W client send sid sender ((x, others) # xs) s =
     (let s = others s in
      case x of
        Inbound st (Ok event) \<Rightarrow>
          (case handle_event W client st event (sst_pending s, sst_client s) of
             (Ok _, p, c) \<Rightarrow>
               session_loop W client send sid sender xs (s\<lparr>sst_pending := p, sst_client := c\<rparr>)
           | (Err status, p, c) \<Rightarrow>
               (let s = s\<lparr>sst_pending := p, sst_client := c\<rparr> in
                case send sender (Err status) (sst_channels s) of
                  None \<Rightarrow> (Blocked, s)
                | Some (_, ch) \<Rightarrow> (Broken, s\<lparr>sst_channels := ch\<rparr>)))
      | Inbound _ (Err _) \<Rightarrow> (Broken, s)
      | InboundEnd \<Rightarrow> (Broken, s)
      | NextAssignment \<Rightarrow>
          (case next_for sid (sst_pending s) of
             (None, _) \<Rightarrow> session_loop W client send sid sender xs s
           | (Some (Err e), p) \<Rightarrow> (Panicked e, s\<lparr>sst_pending := p\<rparr>)
           | (Some (Ok a), p) \<Rightarrow>
               (let s = s\<lparr>sst_pending := p\<rparr> in
                case send sender (Ok (AssignCommand a)) (sst_channels s) of
                  None \<Rightarrow> (Blocked, s)
                | Some (Err _, ch) \<Rightarrow> (Broken, s\<lparr>sst_channels := ch\<rparr>)
                | Some (Ok _, ch) \<Rightarrow>
                    session_loop W client send sid sender xs (s\<lparr>sst_channels := ch\<rparr>))))"

text \<open>After the loop. \<open>keys\<close> gives the iteration order of the table of assignments.\<close>

definition end_session ::
  "(PendingExecutions \<Rightarrow> string list) \<Rightarrow> string \<Rightarrow> ('c, 'ch) session_state \<Rightarrow> session_end \<times> ('c, 'ch) session_state" where
  "end_session keys sid s =
     (case disconnect (keys (sst_pending s)) sid (sst_pending s) of
        (Err e, p) \<Rightarrow> (Panicked e, s\<lparr>sst_pending := p\<rparr>)
      | (Ok _, p) \<Rightarrow> (Disconnected, s\<lparr>sst_pending := p\<rparr>))"

text \<open>The call that opens a session: it registers the channel, and the task runs the loop and then
  disconnects. \<open>leaving\<close> is what the other tasks do while \<open>disconnect\<close> waits for the mutex.\<close>

definition runtime_session ::
  "wire \<Rightarrow> 'c CoreWorkerClient \<Rightarrow> 'ch send \<Rightarrow> (PendingExecutions \<Rightarrow> string list) \<Rightarrow> string \<Rightarrow> Sender
   \<Rightarrow> (session_input \<times> (('c, 'ch) session_state \<Rightarrow> ('c, 'ch) session_state)) list
   \<Rightarrow> (('c, 'ch) session_state \<Rightarrow> ('c, 'ch) session_state)
   \<Rightarrow> ('c, 'ch) session_state \<Rightarrow> session_end \<times> ('c, 'ch) session_state" where
  "runtime_session W client send keys sid sender xs leaving s =
     (case session_loop W client send sid sender xs
        (s\<lparr>sst_pending := register_session sid sender (sst_pending s)\<rparr>) of
        (Broken, s) \<Rightarrow> end_session keys sid (leaving s)
      | (stands, s) \<Rightarrow> (stands, s))"

end
