(* ===== verification/Wire_Instance.thy ===== *)
theory Wire_Instance
  imports Protocols
begin

text \<open>
  A wire format that satisfies \<^const>\<open>wire_ok\<close>: every encoded message type is countable, and a
  message is encoded as a run of bytes whose length is the number of the message; the empty payload is
  no task. It is used only to
  show that the hypothesis on the generated encoders can hold.
\<close>

section \<open>Countability of the encoded messages\<close>

instance word :: (len) countable
  by (rule countable_classI [of unat]) (simp add: word_unat_eq_iff)

instance ResourceRequirements_ext :: (countable) countable
  by (rule countable_classI [of "\<lambda>r. to_nat (rr_cpu_millicores r, rr_memory_bytes r,
        rr_required_capabilities r, ResourceRequirements.more r)"])
    (auto intro: ResourceRequirements.equality)

instance TaskIdentity_ext :: (countable) countable
  by (rule countable_classI [of "\<lambda>r. to_nat (ti_namespace r, ti_application r, ti_name r,
        ti_version r, TaskIdentity.more r)"])
    (auto intro: TaskIdentity.equality)

instance SubmitTaskRequest_ext :: (countable) countable
  by (rule countable_classI [of "\<lambda>r. to_nat (str_application_namespace r, str_task_name r,
        str_arguments r, str_serialization_format r, str_resources r, str_metadata r, str_task r,
        str_parent_execution_id r, SubmitTaskRequest.more r)"])
    (auto intro: SubmitTaskRequest.equality)

instance AssignExecutionRequest_ext :: (countable) countable
  by (rule countable_classI [of "\<lambda>r. to_nat (aer_assignment_id r, aer_execution_id r, aer_job_id r,
        aer_task r, aer_arguments r, aer_serialization_format r, aer_reserved_resources r,
        aer_deadline r, aer_metadata r, AssignExecutionRequest.more r)"])
    (auto intro: AssignExecutionRequest.equality)

instance BrokerEnvelope_ext :: (countable) countable
  by (rule countable_classI [of "\<lambda>r. to_nat (be_message_id r, be_message_kind r, be_schema_version r,
        be_source r, be_destination r, be_created_at r, be_expires_at r, be_payload r,
        be_content_type r, be_correlation_id r, be_causation_id r, be_trace_context r,
        be_routing_headers r, BrokerEnvelope.more r)"])
    (auto intro: BrokerEnvelope.equality)

instance WorkerRegistration_ext :: (countable) countable
  by (rule countable_classI [of "\<lambda>r. to_nat (wr_worker_id r, wr_node_id r, wr_generation r,
        wr_implementation_version r, wr_protocol_versions r, wr_endpoint r, wr_executors r,
        wr_capacity r, wr_metadata r, WorkerRegistration.more r)"])
    (auto intro: WorkerRegistration.equality)

section \<open>The instance\<close>

definition encode_unary :: "'a::countable \<Rightarrow> bytes" where
  "encode_unary m = replicate (to_nat m) CHR ''1''"

definition decode_unary :: "bytes \<Rightarrow> string + 'a::countable" where
  "decode_unary b = Ok (from_nat (length b))"

lemma decode_encode_unary [simp]: "decode_unary (encode_unary m) = Ok m"
  by (simp add: decode_unary_def encode_unary_def)

fun state_number :: "ExecutionState \<Rightarrow> int" where
  "state_number Assigned = 1"
| "state_number Running = 2"
| "state_number Succeeded = 3"
| "state_number Failed = 4"
| "state_number (OtherState w) = 5 + uint w"

definition state_of_number :: "int \<Rightarrow> ExecutionState option" where
  "state_of_number i =
     (if i = 1 then Some Assigned else if i = 2 then Some Running else if i = 3 then Some Succeeded
      else if i = 4 then Some Failed
      else if 5 \<le> i \<and> i < 261 then Some (OtherState (word_of_int (i - 5))) else None)"

lemma uint_byte_less: "uint (w :: 8 word) < 256"
  using uint_lt2p [of w] by simp

lemma state_of_state_number [simp]: "state_of_number (state_number s) = Some s"
proof (cases s)
  case (OtherState w)
  then show ?thesis using uint_byte_less [of w] uint_ge_0 [of w]
    by (simp add: state_of_number_def add_nonneg_eq_0_iff)
qed (simp_all add: state_of_number_def)

lemma state_number_range: "- (2 ^ 31) \<le> state_number s \<and> state_number s < 2 ^ 31"
proof (cases s)
  case (OtherState w)
  then show ?thesis using uint_byte_less [of w] uint_ge_0 [of w] by simp
qed simp_all

definition unary_wire :: wire where
  "unary_wire =
     \<lparr>encode_submit = (\<lambda>m. CHR ''s'' # encode_unary m),
      decode_submit = (\<lambda>b. case b of [] \<Rightarrow> Err ''empty message'' | _ # b \<Rightarrow> decode_unary b),
      encode_assign = encode_unary, decode_assign = decode_unary,
      encode_envelope = encode_unary, decode_envelope = decode_unary,
      encode_registration = encode_unary, decode_registration = decode_unary,
      encode_result = (\<lambda>r. jr_payload r), encode_command = (\<lambda>_. []),
      state_code = state_number, state_of_code = state_of_number, show_status = status_message\<rparr>"

lemma unary_wire_ok: "wire_ok unary_wire"
  using state_number_range by (simp add: wire_ok_def unary_wire_def)

end
