(* ===== verification/Worker_Sessions.thy ===== *)
theory Worker_Sessions
  imports Worker_Runtime Wire_Instance
begin

text \<open>
  What the runtime service of a worker guarantees: an event is reported to the control plane only after
  the table accepted it, a finished assignment is reported at most once, and a session that ends gives
  back every assignment it held.
\<close>

section \<open>Events are calls on the table\<close>

lemma on_table_eq:
  "on_table r c k = (x, p', c') \<longleftrightarrow>
     (\<exists>s. r = (Err s, p') \<and> x = Err s \<and> c' = c) \<or> (\<exists>y p. r = (Ok y, p) \<and> k y p c = (x, p', c'))"
  by (cases r; cases "fst r") (auto simp: on_table_def)

lemma then_report: "(case f of (r, c) \<Rightarrow> (r, p, c)) = (x, p', c') \<longleftrightarrow> f = (x, c') \<and> p' = p"
  by (cases f) auto

lemma terminal_refused: "terminal now a e n ok p = (Err s, p') \<Longrightarrow> p' = p"
  by (auto simp: terminal_def Let_def split: sum.splits option.splits if_splits)

text \<open>The report of a terminal event, if any.\<close>

definition terminal_report :: "wire \<Rightarrow> event_stamp \<Rightarrow> RuntimeEvent \<Rightarrow> ReportExecutionRequest option" where
  "terminal_report W st event =
     (case event of
        Some (Completed e) \<Rightarrow> map_option (\<lambda>result. report_for W st (ec_assignment_id e) (ec_execution_id e)
          (ec_sequence_number e) Succeeded (Some result) (ec_observed_at e)) (ec_result e)
      | Some (FailedEvent e) \<Rightarrow> map_option (\<lambda>failure. report_for W st (ef_assignment_id e) (ef_execution_id e)
          (ef_sequence_number e) Failed (Some (JobResult_default\<lparr>jr_failure := Some failure\<rparr>))
          (ef_observed_at e)) (ef_failure e)
      | _ \<Rightarrow> None)"

text \<open>What a terminal event does: nothing, or it finishes the assignment and then reports.\<close>

lemma terminal_event_cases:
  assumes "terminal_report W st event = Some report"
    and "handle_event W client st event (p, c) = (x, p', c')"
  obtains (refused) s where "x = Err s" "p' = p" "c' = c"
  | (finished) y ok where
      "terminal (ev_instant st) (rer_assignment_id report) (rer_execution_id report)
        (rer_sequence_number report) ok p = (Ok y, p')"
      "forward client report c = (x, c')"
proof -
  have table: "thesis" if "on_table (terminal (ev_instant st) (rer_assignment_id report) (rer_execution_id report)
      (rer_sequence_number report) ok p) c (\<lambda>_ p c. case forward client report c of (r, c) \<Rightarrow> (r, p, c)) = (x, p', c')" for ok
    using that unfolding on_table_eq then_report
  proof (elim disjE exE conjE)
    fix s assume "terminal (ev_instant st) (rer_assignment_id report) (rer_execution_id report)
      (rer_sequence_number report) ok p = (Err s, p')" "x = Err s" "c' = c"
    with refused terminal_refused show thesis by blast
  next
    fix y q assume "terminal (ev_instant st) (rer_assignment_id report) (rer_execution_id report)
      (rer_sequence_number report) ok p = (Ok y, q)" "forward client report c = (x, c')" "p' = q"
    with finished show thesis by blast
  qed
  from assms(1) consider (completed) e result where "event = Some (Completed e)" "ec_result e = Some result"
      "report = report_for W st (ec_assignment_id e) (ec_execution_id e) (ec_sequence_number e) Succeeded
        (Some result) (ec_observed_at e)"
    | (failed) e failure where "event = Some (FailedEvent e)" "ef_failure e = Some failure"
      "report = report_for W st (ef_assignment_id e) (ef_execution_id e) (ef_sequence_number e) Failed
        (Some (JobResult_default\<lparr>jr_failure := Some failure\<rparr>)) (ef_observed_at e)"
    by (auto simp: terminal_report_def split: option.splits EventPayload.splits)
  then show thesis
  proof cases
    case completed
    show thesis
    proof (cases "jr_failure result = None")
      case True
      with completed assms(2) show thesis
        by (intro table [of True]) (simp add: handle_event_def completed_def report_for_def)
    next
      case False
      with completed assms(2) show thesis
        by (intro refused) (auto simp: handle_event_def completed_def)
    qed
  next
    case failed
    with assms(2) show thesis
      by (intro table [of False]) (simp add: handle_event_def failed_def report_for_def)
  qed
qed

lemma handle_event_run:
  assumes "handle_event W client st event (p, c) = (x, p', c')"
  shows "\<exists>ls. pe_run ls p p'"
proof (cases event)
  case None
  with assms show ?thesis by (auto simp: handle_event_def intro: run_nil)
next
  case (Some payload)
  have step: "\<exists>ls. pe_run ls p q" if "pe_step l p q" for l q using pe_run_one [OF that] by blast
  show ?thesis
  proof (cases payload)
    case (Started e)
    have "p' = snd (started (ev_instant st) e p)"
      using assms Some Started by (auto simp: handle_event_def on_table_eq then_report)
    then show ?thesis using step [OF step_started] by simp
  next
    case (Progress e)
    have "p' = snd (progress e p)"
      using assms Some Progress by (auto simp: handle_event_def on_table_eq)
    then show ?thesis using step [OF step_progress] by simp
  next
    case (Metrics e)
    have "p' = snd (metrics e p)"
      using assms Some Metrics by (auto simp: handle_event_def on_table_eq)
    then show ?thesis using step [OF step_metrics] by simp
  next
    case (Completed e)
    have "p' = p \<or> p' = snd (terminal (ev_instant st) (ec_assignment_id e) (ec_execution_id e) (ec_sequence_number e) True p)"
      using assms Some Completed
      by (auto simp: handle_event_def completed_def on_table_eq then_report split: option.split_asm if_split_asm)
    then show ?thesis using step [OF step_terminal] run_nil by metis
  next
    case (FailedEvent e)
    have "p' = p \<or> p' = snd (terminal (ev_instant st) (ef_assignment_id e) (ef_execution_id e) (ef_sequence_number e) False p)"
      using assms Some FailedEvent
      by (auto simp: handle_event_def failed_def on_table_eq then_report split: option.split_asm if_split_asm)
    then show ?thesis using step [OF step_terminal] run_nil by metis
  qed (use assms Some in \<open>auto simp: handle_event_def intro: exI [of _ "[]"] run_nil\<close>)
qed

section \<open>Sessions\<close>

text \<open>What the other tasks of the worker do to the table is a run of its methods.\<close>

definition table_activity :: "(('c, 'ch) session_state \<Rightarrow> ('c, 'ch) session_state) \<Rightarrow> bool" where
  "table_activity others \<longleftrightarrow> (\<forall>s. \<exists>ls. pe_run ls (sst_pending s) (sst_pending (others s)))"

definition iterates :: "(PendingExecutions \<Rightarrow> string list) \<Rightarrow> bool" where
  "iterates keys \<longleftrightarrow> (\<forall>p. pe_inv p \<longrightarrow> iteration_order (keys p) (ps_assignments p))"

text \<open>How the loop of a session leaves the table.\<close>

definition session_ok :: "PendingExecutions \<Rightarrow> session_end \<times> ('c, 'ch) session_state \<Rightarrow> bool" where
  "session_ok p res \<longleftrightarrow> (\<exists>ls. pe_run ls p (sst_pending (snd res)))
     \<and> (fst res = Open \<or> fst res = Broken \<or> fst res = Blocked)"

lemma session_ok_run: "pe_run ls p q \<Longrightarrow> session_ok q res \<Longrightarrow> session_ok p res"
  unfolding session_ok_def using pe_run_append by blast

lemma next_for_never_panics:
  assumes "pe_inv p"
  shows "fst (next_for s p) \<noteq> Some (Err e)"
  using pe_inv_queueD [OF assms, of "hd (ps_queue p)"]
  by (cases "ps_queue p") (auto simp: next_for_def split: option.splits)

lemma session_loop_ok:
  "pe_inv (sst_pending s) \<Longrightarrow> (\<And>x others. (x, others) \<in> set xs \<Longrightarrow> table_activity others) \<Longrightarrow>
   session_ok (sst_pending s) (session_loop W client send sid sender xs s)"
proof (induction xs arbitrary: s)
  case Nil
  then show ?case by (auto simp: session_ok_def intro: run_nil)
next
  case (Cons y xs)
  obtain x others where y: "y = (x, others)" by fastforce
  define s1 where "s1 = others s"
  obtain ls where ls: "pe_run ls (sst_pending s) (sst_pending s1)"
    using Cons.prems(2) [of x others] y by (auto simp: table_activity_def s1_def)
  have inv: "pe_inv (sst_pending s1)" by (rule pe_run_inv [OF ls Cons.prems(1)])
  have IH: "session_ok (sst_pending s1) (session_loop W client send sid sender xs s2)"
    if "pe_run ms (sst_pending s1) (sst_pending s2)" for ms s2
    using session_ok_run [OF that Cons.IH [OF pe_run_inv [OF that inv]]] Cons.prems(2) by auto
  have stop: "session_ok (sst_pending s1) (why, s2)"
    if "pe_run ms (sst_pending s1) (sst_pending s2)" "why = Broken \<or> why = Blocked" for ms s2 why
    using that by (auto simp: session_ok_def)
  have here: "pe_run [] (sst_pending s1) (sst_pending s1)" by (rule run_nil)
  have "session_ok (sst_pending s1) (session_loop W client send sid sender (y # xs) s)"
  proof (cases x)
    case (Inbound st item)
    show ?thesis
    proof (cases item)
      case (Inl status)
      with Inbound y s1_def stop [OF here] show ?thesis by (simp add: Let_def)
    next
      case (Inr event)
      obtain res p c where h: "handle_event W client st event (sst_pending s1, sst_client s1) = (res, p, c)"
        by (cases "handle_event W client st event (sst_pending s1, sst_client s1)") auto
      obtain ms where ms: "pe_run ms (sst_pending s1) p" using handle_event_run [OF h] by blast
      show ?thesis
      proof (cases res)
        case (Inl status)
        with Inbound Inr y h ms show ?thesis
          by (auto simp: s1_def [symmetric] Let_def split: option.splits intro: stop [of ms])
      next
        case (Inr u)
        with Inbound \<open>item = Inr event\<close> y h ms show ?thesis
          by (auto simp: s1_def [symmetric] Let_def intro: IH [of ms])
      qed
    qed
  next
    case InboundEnd
    with y s1_def stop [OF here] show ?thesis by (simp add: Let_def)
  next
    case NextAssignment
    obtain res p where n: "next_for sid (sst_pending s1) = (res, p)" by fastforce
    have ms: "pe_run [OpNextFor sid] (sst_pending s1) p"
      using pe_run_one [OF step_next_for, of sid "sst_pending s1"] n by simp
    show ?thesis
    proof (cases res)
      case None
      with NextAssignment y n show ?thesis by (auto simp: s1_def [symmetric] Let_def intro: IH [OF here])
    next
      case (Some z)
      then obtain a where z: "z = Ok a" using next_for_never_panics [OF inv, of sid] n by (cases z) auto
      with NextAssignment Some y n ms show ?thesis
        by (auto simp: s1_def [symmetric] Let_def split: option.splits sum.splits
            intro: stop [of "[OpNextFor sid]"] IH [of "[OpNextFor sid]"])
    qed
  qed
  then show ?case by (rule session_ok_run [OF ls])
qed

lemma session_loop_ends:
  assumes "(x, others) \<in> set xs" and "x = InboundEnd \<or> (\<exists>st e. x = Inbound st (Err e))"
  shows "fst (session_loop W client send sid sender xs s) \<noteq> Open"
  using assms
proof (induction xs arbitrary: s)
  case (Cons y xs)
  show ?case
  proof (cases "(x, others) = y")
    case True
    with Cons.prems(2) show ?thesis by (auto simp: Let_def)
  next
    case False
    then have "fst (session_loop W client send sid sender xs t) \<noteq> Open" for t using Cons by simp
    then show ?thesis
      by (cases y) (auto simp: Let_def split: session_input.splits sum.splits prod.splits option.splits)
  qed
qed simp

section \<open>Properties\<close>

text \<open>C16. A session whose stream ends or fails does not go on, unless it is stuck before that. When its loop
  is broken, by the end of the stream, a read error, a refused event or a channel that closed, the task
  disconnects: compared with the table as the task finds it when it has the
  mutex, the channel of the session is gone, the assignments it had been handed and had not started are
  pending and at the end of the queue, each once, those it had started stay as they are without a session,
  and every other record and the order of the queue are untouched. The task never panics. This holds
  whatever the other tasks of the worker do to the table meanwhile.\<close>

theorem session_end_releases:
  assumes "pe_inv (sst_pending s)" and "iterates keys"
    and "\<And>x others. (x, others) \<in> set xs \<Longrightarrow> table_activity others" and "table_activity leaving"
    and "session_loop W client send sid sender xs (s\<lparr>sst_pending := register_session sid sender (sst_pending s)\<rparr>) = (stands, t)"
    and "p = sst_pending (leaving t)"
  shows "(stands = Open \<or> stands = Blocked \<or> stands = Broken)
    \<and> ((\<exists>x others. (x, others) \<in> set xs \<and> (x = InboundEnd \<or> (\<exists>st e. x = Inbound st (Err e)))) \<longrightarrow> stands \<noteq> Open)
    \<and> (stands = Broken \<longrightarrow> (\<exists>q given. runtime_session W client send keys sid sender xs leaving s = (Disconnected, (leaving t)\<lparr>sst_pending := q\<rparr>)
      \<and> pe_inv q \<and> ps_sessions q = (ps_sessions p)(sid := None)
      \<and> ps_queue q = ps_queue p @ given \<and> distinct given
      \<and> set given = {i. \<exists>r. ps_assignments p i = Some r \<and> ar_session_id r = Some sid \<and> ar_state r = AsgAssigned}
      \<and> ps_assignments q = (\<lambda>i. map_option (\<lambda>r. if ar_session_id r \<noteq> Some sid then r
          else r\<lparr>ar_session_id := None, ar_state := if ar_state r = AsgAssigned then AsgPending else ar_state r\<rparr>)
          (ps_assignments p i))))"
proof -
  let ?s = "s\<lparr>sst_pending := register_session sid sender (sst_pending s)\<rparr>"
  have inv: "pe_inv (sst_pending ?s)" using assms(1) by (simp add: op_keeps)
  have ok: "session_ok (sst_pending ?s) (stands, t)"
    using session_loop_ok [OF inv, of xs W client send sid sender] assms(3,5) by simp
  then obtain ls where "pe_run ls (sst_pending ?s) (sst_pending t)" by (auto simp: session_ok_def)
  moreover obtain ms where "pe_run ms (sst_pending t) p" using assms(4,6) by (auto simp: table_activity_def)
  ultimately have p: "pe_inv p" using inv by (blast intro: pe_run_inv)
  then have ord: "iteration_order (keys p) (ps_assignments p)" using assms(2) by (simp add: iterates_def)
  let ?given = "filter (\<lambda>i. owned_by sid p i \<and> assigned_in p i) (keys p)"
  obtain q where q: "disconnect (keys p) sid p = (Ok (), q)" using disconnect_spec [OF ord] by blast
  have "runtime_session W client send keys sid sender xs leaving s = (Disconnected, (leaving t)\<lparr>sst_pending := q\<rparr>)"
    if "stands = Broken"
    using that assms(5,6) q by (simp add: runtime_session_def end_session_def)
  moreover have "pe_inv q" using disconnect_inv [OF p ord, of sid] q by simp
  moreover have "ps_sessions q = (ps_sessions p)(sid := None)" "ps_queue q = ps_queue p @ ?given"
    using q disconnect_spec [OF ord, of sid] by auto
  moreover have "distinct ?given" using ord by (simp add: iteration_order_def)
  moreover have "set ?given = {i. \<exists>r. ps_assignments p i = Some r \<and> ar_session_id r = Some sid \<and> ar_state r = AsgAssigned}"
    using ord by (auto simp: iteration_order_def owned_by_iff assigned_in_def)
  moreover have "release_all (owned_by sid p) (ps_assignments p) i = map_option (\<lambda>r. if ar_session_id r \<noteq> Some sid then r
      else r\<lparr>ar_session_id := None, ar_state := if ar_state r = AsgAssigned then AsgPending else ar_state r\<rparr>) (ps_assignments p i)" for i
    by (cases "ps_assignments p i") (auto simp: release_all_def owned_by_iff release_def)
  then have "ps_assignments q = (\<lambda>i. map_option (\<lambda>r. if ar_session_id r \<noteq> Some sid then r
      else r\<lparr>ar_session_id := None, ar_state := if ar_state r = AsgAssigned then AsgPending else ar_state r\<rparr>) (ps_assignments p i))"
    using q disconnect_spec [OF ord, of sid] by auto
  moreover have "stands \<noteq> Open" if "(x, others) \<in> set xs" "x = InboundEnd \<or> (\<exists>st e. x = Inbound st (Err e))" for x others
    using session_loop_ends [OF that, of W client send sid sender ?s] assms(5) by simp
  ultimately show ?thesis using ok unfolding session_ok_def fst_conv by blast
qed







text \<open>A client that counts the reports, and one that refuses them.\<close>

definition counting_client :: "nat CoreWorkerClient" where
  "counting_client =
     \<lparr>cwc_register_worker = (\<lambda>_ n. (Ok \<lparr>rwr_accepted = True, rwr_lease_id = None\<rparr>, n)),
      cwc_report_heartbeat = (\<lambda>_ n. (Ok \<lparr>rhr_accepted = True\<rparr>, n)),
      cwc_report_execution = (\<lambda>_ n. (Ok \<lparr>rxr_accepted = True\<rparr>, Suc n))\<rparr>"

definition refusing_client :: "nat CoreWorkerClient" where
  "refusing_client = counting_client
     \<lparr>cwc_report_execution := (\<lambda>_ n. (Err (Status Unavailable ''cannot connect to Core''), n))\<rparr>"

definition sample_stamp :: event_stamp where
  "sample_stamp = \<lparr>ev_instant = 9, ev_report_id = ''r1'', ev_now = 9\<rparr>"

definition sample_completed :: RuntimeEvent where
  "sample_completed = Some (Completed \<lparr>ec_assignment_id = ''a'', ec_execution_id = ''e'', ec_sequence_number = 2,
     ec_result = Some JobResult_default, ec_observed_at = None\<rparr>)"

lemma sample_completed_run:
  "handle_event unary_wire refusing_client sample_stamp sample_completed (sample_running, 0)
     = (Err (Status Unavailable ''cannot connect to Core''), sample_done, 0)"
  by (simp add: handle_event_def sample_completed_def completed_def JobResult_default_def on_table_def
      sample_stamp_def forward_def refusing_client_def counting_client_def sample_done_def terminal_def
      validate_def sample_running_eval new_record_def sample_assignment_def stale_def word_le_nat_alt)

lemma sample_completed_report:
  obtains report where "terminal_report unary_wire sample_stamp sample_completed = Some report"
    "rer_assignment_id report = ''a''" "rer_execution_id report = ''e''" "rer_sequence_number report = 2"
    "rer_outcome report = Some JobResult_default"
  by (simp add: terminal_report_def sample_completed_def report_for_def)


text \<open>C28. A terminal report that did not get through is lost for good: once the table has ended an
  assignment and the call with its report failed, whether or not it reached the control plane, no later
  terminal event for that assignment, in whatever state the table has come to, is accepted or reported
  again.\<close>

theorem lost_terminal_report_is_final:
  assumes "pe_inv p" and "terminal_report W st event = Some report"
    and "handle_event W client st event (p, c) = (Err e, p', c')" and "p' \<noteq> p"
    and "pe_run ls p' q" and "terminal_report W st' event' = Some report'"
    and "rer_assignment_id report' = rer_assignment_id report"
  shows "\<exists>x. handle_event W client st' event' (q, d) = (Err x, q, d)"
  using assms(2,3)
proof (cases rule: terminal_event_cases)
  case (finished y ok)
  let ?i = "rer_assignment_id report"
  have "p' = snd (terminal (ev_instant st) ?i (rer_execution_id report) (rer_sequence_number report) ok p)"
    using finished(1) by simp
  then have inv: "pe_inv p'" using assms(1) by (simp add: op_keeps)
  obtain r where r: "ps_assignments p' ?i = Some r" "is_final (ar_state r)"
    using finished(1) by (auto simp: terminal_def validate_def put_record_def is_final_def Let_def
        split: option.splits if_splits)
  from pe_run_record [OF assms(5) inv r(1)] r(2) have q: "ps_assignments q ?i = Some r"
    by (auto simp: record_run_def)
  obtain x q' d' where run: "handle_event W client st' event' (q, d) = (x, q', d')"
    by (cases "handle_event W client st' event' (q, d)") auto
  from assms(6) run show ?thesis
  proof (cases rule: terminal_event_cases)
    case (refused s)
    with run show ?thesis by simp
  next
    case (finished y ok)
    with q r(2) assms(7) show ?thesis
      by (auto simp: terminal_def validate_def is_final_def Let_def split: option.splits if_splits)
  qed
qed (use assms(4) in simp)

theorem lost_terminal_report_is_final_witness:
  "\<exists>x. handle_event unary_wire refusing_client sample_stamp sample_completed (sample_done, 0)
     = (Err x, sample_done, 0)"
proof -
  obtain report where report: "terminal_report unary_wire sample_stamp sample_completed = Some report"
    by (rule sample_completed_report)
  have "ps_assignments sample_done ''a'' \<noteq> ps_assignments sample_running ''a''"
    by (simp add: sample_done_eval sample_running_eval new_record_def)
  then have "sample_done \<noteq> sample_running" by auto
  from lost_terminal_report_is_final [OF sample_inv(3) report sample_completed_run this run_nil report refl]
  show ?thesis .
qed

text \<open>A session that is handed the queued assignment and then closes.\<close>

definition sample_session :: "(nat, unit) session_state" where
  "sample_session = \<lparr>sst_pending = sample_queued, sst_client = 0, sst_channels = ()\<rparr>"

definition sample_keys :: "PendingExecutions \<Rightarrow> string list" where
  "sample_keys p = sorted_list_of_set (dom (ps_assignments p))"

lemma sample_iterates: "iterates sample_keys"
  by (auto simp: iterates_def iteration_order_def sample_keys_def pe_inv_def)

theorem session_end_releases_witness:
  "\<exists>s' r. runtime_session unary_wire counting_client (\<lambda>_ _ ch. Some (Ok (), ch)) sample_keys ''s'' 0
      [(NextAssignment, \<lambda>s. s), (InboundEnd, \<lambda>s. s)] (\<lambda>s. s) sample_session = (Disconnected, s')
    \<and> ps_queue (sst_pending s') = [''a''] \<and> ps_assignments (sst_pending s') ''a'' = Some r \<and> ar_state r = AsgPending"
proof -
  let ?xs = "[(NextAssignment, \<lambda>s. s), (InboundEnd, \<lambda>s. s)]"
  let ?s = "sample_session\<lparr>sst_pending := register_session ''s'' 0 (sst_pending sample_session)\<rparr>"
  have inv: "pe_inv (sst_pending sample_session)" using sample_inv(1) by (simp add: sample_session_def)
  have same: "table_activity (\<lambda>s :: (nat, unit) session_state. s)"
    by (auto simp: table_activity_def intro: exI [of _ "[]"] run_nil)
  then have quiet: "table_activity others" if "(x, others) \<in> set ?xs" for x and others :: "(nat, unit) session_state \<Rightarrow> _"
    using that by auto
  obtain t where loop: "session_loop unary_wire counting_client (\<lambda>_ _ ch. Some (Ok (), ch)) ''s'' 0 ?xs ?s = (Broken, t)"
    and t: "ps_queue (sst_pending t) = []"
      "ps_assignments (sst_pending t) = [''a'' \<mapsto> (new_record sample_assignment)\<lparr>ar_state := AsgAssigned, ar_session_id := Some ''s''\<rparr>]"
    by (simp add: sample_session_def next_for_def register_session_def sample_queued_eval Let_def)
  obtain q given where q: "runtime_session unary_wire counting_client (\<lambda>_ _ ch. Some (Ok (), ch)) sample_keys ''s'' 0 ?xs (\<lambda>s. s)
      sample_session = (Disconnected, t\<lparr>sst_pending := q\<rparr>)" "ps_queue q = ps_queue (sst_pending t) @ given" "distinct given"
      "set given = {i. \<exists>r. ps_assignments (sst_pending t) i = Some r \<and> ar_session_id r = Some ''s'' \<and> ar_state r = AsgAssigned}"
      "ps_assignments q = (\<lambda>i. map_option (\<lambda>r. if ar_session_id r \<noteq> Some ''s'' then r
        else r\<lparr>ar_session_id := None, ar_state := if ar_state r = AsgAssigned then AsgPending else ar_state r\<rparr>)
        (ps_assignments (sst_pending t) i))" 
    using conjunct2 [OF conjunct2 [OF session_end_releases [where xs = ?xs, OF inv sample_iterates _ same loop refl]]] quiet by blast
  have "set given = {''a''}" unfolding q(4) t(2) by auto
  with q(3) have "given = [''a'']" by (cases given) (auto simp: subset_singleton_iff)
  with q(1,2) t show ?thesis by (auto simp: q(5))
qed

end
