(* ===== verification/Redis_Service.thy ===== *)
theory Redis_Service
  imports Protocols Wire_Instance
begin

text \<open>
  Redis is a service the program talks to and no part of the repository, so it is a parameter: the
  record \<^verbatim>\<open>redis\<close> of the commands the sources issue over a state of Redis. What the sources rely on
  is \<^verbatim>\<open>redis_ok\<close>, the documented effect of those commands on the keyspace; a command sent to a key of
  another type fails and changes nothing.

  A request travels over a connection: it may be lost before Redis runs it, or its reply may be lost
  after it ran. Scripts run atomically, so a script is one request.

  The last section gives a Redis that satisfies \<^verbatim>\<open>redis_ok\<close>.
\<close>

section \<open>The parameter\<close>

datatype rvalue = RString bytes | RList "bytes list" | RHash "string \<rightharpoonup> bytes"

text \<open>What can be seen of a state: the values, the deadlines of the keys that expire, and the clock,
  in milliseconds.\<close>

record keyspace =
  ks_value :: "string \<rightharpoonup> rvalue"
  ks_deadline :: "string \<rightharpoonup> nat"
  ks_clock :: nat

datatype link = Delivered | Lost string | ReplyLost string

record 'd redis =
  rd_view :: "'d \<Rightarrow> keyspace"
  rd_link :: "'d \<Rightarrow> link \<times> 'd"
  rd_set :: "string \<Rightarrow> bytes \<Rightarrow> 'd \<Rightarrow> (string + unit) \<times> 'd"
  rd_rpush :: "string \<Rightarrow> bytes \<Rightarrow> 'd \<Rightarrow> (string + nat) \<times> 'd"
  rd_lpop :: "string \<Rightarrow> 'd \<Rightarrow> (string + bytes option) \<times> 'd"
  rd_exists :: "string \<Rightarrow> 'd \<Rightarrow> (string + nat) \<times> 'd"
  rd_hget :: "string \<Rightarrow> string \<Rightarrow> 'd \<Rightarrow> (string + bytes option) \<times> 'd"
  rd_hmget :: "string \<Rightarrow> string list \<Rightarrow> 'd \<Rightarrow> (string + bytes option list) \<times> 'd"
  rd_hset :: "string \<Rightarrow> (string \<times> bytes) list \<Rightarrow> 'd \<Rightarrow> (string + nat) \<times> 'd"
  rd_pexpire :: "string \<Rightarrow> nat \<Rightarrow> 'd \<Rightarrow> (string + nat) \<times> 'd"
  rd_scan :: "nat \<Rightarrow> string \<Rightarrow> nat \<Rightarrow> 'd \<Rightarrow> (string + nat \<times> string list) \<times> 'd"
  rd_match :: "string \<Rightarrow> string \<Rightarrow> bool"

section \<open>Documented behaviour\<close>

text \<open>Time passes between requests: a key whose deadline is reached is gone.\<close>

definition later :: "nat \<Rightarrow> keyspace \<Rightarrow> keyspace" where
  "later t v =
     (let expired = (\<lambda>k. \<exists>d. ks_deadline v k = Some d \<and> d \<le> t)
      in \<lparr>ks_value = (\<lambda>k. if expired k then None else ks_value v k),
          ks_deadline = (\<lambda>k. if expired k then None else ks_deadline v k),
          ks_clock = t\<rparr>)"

definition hset_effect :: "string \<Rightarrow> (string \<times> bytes) list \<Rightarrow> keyspace \<Rightarrow> keyspace" where
  "hset_effect k fvs v =
     v\<lparr>ks_value := (ks_value v)(k \<mapsto> RHash
         ((case ks_value v k of Some (RHash h) \<Rightarrow> h | _ \<Rightarrow> Map.empty) ++ map_of (rev fvs)))\<rparr>"

definition rpush_effect :: "string \<Rightarrow> bytes \<Rightarrow> keyspace \<Rightarrow> keyspace" where
  "rpush_effect k b v =
     v\<lparr>ks_value := (ks_value v)(k \<mapsto> RList
         ((case ks_value v k of Some (RList l) \<Rightarrow> l | _ \<Rightarrow> []) @ [b]))\<rparr>"

text \<open>A list that becomes empty is removed.\<close>
definition lpop_effect :: "string \<Rightarrow> keyspace \<Rightarrow> keyspace" where
  "lpop_effect k v =
     (case ks_value v k of
        Some (RList (_ # x # rest)) \<Rightarrow> v\<lparr>ks_value := (ks_value v)(k \<mapsto> RList (x # rest))\<rparr>
      | Some (RList [_]) \<Rightarrow>
          v\<lparr>ks_value := (ks_value v)(k := None), ks_deadline := (ks_deadline v)(k := None)\<rparr>
      | _ \<Rightarrow> v)"

text \<open>\<open>SET\<close> replaces a value of any type and clears the deadline.\<close>
definition set_effect :: "string \<Rightarrow> bytes \<Rightarrow> keyspace \<Rightarrow> keyspace" where
  "set_effect k b v =
     v\<lparr>ks_value := (ks_value v)(k \<mapsto> RString b), ks_deadline := (ks_deadline v)(k := None)\<rparr>"

definition pexpire_effect :: "string \<Rightarrow> nat \<Rightarrow> keyspace \<Rightarrow> keyspace" where
  "pexpire_effect k ms v =
     (if ks_value v k = None then v
      else if ms = 0 then
        v\<lparr>ks_value := (ks_value v)(k := None), ks_deadline := (ks_deadline v)(k := None)\<rparr>
      else v\<lparr>ks_deadline := (ks_deadline v)(k \<mapsto> ks_clock v + ms)\<rparr>)"

definition as_hash :: "rvalue option \<Rightarrow> (string \<rightharpoonup> bytes) option" where
  "as_hash x = (case x of None \<Rightarrow> Some Map.empty | Some (RHash h) \<Rightarrow> Some h | _ \<Rightarrow> None)"

definition as_list :: "rvalue option \<Rightarrow> bytes list option" where
  "as_list x = (case x of None \<Rightarrow> Some [] | Some (RList l) \<Rightarrow> Some l | _ \<Rightarrow> None)"

lemma as_hash_simps [simp]:
  "as_hash None = Some Map.empty" "as_hash (Some (RHash h)) = Some h"
  by (simp_all add: as_hash_def)

lemma as_list_simps [simp]:
  "as_list None = Some []" "as_list (Some (RList l)) = Some l"
  by (simp_all add: as_list_def)

text \<open>A command on a key of the wrong type replies with an error and has no effect; otherwise the
  reply and the effect are as documented. \<open>PEXPIRE\<close> refuses a time that overflows a signed 64-bit
  deadline.\<close>

definition replies :: "'d redis \<Rightarrow> (string + 'x) \<times> 'd \<Rightarrow> 'x \<Rightarrow> keyspace \<Rightarrow> bool" where
  "replies R res x v \<longleftrightarrow> fst res = Ok x \<and> rd_view R (snd res) = v"

definition refuses :: "'d redis \<Rightarrow> (string + 'x) \<times> 'd \<Rightarrow> 'd \<Rightarrow> bool" where
  "refuses R res s \<longleftrightarrow> \<not> is_ok (fst res) \<and> rd_view R (snd res) = rd_view R s"

definition link_ok :: "'d redis \<Rightarrow> bool" where
  "link_ok R \<longleftrightarrow> (\<forall>s. \<exists>t \<ge> ks_clock (rd_view R s). rd_view R (snd (rd_link R s)) = later t (rd_view R s))"

definition strings_ok :: "'d redis \<Rightarrow> bool" where
  "strings_ok R \<longleftrightarrow> (\<forall>s k b. replies R (rd_set R k b s) () (set_effect k b (rd_view R s)))"

definition lists_ok :: "'d redis \<Rightarrow> bool" where
  "lists_ok R \<longleftrightarrow>
     (\<forall>s k b. case as_list (ks_value (rd_view R s) k) of
        None \<Rightarrow> refuses R (rd_rpush R k b s) s
      | Some l \<Rightarrow> replies R (rd_rpush R k b s) (Suc (length l)) (rpush_effect k b (rd_view R s)))
   \<and> (\<forall>s k. case as_list (ks_value (rd_view R s) k) of
        None \<Rightarrow> refuses R (rd_lpop R k s) s
      | Some [] \<Rightarrow> replies R (rd_lpop R k s) None (rd_view R s)
      | Some (x # _) \<Rightarrow> replies R (rd_lpop R k s) (Some x) (lpop_effect k (rd_view R s)))"

definition hashes_ok :: "'d redis \<Rightarrow> bool" where
  "hashes_ok R \<longleftrightarrow>
     (\<forall>s k f. case as_hash (ks_value (rd_view R s) k) of
        None \<Rightarrow> refuses R (rd_hget R k f s) s
      | Some h \<Rightarrow> replies R (rd_hget R k f s) (h f) (rd_view R s))
   \<and> (\<forall>s k fs. case as_hash (ks_value (rd_view R s) k) of
        None \<Rightarrow> refuses R (rd_hmget R k fs s) s
      | Some h \<Rightarrow> replies R (rd_hmget R k fs s) (map h fs) (rd_view R s))
   \<and> (\<forall>s k fvs. case as_hash (ks_value (rd_view R s) k) of
        None \<Rightarrow> refuses R (rd_hset R k fvs s) s
      | Some h \<Rightarrow> (\<exists>n. replies R (rd_hset R k fvs s) n (hset_effect k fvs (rd_view R s))))"

definition keys_ok :: "'d redis \<Rightarrow> bool" where
  "keys_ok R \<longleftrightarrow>
     (\<forall>s k. replies R (rd_exists R k s) (if ks_value (rd_view R s) k = None then 0 else 1) (rd_view R s))
   \<and> (\<forall>s k ms. if ks_clock (rd_view R s) + ms < 2 ^ 63
        then (\<exists>n. replies R (rd_pexpire R k ms s) n (pexpire_effect k ms (rd_view R s)))
        else refuses R (rd_pexpire R k ms s) s)"

text \<open>Patterns: a backslash takes the next character literally, an ordinary character stands for itself,
  and a final star matches any rest.\<close>

definition special :: "char \<Rightarrow> bool" where
  "special c \<longleftrightarrow> c = CHR 0x5C \<or> c = CHR ''*'' \<or> c = CHR ''?'' \<or> c = CHR ''[''"

definition patterns_ok :: "'d redis \<Rightarrow> bool" where
  "patterns_ok R \<longleftrightarrow>
     (\<forall>k. rd_match R ''*'' k)
   \<and> (\<forall>c p k. rd_match R (CHR 0x5C # c # p) k \<longleftrightarrow> (\<exists>k'. k = c # k' \<and> rd_match R p k'))
   \<and> (\<forall>c p k. \<not> special c \<longrightarrow> rd_match R (c # p) k \<longleftrightarrow> (\<exists>k'. k = c # k' \<and> rd_match R p k'))"

text \<open>A run of \<open>SCAN\<close> requests, each continuing at the cursor the previous one returned, while time
  passes; \<open>keys\<close> are the keys returned on the way.\<close>

inductive scan_run ::
  "'d redis \<Rightarrow> string \<Rightarrow> nat \<Rightarrow> nat \<Rightarrow> 'd \<Rightarrow> string list \<Rightarrow> nat \<Rightarrow> nat \<Rightarrow> 'd \<Rightarrow> bool" for R p n where
  first: "rd_scan R c p n s = (Ok (c', ks), s') \<Longrightarrow> scan_run R p n c s ks 1 c' s'"
| further: "scan_run R p n c s ks i c' s' \<Longrightarrow> c' \<noteq> 0 \<Longrightarrow> rd_view R s1 = later t (rd_view R s') \<Longrightarrow>
    ks_clock (rd_view R s') \<le> t \<Longrightarrow>
    rd_scan R c' p n s1 = (Ok (c'', ks'), s2) \<Longrightarrow> scan_run R p n c s (ks @ ks') (Suc i) c'' s2"

text \<open>\<open>SCAN\<close> never fails and changes nothing; it returns matching keys that exist; a full iteration, from
  cursor 0 to cursor 0, returns every matching key that exists throughout; and over a finite keyspace
  an iteration ends.\<close>

definition scan_ok :: "'d redis \<Rightarrow> bool" where
  "scan_ok R \<longleftrightarrow>
     (\<forall>c p n s. \<exists>c' ks s'. rd_scan R c p n s = (Ok (c', ks), s') \<and> rd_view R s' = rd_view R s
        \<and> (\<forall>k \<in> set ks. rd_match R p k \<and> ks_value (rd_view R s) k \<noteq> None))
   \<and> (\<forall>p n s ks i s'. finite (dom (ks_value (rd_view R s))) \<longrightarrow> scan_run R p n 0 s ks i 0 s' \<longrightarrow>
        (\<forall>k. rd_match R p k \<longrightarrow> ks_value (rd_view R s') k \<noteq> None \<longrightarrow> k \<in> set ks))
   \<and> (\<forall>p n s. finite (dom (ks_value (rd_view R s))) \<longrightarrow>
        (\<exists>N. \<forall>ks i c' s'. scan_run R p n 0 s ks i c' s' \<longrightarrow> i \<ge> N \<longrightarrow> c' = 0))"

definition redis_ok :: "'d redis \<Rightarrow> bool" where
  "redis_ok R \<longleftrightarrow> link_ok R \<and> strings_ok R \<and> lists_ok R \<and> hashes_ok R \<and> keys_ok R
     \<and> patterns_ok R \<and> scan_ok R"

section \<open>Requests\<close>

text \<open>A client sends a command or a script: it may not arrive, or its reply may not come back.\<close>

definition request :: "'d redis \<Rightarrow> ('d \<Rightarrow> (string + 'x) \<times> 'd) \<Rightarrow> 'd \<Rightarrow> (string + 'x) \<times> 'd" where
  "request R cmd s =
     (case rd_link R s of
        (Delivered, s1) \<Rightarrow> cmd s1
      | (Lost e, s1) \<Rightarrow> (Err e, s1)
      | (ReplyLost e, s1) \<Rightarrow> (Err e, snd (cmd s1)))"

text \<open>\<open>get_multiplexed_async_connection\<close> is a request with no effect.\<close>

definition connect :: "'d redis \<Rightarrow> 'd \<Rightarrow> (string + unit) \<times> 'd" where
  "connect R s = request R (\<lambda>s. (Ok (), s)) s"

text \<open>\<open>BLPOP key 0\<close>: waits until the list has an element.\<close>

definition blpop :: "'d redis \<Rightarrow> string \<Rightarrow> 'd \<Rightarrow> ((string + bytes) \<times> 'd) option" where
  "blpop R k s =
     (case request R (rd_lpop R k) s of
        (Ok None, _) \<Rightarrow> None
      | (Ok (Some b), s') \<Rightarrow> Some (Ok b, s')
      | (Err e, s') \<Rightarrow> Some (Err e, s'))"

section \<open>Reasoning about requests\<close>

lemma later_persistent [simp]:
  "ks_deadline v k = None \<Longrightarrow> ks_value (later t v) k = ks_value v k"
  "ks_deadline v k = None \<Longrightarrow> ks_deadline (later t v) k = None"
  by (simp_all add: later_def Let_def)

lemma later_clock [simp]: "ks_clock (later t v) = t"
  by (simp add: later_def Let_def)

lemma later_later [simp]: "t1 \<le> t2 \<Longrightarrow> later t2 (later t1 v) = later t2 v"
  by (auto simp: later_def Let_def fun_eq_iff)

lemma later_value: "ks_value (later t v) k \<noteq> None \<Longrightarrow> ks_value v k \<noteq> None"
  by (simp add: later_def Let_def split: if_splits)

text \<open>The states a request can leave: the command ran after some time passed, or only time passed.\<close>

lemma request_cases:
  assumes "redis_ok R" and "request R cmd s = (res, s')"
  obtains t s1 where "ks_clock (rd_view R s) \<le> t" "rd_view R s1 = later t (rd_view R s)"
      "cmd s1 = (res, s')"
  | t e where "ks_clock (rd_view R s) \<le> t" "res = Err e" "rd_view R s' = later t (rd_view R s)"
  | t s1 e where "ks_clock (rd_view R s) \<le> t" "rd_view R s1 = later t (rd_view R s)" "res = Err e"
      "s' = snd (cmd s1)"
proof -
  obtain l s1 where l: "rd_link R s = (l, s1)" by fastforce
  from assms(1) have "link_ok R" by (simp add: redis_ok_def)
  with l obtain t where "ks_clock (rd_view R s) \<le> t" "rd_view R s1 = later t (rd_view R s)"
    unfolding link_ok_def by (metis snd_conv)
  with that assms(2) l show thesis by (cases l) (auto simp: request_def)
qed

lemma connect_view:
  assumes "redis_ok R"
  shows "\<exists>t \<ge> ks_clock (rd_view R s). rd_view R (snd (connect R s)) = later t (rd_view R s)"
proof -
  obtain res s' where c: "request R (\<lambda>s. (Ok (), s)) s = (res, s')" by fastforce
  from request_cases [OF assms c] show ?thesis
    by cases (use c in \<open>auto simp: connect_def\<close>)
qed

section \<open>Replies\<close>

lemma redis_okD:
  assumes "redis_ok R"
  shows "link_ok R" "strings_ok R" "lists_ok R" "hashes_ok R" "keys_ok R" "patterns_ok R" "scan_ok R"
  using assms by (simp_all add: redis_ok_def)

lemma repliesE:
  assumes "replies R res x v"
  obtains s' where "res = (Ok x, s')" "rd_view R s' = v"
  using assms that unfolding replies_def by (metis prod.collapse)

lemma exists_reply:
  assumes "redis_ok R"
  obtains s' where "rd_exists R k s = (Ok (if ks_value (rd_view R s) k = None then 0 else 1), s')"
    "rd_view R s' = rd_view R s"
proof -
  from redis_okD(5) [OF assms] have
    "replies R (rd_exists R k s) (if ks_value (rd_view R s) k = None then 0 else 1) (rd_view R s)"
    unfolding keys_ok_def by blast
  with that show thesis by (auto elim: repliesE)
qed

lemma set_reply:
  assumes "redis_ok R"
  obtains s' where "rd_set R k b s = (Ok (), s')" "rd_view R s' = set_effect k b (rd_view R s)"
proof -
  from redis_okD(2) [OF assms] have "replies R (rd_set R k b s) () (set_effect k b (rd_view R s))"
    unfolding strings_ok_def by blast
  with that show thesis by (auto elim: repliesE)
qed

lemma hget_reply:
  assumes "redis_ok R" and "as_hash (ks_value (rd_view R s) k) = Some h"
  obtains s' where "rd_hget R k f s = (Ok (h f), s')" "rd_view R s' = rd_view R s"
proof -
  from redis_okD(4) [OF assms(1)]
  have "case as_hash (ks_value (rd_view R s) k) of None \<Rightarrow> refuses R (rd_hget R k f s) s
      | Some h \<Rightarrow> replies R (rd_hget R k f s) (h f) (rd_view R s)"
    unfolding hashes_ok_def by blast
  with assms(2) that show thesis by (auto elim: repliesE)
qed

lemma hmget_reply:
  assumes "redis_ok R" and "as_hash (ks_value (rd_view R s) k) = Some h"
  obtains s' where "rd_hmget R k fs s = (Ok (map h fs), s')" "rd_view R s' = rd_view R s"
proof -
  from redis_okD(4) [OF assms(1)]
  have "case as_hash (ks_value (rd_view R s) k) of None \<Rightarrow> refuses R (rd_hmget R k fs s) s
      | Some h \<Rightarrow> replies R (rd_hmget R k fs s) (map h fs) (rd_view R s)"
    unfolding hashes_ok_def by blast
  with assms(2) that show thesis by (auto elim: repliesE)
qed

lemma hset_reply:
  assumes "redis_ok R" and "as_hash (ks_value (rd_view R s) k) = Some h"
  obtains n s' where "rd_hset R k fvs s = (Ok n, s')"
    "rd_view R s' = hset_effect k fvs (rd_view R s)"
proof -
  from redis_okD(4) [OF assms(1)]
  have "case as_hash (ks_value (rd_view R s) k) of None \<Rightarrow> refuses R (rd_hset R k fvs s) s
      | Some h \<Rightarrow> (\<exists>n. replies R (rd_hset R k fvs s) n (hset_effect k fvs (rd_view R s)))"
    unfolding hashes_ok_def by blast
  with assms(2) that show thesis by (auto elim: repliesE)
qed

lemma pexpire_reply:
  assumes "redis_ok R" and "ks_clock (rd_view R s) + ms < 2 ^ 63"
  obtains n s' where "rd_pexpire R k ms s = (Ok n, s')"
    "rd_view R s' = pexpire_effect k ms (rd_view R s)"
proof -
  from redis_okD(5) [OF assms(1)]
  have "if ks_clock (rd_view R s) + ms < 2 ^ 63
      then (\<exists>n. replies R (rd_pexpire R k ms s) n (pexpire_effect k ms (rd_view R s)))
      else refuses R (rd_pexpire R k ms s) s"
    unfolding keys_ok_def by blast
  with assms(2) that show thesis by (auto elim: repliesE)
qed

lemma rpush_reply:
  assumes "redis_ok R" and "as_list (ks_value (rd_view R s) k) = Some l"
  obtains s' where "rd_rpush R k b s = (Ok (Suc (length l)), s')"
    "rd_view R s' = rpush_effect k b (rd_view R s)"
proof -
  from redis_okD(3) [OF assms(1)]
  have "case as_list (ks_value (rd_view R s) k) of None \<Rightarrow> refuses R (rd_rpush R k b s) s
      | Some l \<Rightarrow> replies R (rd_rpush R k b s) (Suc (length l)) (rpush_effect k b (rd_view R s))"
    unfolding lists_ok_def by blast
  with assms(2) that show thesis by (auto elim: repliesE)
qed

lemma lpop_reply:
  assumes "redis_ok R" and "as_list (ks_value (rd_view R s) k) = Some l"
  obtains s' where "rd_lpop R k s = (Ok (case l of [] \<Rightarrow> None | x # _ \<Rightarrow> Some x), s')"
    "rd_view R s' = (if l = [] then rd_view R s else lpop_effect k (rd_view R s))"
proof -
  from redis_okD(3) [OF assms(1)]
  have "case as_list (ks_value (rd_view R s) k) of None \<Rightarrow> refuses R (rd_lpop R k s) s
      | Some [] \<Rightarrow> replies R (rd_lpop R k s) None (rd_view R s)
      | Some (x # _) \<Rightarrow> replies R (rd_lpop R k s) (Some x) (lpop_effect k (rd_view R s))"
    unfolding lists_ok_def by blast
  with assms(2) that show thesis by (cases l) (auto elim: repliesE)
qed

section \<open>A connection that loses nothing\<close>

definition reliable :: "'d redis \<Rightarrow> bool" where
  "reliable R \<longleftrightarrow> (\<forall>s. fst (rd_link R s) = Delivered)"

lemma reliable_request:
  assumes "redis_ok R" and "reliable R"
  obtains t s1 where "rd_view R s1 = later t (rd_view R s)" "request R cmd s = cmd s1"
proof -
  obtain l s1 where l: "rd_link R s = (l, s1)" by fastforce
  from assms(1) have "link_ok R" by (simp add: redis_ok_def)
  with l obtain t where t: "rd_view R s1 = later t (rd_view R s)"
    unfolding link_ok_def by (metis snd_conv)
  from assms(2) l have "l = Delivered" unfolding reliable_def by (metis fst_conv)
  with l have "request R cmd s = cmd s1" by (simp add: request_def)
  with t that show thesis by blast
qed

lemma reliable_connect:
  assumes "redis_ok R" and "reliable R"
  obtains t s1 where "rd_view R s1 = later t (rd_view R s)" "connect R s = (Ok (), s1)"
proof -
  obtain t s1 where "rd_view R s1 = later t (rd_view R s)"
      "request R (\<lambda>s. (Ok (), s)) s = ((Ok () :: string + unit), s1)"
    by (rule reliable_request [OF assms, of s "\<lambda>s. (Ok (), s)"])
  with that show thesis by (simp add: connect_def)
qed

section \<open>The deployment the components run in\<close>

text \<open>The context in which the Redis components keep their contracts.\<close>

locale redis_deployment =
  fixes R :: "'d redis" and W :: wire
  assumes redis: "redis_ok R" and wire: "wire_ok W"

text \<open>The same over a connection that loses nothing.\<close>

locale reliable_deployment = redis_deployment +
  assumes reliable: "reliable R"

section \<open>A Redis that satisfies the hypothesis\<close>

text \<open>Its state is the keyspace and, for each request to come, how long it takes and whether it or
  its reply is lost.\<close>

record reference_state =
  ref_view :: keyspace
  ref_future :: "(nat \<times> link) list"

definition put_view :: "keyspace \<Rightarrow> reference_state \<Rightarrow> reference_state" where
  "put_view v s = s\<lparr>ref_view := v\<rparr>"

definition on_hash ::
  "string \<Rightarrow> ((string \<rightharpoonup> bytes) \<Rightarrow> 'x) \<Rightarrow> (keyspace \<Rightarrow> keyspace) \<Rightarrow> reference_state
   \<Rightarrow> (string + 'x) \<times> reference_state" where
  "on_hash k f g s =
     (case as_hash (ks_value (ref_view s) k) of
        None \<Rightarrow> (Err ''WRONGTYPE'', s)
      | Some h \<Rightarrow> (Ok (f h), put_view (g (ref_view s)) s))"

definition on_list ::
  "string \<Rightarrow> (bytes list \<Rightarrow> 'x) \<Rightarrow> (keyspace \<Rightarrow> keyspace) \<Rightarrow> reference_state
   \<Rightarrow> (string + 'x) \<times> reference_state" where
  "on_list k f g s =
     (case as_list (ks_value (ref_view s) k) of
        None \<Rightarrow> (Err ''WRONGTYPE'', s)
      | Some l \<Rightarrow> (Ok (f l), put_view (g (ref_view s)) s))"

text \<open>A matcher for patterns of literals, escapes and stars; no other wildcard is interpreted.\<close>

fun reference_match :: "string \<Rightarrow> string \<Rightarrow> bool" where
  "reference_match [] k = (k = [])"
| "reference_match (c # p) k =
     (if c = CHR ''*'' then reference_match p k \<or> (case k of [] \<Rightarrow> False | _ # k' \<Rightarrow> reference_match (c # p) k')
      else if c = CHR 0x5C then
        (case p of [] \<Rightarrow> False
         | c' # p' \<Rightarrow> (case k of [] \<Rightarrow> False | x # k' \<Rightarrow> x = c' \<and> reference_match p' k'))
      else (case k of [] \<Rightarrow> False | x # k' \<Rightarrow> x = c \<and> reference_match p k'))"

definition matching_keys :: "string \<Rightarrow> keyspace \<Rightarrow> string list" where
  "matching_keys p v = filter (reference_match p) (sorted_list_of_set (dom (ks_value v)))"

definition reference_redis :: "reference_state redis" where
  "reference_redis =
     \<lparr>rd_view = ref_view,
      rd_link = (\<lambda>s. case ref_future s of
          [] \<Rightarrow> (Delivered, put_view (later (ks_clock (ref_view s)) (ref_view s)) s)
        | (d, l) # rest \<Rightarrow>
            (l, put_view (later (ks_clock (ref_view s) + d) (ref_view s)) (s\<lparr>ref_future := rest\<rparr>))),
      rd_set = (\<lambda>k b s. (Ok (), put_view (set_effect k b (ref_view s)) s)),
      rd_rpush = (\<lambda>k b. on_list k (\<lambda>l. Suc (length l)) (rpush_effect k b)),
      rd_lpop = (\<lambda>k. on_list k (\<lambda>l. case l of [] \<Rightarrow> None | x # _ \<Rightarrow> Some x) (lpop_effect k)),
      rd_exists = (\<lambda>k s. (Ok (if ks_value (ref_view s) k = None then 0 else 1), s)),
      rd_hget = (\<lambda>k f. on_hash k (\<lambda>h. h f) (\<lambda>v. v)),
      rd_hmget = (\<lambda>k fs. on_hash k (\<lambda>h. map h fs) (\<lambda>v. v)),
      rd_hset = (\<lambda>k fvs. on_hash k (\<lambda>_. length fvs) (hset_effect k fvs)),
      rd_pexpire = (\<lambda>k ms s. if ks_clock (ref_view s) + ms < 2 ^ 63
          then (Ok 1, put_view (pexpire_effect k ms (ref_view s)) s)
          else (Err ''ERR invalid expire time'', s)),
      rd_scan = (\<lambda>c p n s. (Ok (0, matching_keys p (ref_view s)), s)),
      rd_match = reference_match\<rparr>"

lemma lpop_effect_Nil: "as_list (ks_value v k) = Some [] \<Longrightarrow> lpop_effect k v = v"
  by (auto simp: as_list_def lpop_effect_def split: option.splits rvalue.splits list.splits)

lemma put_view_simps [simp]:
  "ref_view (put_view v s) = v" "ref_future (put_view v s) = ref_future s" "put_view (ref_view s) s = s"
  by (simp_all add: put_view_def)

lemmas reference_defs = reference_redis_def replies_def refuses_def on_hash_def on_list_def

lemma reference_match_star: "reference_match ''*'' k"
  by (induction k) simp_all

lemma reference_scan_run:
  assumes "rd_scan R = rd_scan reference_redis"
  shows "scan_run R p n c s ks i c' s' \<Longrightarrow> c' = 0 \<and> s' = s \<and> ks = matching_keys p (ref_view s)"
  by (induction rule: scan_run.induct) (simp_all add: assms reference_redis_def)

lemma reference_scan_ok:
  assumes "rd_scan R = rd_scan reference_redis" "rd_view R = ref_view" "rd_match R = reference_match"
  shows "scan_ok R"
proof -
  have "\<exists>c' ks s'. rd_scan R c p n s = (Ok (c', ks), s') \<and> rd_view R s' = rd_view R s
      \<and> (\<forall>k \<in> set ks. rd_match R p k \<and> ks_value (rd_view R s) k \<noteq> None)" for c p n s
    using assms by (cases "finite (dom (ks_value (ref_view s)))")
      (auto simp: reference_redis_def matching_keys_def)
  moreover have "k \<in> set ks" if "finite (dom (ks_value (rd_view R s)))" "scan_run R p n 0 s ks i 0 s'"
      "rd_match R p k" "ks_value (rd_view R s') k \<noteq> None" for p n s ks i s' k
    using that reference_scan_run [OF assms(1) that(2)] assms by (auto simp: matching_keys_def)
  moreover have "\<exists>N. \<forall>ks i c' s'. scan_run R p n 0 s ks i c' s' \<longrightarrow> i \<ge> N \<longrightarrow> c' = 0" for p n s
    using reference_scan_run [OF assms(1)] by blast
  ultimately show ?thesis unfolding scan_ok_def by blast
qed

lemma reference_patterns_ok:
  assumes "rd_match R = reference_match"
  shows "patterns_ok R"
proof -
  have "reference_match (CHR 0x5C # c # p) k \<longleftrightarrow> (\<exists>k'. k = c # k' \<and> reference_match p k')" for c p k
    by (cases k) simp_all
  moreover have "\<not> special c \<Longrightarrow> reference_match (c # p) k \<longleftrightarrow> (\<exists>k'. k = c # k' \<and> reference_match p k')" for c p k
    by (cases k) (simp_all add: special_def)
  ultimately show ?thesis unfolding patterns_ok_def assms using reference_match_star by blast
qed

lemma reference_redis_ok: "redis_ok reference_redis"
proof -
  have "\<exists>t \<ge> ks_clock (ref_view s). ref_view (snd (rd_link reference_redis s)) = later t (ref_view s)" for s
    by (rule exI [of _ "ks_clock (ref_view s) + (case ref_future s of [] \<Rightarrow> 0 | (d, l) # _ \<Rightarrow> d)"])
      (simp add: reference_redis_def split: list.split prod.split)
  then have "link_ok reference_redis"
    by (simp add: link_ok_def reference_redis_def)
  moreover have "strings_ok reference_redis"
    by (simp add: strings_ok_def reference_defs)
  moreover have "lists_ok reference_redis"
    by (auto simp: lists_ok_def reference_defs lpop_effect_Nil split: option.splits list.splits)
  moreover have "hashes_ok reference_redis"
    by (auto simp: hashes_ok_def reference_defs split: option.splits)
  moreover have "keys_ok reference_redis"
    by (auto simp: keys_ok_def reference_defs)
  moreover have "scan_ok reference_redis" "patterns_ok reference_redis"
    by (rule reference_scan_ok reference_patterns_ok; simp add: reference_redis_def)+
  ultimately show ?thesis by (simp add: redis_ok_def)
qed

text \<open>The same Redis behind a connection that loses nothing.\<close>

definition calm_redis :: "reference_state redis" where
  "calm_redis = reference_redis\<lparr>rd_link := \<lambda>s. (Delivered, put_view (later (ks_clock (ref_view s)) (ref_view s)) s)\<rparr>"

lemma calm_redis_fields:
  "rd_view calm_redis = rd_view reference_redis" "rd_set calm_redis = rd_set reference_redis"
  "rd_rpush calm_redis = rd_rpush reference_redis" "rd_lpop calm_redis = rd_lpop reference_redis"
  "rd_exists calm_redis = rd_exists reference_redis" "rd_hget calm_redis = rd_hget reference_redis"
  "rd_hmget calm_redis = rd_hmget reference_redis" "rd_hset calm_redis = rd_hset reference_redis"
  "rd_pexpire calm_redis = rd_pexpire reference_redis" "rd_scan calm_redis = rd_scan reference_redis"
  "rd_match calm_redis = rd_match reference_redis"
  by (simp_all add: calm_redis_def)

lemma calm_redis_replies:
  "replies calm_redis = replies reference_redis" "refuses calm_redis = refuses reference_redis"
  by (simp_all add: fun_eq_iff replies_def refuses_def calm_redis_fields)

lemma calm_redis_ok: "redis_ok calm_redis"
proof -
  have "link_ok calm_redis"
    by (auto simp: link_ok_def calm_redis_def reference_redis_def)
  moreover have "strings_ok calm_redis = strings_ok reference_redis"
    "lists_ok calm_redis = lists_ok reference_redis"
    "hashes_ok calm_redis = hashes_ok reference_redis"
    "keys_ok calm_redis = keys_ok reference_redis"
    unfolding strings_ok_def lists_ok_def hashes_ok_def keys_ok_def
      calm_redis_replies calm_redis_fields by (rule refl)+
  moreover have "scan_ok calm_redis" "patterns_ok calm_redis"
    by (rule reference_scan_ok reference_patterns_ok;
        simp add: calm_redis_fields; simp add: reference_redis_def)+
  ultimately show ?thesis using reference_redis_ok by (simp add: redis_ok_def)
qed

lemma calm_redis_reliable: "reliable calm_redis"
  by (simp add: reliable_def calm_redis_def)

definition empty_keyspace :: keyspace where
  "empty_keyspace = \<lparr>ks_value = Map.empty, ks_deadline = Map.empty, ks_clock = 0\<rparr>"

interpretation reference: redis_deployment reference_redis unary_wire
  by unfold_locales (simp_all add: reference_redis_ok unary_wire_ok)

interpretation calm: reliable_deployment calm_redis unary_wire
  by unfold_locales (simp_all add: calm_redis_ok unary_wire_ok calm_redis_reliable)

end
