(* ===== verification/Broker.thy ===== *)
theory Broker
  imports Redis_Service Wire_Instance
begin

text \<open>
  \<^verbatim>\<open>src/src/broker/\<close>: the trait \<open>Broker\<close>, the routing of worker destinations and the Redis broker, in
  which a destination is a Redis list. The contract of the trait is the locale \<open>broker\<close>: a queue per
  destination. A lost reply may hide that a publish took effect, and may lose the envelope a consume
  had already popped, so delivery is in order and at most once.
\<close>

section \<open>The trait and the routing\<close>

text \<open>\<open>BrokerError\<close> is its message.\<close>
type_synonym BrokerError = string

text \<open>\<open>consume\<close> is \<^const>\<open>None\<close> while the destination is empty and the caller waits.\<close>

record 'w Broker =
  broker_publish :: "BrokerEnvelope \<Rightarrow> 'w \<Rightarrow> (BrokerError + unit) \<times> 'w"
  broker_consume :: "string \<Rightarrow> 'w \<Rightarrow> ((BrokerError + BrokerEnvelope) \<times> 'w) option"

definition worker_destination :: "string \<Rightarrow> string" where
  "worker_destination worker_id = ''workers.'' @ worker_id"

lemma worker_destination_inj [simp]: "worker_destination i = worker_destination j \<longleftrightarrow> i = j"
  by (simp add: worker_destination_def)

section \<open>The Redis broker\<close>

record RedisBroker =
  rb_key_prefix :: string

definition redis_broker_new :: "(string \<Rightarrow> string + unit) \<Rightarrow> string \<Rightarrow> string \<Rightarrow> BrokerError + RedisBroker" where
  "redis_broker_new open_client url key_prefix =
     (case open_client url of
        Err e \<Rightarrow> Err (''invalid Redis URL: '' @ e)
      | Ok _ \<Rightarrow> Ok \<lparr>rb_key_prefix = key_prefix\<rparr>)"

definition broker_key :: "RedisBroker \<Rightarrow> string \<Rightarrow> string" where
  "broker_key c destination = rb_key_prefix c @ '':'' @ destination"

definition redis_publish ::
  "'d redis \<Rightarrow> wire \<Rightarrow> RedisBroker \<Rightarrow> BrokerEnvelope \<Rightarrow> 'd \<Rightarrow> (BrokerError + unit) \<times> 'd" where
  "redis_publish R W c envelope s =
     try_call (\<lambda>e. ''cannot connect to Redis: '' @ e) (connect R s) (\<lambda>_ s.
       try_call (\<lambda>e. ''cannot publish to Redis: '' @ e)
         (request R (rd_rpush R (broker_key c (be_destination envelope)) (encode_envelope W envelope)) s)
         (\<lambda>_ s. (Ok (), s)))"

definition redis_consume ::
  "'d redis \<Rightarrow> wire \<Rightarrow> RedisBroker \<Rightarrow> string \<Rightarrow> 'd \<Rightarrow> ((BrokerError + BrokerEnvelope) \<times> 'd) option" where
  "redis_consume R W c destination s =
     (case connect R s of
        (Err e, s) \<Rightarrow> Some (Err (''cannot connect to Redis: '' @ e), s)
      | (Ok _, s) \<Rightarrow>
          (case blpop R (broker_key c destination) s of
             None \<Rightarrow> None
           | Some (Err e, s) \<Rightarrow> Some (Err (''cannot consume from Redis: '' @ e), s)
           | Some (Ok payload, s) \<Rightarrow>
               (case decode_envelope W payload of
                  Err e \<Rightarrow> Some (Err (''invalid broker envelope: '' @ e), s)
                | Ok envelope \<Rightarrow> Some (Ok envelope, s))))"

definition redis_broker :: "'d redis \<Rightarrow> wire \<Rightarrow> RedisBroker \<Rightarrow> 'd Broker" where
  "redis_broker R W c = \<lparr>broker_publish = redis_publish R W c, broker_consume = redis_consume R W c\<rparr>"

section \<open>Contract\<close>

text \<open>What clients do with a broker, and the envelopes each consume delivered.\<close>

datatype broker_call = Publish BrokerEnvelope | Consume string

fun broker_run ::
  "'w Broker \<Rightarrow> broker_call list \<Rightarrow> 'w \<Rightarrow> (string \<times> BrokerEnvelope) list \<times> 'w" where
  "broker_run B [] w = ([], w)"
| "broker_run B (Publish e # cs) w = broker_run B cs (snd (broker_publish B e w))"
| "broker_run B (Consume d # cs) w =
     (case broker_consume B d w of
        Some (Ok e, w') \<Rightarrow> (case broker_run B cs w' of (out, w'') \<Rightarrow> ((d, e) # out, w''))
      | Some (Err _, w') \<Rightarrow> broker_run B cs w'
      | None \<Rightarrow> broker_run B cs w)"

definition on_destination :: "string \<Rightarrow> (string \<times> 'e) list \<Rightarrow> 'e list" where
  "on_destination d xs = map snd (filter (\<lambda>(d', _). d' = d) xs)"

lemma on_destination_simps [simp]:
  "on_destination d [] = []"
  "on_destination d ((d', e) # xs) = (if d' = d then e # on_destination d xs else on_destination d xs)"
  by (simp_all add: on_destination_def)

fun published :: "broker_call list \<Rightarrow> (string \<times> BrokerEnvelope) list" where
  "published [] = []"
| "published (Publish e # cs) = (be_destination e, e) # published cs"
| "published (Consume d # cs) = published cs"

fun call_destination :: "broker_call \<Rightarrow> string" where
  "call_destination (Publish e) = be_destination e"
| "call_destination (Consume d) = d"

text \<open>\<open>queue w d\<close> is what waits at destination \<open>d\<close>; \<open>valid\<close> are the destinations in use.\<close>

locale broker =
  fixes B :: "'w Broker"
    and queue :: "'w \<Rightarrow> string \<Rightarrow> BrokerEnvelope list"
    and invar :: "'w \<Rightarrow> bool"
    and valid :: "string \<Rightarrow> bool"
  assumes publish_ok: "invar w \<Longrightarrow> valid (be_destination e) \<Longrightarrow> broker_publish B e w = (Ok (), w') \<Longrightarrow>
      queue w' = (queue w)(be_destination e := queue w (be_destination e) @ [e])"
    and publish_err: "invar w \<Longrightarrow> valid (be_destination e) \<Longrightarrow> broker_publish B e w = (Err x, w') \<Longrightarrow>
      queue w' = queue w
      \<or> queue w' = (queue w)(be_destination e := queue w (be_destination e) @ [e])"
    and consume_ok: "invar w \<Longrightarrow> valid d \<Longrightarrow> broker_consume B d w = Some (Ok e, w') \<Longrightarrow>
      queue w d = e # queue w' d \<and> (\<forall>d'. d' \<noteq> d \<longrightarrow> queue w' d' = queue w d')"
    and consume_err: "invar w \<Longrightarrow> valid d \<Longrightarrow> broker_consume B d w = Some (Err x, w') \<Longrightarrow>
      queue w' = queue w \<or> (\<exists>e. queue w d = e # queue w' d) \<and> (\<forall>d'. d' \<noteq> d \<longrightarrow> queue w' d' = queue w d')"
    and consume_waits: "invar w \<Longrightarrow> valid d \<Longrightarrow> broker_consume B d w = None \<Longrightarrow> queue w d = []"
    and invar_publish: "invar w \<Longrightarrow> valid (be_destination e) \<Longrightarrow> invar (snd (broker_publish B e w))"
    and invar_consume: "invar w \<Longrightarrow> valid d \<Longrightarrow> broker_consume B d w = Some (r, w') \<Longrightarrow> invar w'"
begin

lemma publish_queue:
  assumes "invar w" and "valid (be_destination e)"
  shows "queue (snd (broker_publish B e w)) = queue w
    \<or> queue (snd (broker_publish B e w)) = (queue w)(be_destination e := queue w (be_destination e) @ [e])"
proof -
  obtain r w' where "broker_publish B e w = (r, w')" by fastforce
  then show ?thesis
    using publish_ok [OF assms, of w'] publish_err [OF assms, of _ w'] by (cases r) auto
qed

lemma consume_subset:
  assumes "invar w" and "valid d" and "broker_consume B d w = Some (x, w')"
  shows "set (queue w' k) \<subseteq> set (queue w k)"
proof -
  have "queue w' = queue w \<or> (\<exists>e. queue w d = e # queue w' d) \<and> (\<forall>d'. d' \<noteq> d \<longrightarrow> queue w' d' = queue w d')"
    using consume_ok [OF assms(1,2), of _ w'] consume_err [OF assms(1,2), of _ w'] assms(3)
    by (cases x) blast+
  then show ?thesis by (cases "k = d") auto
qed

text \<open>What a destination delivers is a subsequence of what waited there and was then published.\<close>

lemma run_subseq:
  "invar w \<Longrightarrow> \<forall>c \<in> set cs. valid (call_destination c) \<Longrightarrow> broker_run B cs w = (out, w') \<Longrightarrow>
   subseq (on_destination d out @ queue w' d) (queue w d @ on_destination d (published cs))"
proof (induction cs arbitrary: w out)
  case Nil
  then show ?case by simp
next
  case (Cons c cs)
  show ?case
  proof (cases c)
    case (Publish e)
    let ?w = "snd (broker_publish B e w)"
    have "subseq (on_destination d out @ queue w' d) (queue ?w d @ on_destination d (published cs))"
      using Cons.IH [OF invar_publish [OF Cons.prems(1)], of e out] Cons.prems(2,3) Publish by simp
    moreover have "subseq (queue ?w d @ on_destination d (published cs))
        (queue w d @ on_destination d (published (c # cs)))"
      using publish_queue [OF Cons.prems(1), of e] Cons.prems(2) Publish by (auto intro: list_emb_append_mono)
    ultimately show ?thesis by (rule subseq_order.trans)
  next
    case (Consume d0)
    with Cons.prems(2) have v: "valid d0" "\<forall>c \<in> set cs. valid (call_destination c)" by simp_all
    show ?thesis
    proof (cases "broker_consume B d0 w")
      case None
      with Cons Consume show ?thesis by simp
    next
      case (Some rw)
      then obtain r w1 where c: "broker_consume B d0 w = Some (r, w1)" by (cases rw) auto
      note inv1 = invar_consume [OF Cons.prems(1) v(1) c]
      show ?thesis
      proof (cases r)
        case (Inl x)
        with Cons.prems(3) c Consume have "broker_run B cs w1 = (out, w')" by simp
        from Cons.IH [OF inv1 v(2) this]
        have "subseq (on_destination d out @ queue w' d) (queue w1 d @ on_destination d (published cs))" .
        moreover have "subseq (queue w1 d) (queue w d)"
          using consume_err [OF Cons.prems(1) v(1) c [unfolded Inl]] by (cases "d = d0") auto
        then have "subseq (queue w1 d @ on_destination d (published cs))
            (queue w d @ on_destination d (published cs))" by simp
        ultimately show ?thesis using Consume subseq_order.trans by fastforce
      next
        case (Inr e)
        with Cons.prems(3) c Consume obtain out1 where o: "broker_run B cs w1 = (out1, w')"
            "out = (d0, e) # out1" by (auto split: prod.splits)
        from Cons.IH [OF inv1 v(2) o(1)] consume_ok [OF Cons.prems(1) v(1) c [unfolded Inr]] Consume o(2)
        show ?thesis by (cases "d = d0") auto
      qed
    qed
  qed
qed

text \<open>A worker's destination delivers nothing that was published elsewhere.\<close>

lemma run_delivers_only:
  assumes "invar w" and "\<forall>c \<in> set cs. valid (call_destination c)"
    and "broker_run B cs w = (out, w')" and "(d, e) \<in> set out"
  shows "e \<in> set (queue w d) \<or> Publish e \<in> set cs \<and> be_destination e = d"
proof -
  have pub: "x \<in> set (on_destination d (published cs)) \<Longrightarrow> Publish x \<in> set cs \<and> be_destination x = d" for x
    by (induction cs rule: published.induct) (auto split: if_splits)
  have "e \<in> set (on_destination d out)" using assms(4) by (force simp: on_destination_def)
  then have "e \<in> set (queue w d @ on_destination d (published cs))"
    using list_emb_set [OF run_subseq [OF assms(1-3), of d], of e] by auto
  with pub show ?thesis by auto
qed

end

text \<open>A broker that never fails delivers every envelope exactly once, in order.\<close>

locale reliable_broker = broker +
  assumes publish_succeeds: "invar w \<Longrightarrow> valid (be_destination e) \<Longrightarrow> is_ok (fst (broker_publish B e w))"
    and consume_succeeds: "invar w \<Longrightarrow> valid d \<Longrightarrow> broker_consume B d w \<noteq> Some (Err x, w')"
begin

lemma run_exact:
  "invar w \<Longrightarrow> \<forall>c \<in> set cs. valid (call_destination c) \<Longrightarrow> broker_run B cs w = (out, w') \<Longrightarrow>
   on_destination d out @ queue w' d = queue w d @ on_destination d (published cs)"
proof (induction cs arbitrary: w out)
  case Nil
  then show ?case by simp
next
  case (Cons c cs)
  show ?case
  proof (cases c)
    case (Publish e)
    with Cons.prems(2) have v: "valid (be_destination e)" by simp
    have "fst (broker_publish B e w) = Ok ()"
      using publish_succeeds [OF Cons.prems(1) v] by (cases "fst (broker_publish B e w)") auto
    then obtain w1 where p: "broker_publish B e w = (Ok (), w1)" by (cases "broker_publish B e w") auto
    have "invar w1" using invar_publish [OF Cons.prems(1) v] p by simp
    from Cons.IH [OF this, of out] Cons.prems(2,3) publish_ok [OF Cons.prems(1) v p] Publish p
    show ?thesis by (cases "d = be_destination e") auto
  next
    case (Consume d0)
    with Cons.prems(2) have v: "valid d0" "\<forall>c \<in> set cs. valid (call_destination c)" by simp_all
    show ?thesis
    proof (cases "broker_consume B d0 w")
      case None
      with Cons Consume show ?thesis by simp
    next
      case (Some rw)
      then obtain e w1 where c: "broker_consume B d0 w = Some (Ok e, w1)"
        using consume_succeeds [OF Cons.prems(1) v(1)] by (cases rw; cases "fst rw") auto
      with Cons.prems(3) Consume obtain out1 where o: "broker_run B cs w1 = (out1, w')"
          "out = (d0, e) # out1" by (auto split: prod.splits)
      from Cons.IH [OF invar_consume [OF Cons.prems(1) v(1) c] v(2) o(1)]
        consume_ok [OF Cons.prems(1) v(1) c] Consume o(2)
      show ?thesis by (cases "d = d0") auto
    qed
  qed
qed

end

section \<open>The Redis broker satisfies the contract\<close>

definition envelopes_of :: "wire \<Rightarrow> rvalue option \<Rightarrow> BrokerEnvelope list option" where
  "envelopes_of W x =
     (case as_list x of None \<Rightarrow> None
      | Some l \<Rightarrow> those (map (\<lambda>b. case decode_envelope W b of Ok e \<Rightarrow> Some e | Err _ \<Rightarrow> None) l))"

definition broker_queue :: "wire \<Rightarrow> RedisBroker \<Rightarrow> (string \<Rightarrow> bool) \<Rightarrow> keyspace \<Rightarrow> string \<Rightarrow> BrokerEnvelope list" where
  "broker_queue W c D v d =
     (if D d then case envelopes_of W (ks_value v (broker_key c d)) of Some es \<Rightarrow> es | None \<Rightarrow> [] else [])"

text \<open>Every destination in use is absent or a list of encoded envelopes, and none expires.\<close>

definition broker_wf :: "wire \<Rightarrow> RedisBroker \<Rightarrow> (string \<Rightarrow> bool) \<Rightarrow> keyspace \<Rightarrow> bool" where
  "broker_wf W c D v \<longleftrightarrow> (\<forall>d. D d \<longrightarrow> ks_deadline v (broker_key c d) = None
     \<and> (\<exists>es. as_list (ks_value v (broker_key c d)) = Some (map (encode_envelope W) es)))"

lemma broker_key_inj [simp]: "broker_key c d = broker_key c d' \<longleftrightarrow> d = d'"
  by (simp add: broker_key_def)

lemma those_decode:
  "wire_ok W \<Longrightarrow> those (map (\<lambda>b. case decode_envelope W b of Ok e \<Rightarrow> Some e | Err _ \<Rightarrow> None)
     (map (encode_envelope W) es)) = Some es"
  by (induction es) (simp_all add: wire_okD)

lemma broker_queue_list:
  assumes "wire_ok W" and "D d" and "as_list (ks_value v (broker_key c d)) = Some (map (encode_envelope W) es)"
  shows "broker_queue W c D v d = es"
  using assms(2,3) those_decode [OF assms(1), of es] by (simp add: broker_queue_def envelopes_of_def)

lemma broker_wf_list:
  assumes "wire_ok W" and "broker_wf W c D v" and "D d"
  shows "as_list (ks_value v (broker_key c d)) = Some (map (encode_envelope W) (broker_queue W c D v d))"
    and "ks_deadline v (broker_key c d) = None"
proof -
  from assms(2,3) obtain es where es:
      "as_list (ks_value v (broker_key c d)) = Some (map (encode_envelope W) es)"
      "ks_deadline v (broker_key c d) = None"
    unfolding broker_wf_def by blast
  from es broker_queue_list [where D = D and d = d, OF assms(1,3) es(1)]
  show "as_list (ks_value v (broker_key c d)) = Some (map (encode_envelope W) (broker_queue W c D v d))"
    and "ks_deadline v (broker_key c d) = None" by simp_all
qed

text \<open>A keyspace that agrees on the keys of the destinations holds the same queues.\<close>

lemma broker_frame:
  assumes "\<And>d. D d \<Longrightarrow> ks_value v' (broker_key c d) = ks_value v (broker_key c d)"
    and "\<And>d. D d \<Longrightarrow> ks_deadline v' (broker_key c d) = ks_deadline v (broker_key c d)"
  shows "broker_wf W c D v' = broker_wf W c D v" "broker_queue W c D v' = broker_queue W c D v"
  using assms by (auto simp: broker_wf_def broker_queue_def fun_eq_iff)

lemma broker_later [simp]:
  assumes "broker_wf W c D v"
  shows "broker_wf W c D (later t v)" "broker_queue W c D (later t v) = broker_queue W c D v"
proof -
  have "D d \<Longrightarrow> ks_value (later t v) (broker_key c d) = ks_value v (broker_key c d)"
    "D d \<Longrightarrow> ks_deadline (later t v) (broker_key c d) = ks_deadline v (broker_key c d)" for d
    using assms by (auto simp: broker_wf_def)
  from broker_frame [OF this] assms
  show "broker_wf W c D (later t v)" "broker_queue W c D (later t v) = broker_queue W c D v" by auto
qed

text \<open>A keyspace in which one destination became the list of \<open>es\<close>.\<close>

lemma broker_put:
  assumes ok: "wire_ok W" and wf: "broker_wf W c D v" and d: "D d"
    and l: "as_list (ks_value v' (broker_key c d)) = Some (map (encode_envelope W) es)"
    and dl: "ks_deadline v' (broker_key c d) = None"
    and same: "\<And>k. k \<noteq> broker_key c d \<Longrightarrow> ks_value v' k = ks_value v k \<and> ks_deadline v' k = ks_deadline v k"
  shows "broker_wf W c D v'" "broker_queue W c D v' = (broker_queue W c D v)(d := es)"
proof -
  have "D d' \<Longrightarrow> ks_deadline v' (broker_key c d') = None
      \<and> (\<exists>es. as_list (ks_value v' (broker_key c d')) = Some (map (encode_envelope W) es))" for d'
    using broker_wf_list [OF ok wf] same l dl by (cases "d' = d") auto
  then show wf': "broker_wf W c D v'" unfolding broker_wf_def by blast
  show "broker_queue W c D v' = (broker_queue W c D v)(d := es)"
  proof
    fix d'
    show "broker_queue W c D v' d' = ((broker_queue W c D v)(d := es)) d'"
    proof (cases "d' = d")
      case True
      with broker_queue_list [where D = D and d = d, OF ok d l] show ?thesis by simp
    next
      case False
      with same show ?thesis by (simp add: broker_queue_def)
    qed
  qed
qed

section \<open>The operations\<close>

context redis_deployment
begin

abbreviation queue_in :: "RedisBroker \<Rightarrow> (string \<Rightarrow> bool) \<Rightarrow> 'd \<Rightarrow> string \<Rightarrow> BrokerEnvelope list" where
  "queue_in c D s \<equiv> broker_queue W c D (rd_view R s)"

abbreviation bwf_in :: "RedisBroker \<Rightarrow> (string \<Rightarrow> bool) \<Rightarrow> 'd \<Rightarrow> bool" where
  "bwf_in c D s \<equiv> broker_wf W c D (rd_view R s)"

lemma connect_queue:
  assumes "bwf_in c D s"
  shows "bwf_in c D (snd (connect R s))" "queue_in c D (snd (connect R s)) = queue_in c D s"
  using connect_view [OF redis, of s] assms by auto

lemma rpush_queue:
  assumes wf: "bwf_in c D s" and d: "D (be_destination e)"
    and run: "rd_rpush R (broker_key c (be_destination e)) (encode_envelope W e) s = (res, s')"
  shows "is_ok res" "bwf_in c D s'"
    "queue_in c D s' = (queue_in c D s)(be_destination e := queue_in c D s (be_destination e) @ [e])"
proof -
  let ?d = "be_destination e"
  note l = broker_wf_list [OF wire wf d]
  obtain s1 where 1: "rd_rpush R (broker_key c ?d) (encode_envelope W e) s
      = (Ok (Suc (length (map (encode_envelope W) (queue_in c D s ?d)))), s1)"
      "rd_view R s1 = rpush_effect (broker_key c ?d) (encode_envelope W e) (rd_view R s)"
    by (rule rpush_reply [OF redis l(1)])
  with run show "is_ok res" by auto
  have v: "rd_view R s' = rpush_effect (broker_key c ?d) (encode_envelope W e) (rd_view R s)"
    using 1 run by simp
  have "as_list (ks_value (rd_view R s') (broker_key c ?d))
      = Some (map (encode_envelope W) (queue_in c D s ?d @ [e]))"
    using l(1) v by (auto simp: rpush_effect_def as_list_def split: option.splits rvalue.splits)
  from broker_put [OF wire wf, where d = ?d, OF d this]
  show "bwf_in c D s'" "queue_in c D s' = (queue_in c D s)(?d := queue_in c D s ?d @ [e])"
    using l(2) v by (simp_all add: rpush_effect_def)
qed

lemma lpop_queue:
  assumes wf: "bwf_in c D s" and d: "D d" and run: "rd_lpop R (broker_key c d) s = (res, s')"
  shows "bwf_in c D s'"
    and "case queue_in c D s d of
      [] \<Rightarrow> res = Ok None \<and> queue_in c D s' = queue_in c D s
    | e # es \<Rightarrow> res = Ok (Some (encode_envelope W e)) \<and> queue_in c D s' = (queue_in c D s)(d := es)"
proof -
  note l = broker_wf_list [OF wire wf d]
  obtain s1 where 1: "rd_lpop R (broker_key c d) s
      = (Ok (case map (encode_envelope W) (queue_in c D s d) of [] \<Rightarrow> None | x # _ \<Rightarrow> Some x), s1)"
      "rd_view R s1 = (if map (encode_envelope W) (queue_in c D s d) = [] then rd_view R s
        else lpop_effect (broker_key c d) (rd_view R s))"
    by (rule lpop_reply [OF redis l(1)])
  have "bwf_in c D s' \<and> (case queue_in c D s d of
      [] \<Rightarrow> res = Ok None \<and> queue_in c D s' = queue_in c D s
    | e # es \<Rightarrow> res = Ok (Some (encode_envelope W e)) \<and> queue_in c D s' = (queue_in c D s)(d := es))"
  proof (cases "queue_in c D s d")
    case Nil
    with 1 run wf show ?thesis by simp
  next
    case (Cons e es)
    with 1 run have res: "res = Ok (Some (encode_envelope W e))"
        "rd_view R s' = lpop_effect (broker_key c d) (rd_view R s)" by simp_all
    have "ks_value (rd_view R s) (broker_key c d) = Some (RList (encode_envelope W e # map (encode_envelope W) es))"
      using l(1) Cons by (auto simp: as_list_def split: option.splits rvalue.splits)
    then have "as_list (ks_value (rd_view R s') (broker_key c d)) = Some (map (encode_envelope W) es)"
        "ks_deadline (rd_view R s') (broker_key c d) = None"
        "\<And>k. k \<noteq> broker_key c d \<Longrightarrow> ks_value (rd_view R s') k = ks_value (rd_view R s) k
           \<and> ks_deadline (rd_view R s') k = ks_deadline (rd_view R s) k"
      using l(2) res(2) by (auto simp: lpop_effect_def split: list.splits)
    from broker_put [OF wire wf, where d = d, OF d this] Cons res(1) show ?thesis by simp
  qed
  then show "bwf_in c D s'" and "case queue_in c D s d of
      [] \<Rightarrow> res = Ok None \<and> queue_in c D s' = queue_in c D s
    | e # es \<Rightarrow> res = Ok (Some (encode_envelope W e)) \<and> queue_in c D s' = (queue_in c D s)(d := es)"
    by blast+
qed

lemma redis_publish_spec:
  assumes wf: "bwf_in c D s" and d: "D (be_destination e)" and run: "redis_publish R W c e s = (res, s')"
  shows "bwf_in c D s' \<and>
    (queue_in c D s' = (queue_in c D s)(be_destination e := queue_in c D s (be_destination e) @ [e])
     \<or> \<not> is_ok res \<and> queue_in c D s' = queue_in c D s)"
proof -
  obtain cr s1 where conn: "connect R s = (cr, s1)" by fastforce
  note s1 = connect_queue [OF wf, unfolded conn snd_conv]
  let ?cmd = "rd_rpush R (broker_key c (be_destination e)) (encode_envelope W e)"
  show ?thesis
  proof (cases cr)
    case (Inl x)
    with conn run s1 show ?thesis by (auto simp: redis_publish_def)
  next
    case (Inr u)
    obtain rr s2 where req: "request R ?cmd s1 = (rr, s2)" by fastforce
    have out: "s' = s2" "is_ok res = is_ok rr"
      using run conn Inr req by (cases rr; auto simp add: redis_publish_def)+
    from request_cases [OF redis req] show ?thesis
    proof cases
      case (1 t sa)
      then have "bwf_in c D sa" "queue_in c D sa = queue_in c D s" using s1 by simp_all
      with rpush_queue [OF this(1) d 1(3)] out show ?thesis by simp
    next
      case (2 t x)
      with s1 out show ?thesis by simp
    next
      case (3 t sa x)
      then have sa: "bwf_in c D sa" "queue_in c D sa = queue_in c D s" using s1 by simp_all
      obtain r3 s3 where run3: "?cmd sa = (r3, s3)" by fastforce
      from rpush_queue [OF sa(1) d run3] 3 sa out run3 show ?thesis by simp
    qed
  qed
qed

lemma redis_consume_spec:
  assumes wf: "bwf_in c D s" and d: "D d"
  shows "case redis_consume R W c d s of
      None \<Rightarrow> queue_in c D s d = []
    | Some (Ok e, s') \<Rightarrow> bwf_in c D s' \<and> queue_in c D s d = e # queue_in c D s' d
        \<and> (\<forall>d'. d' \<noteq> d \<longrightarrow> queue_in c D s' d' = queue_in c D s d')
    | Some (Err x, s') \<Rightarrow> bwf_in c D s' \<and> (queue_in c D s' = queue_in c D s
        \<or> (\<exists>e. queue_in c D s d = e # queue_in c D s' d) \<and> (\<forall>d'. d' \<noteq> d \<longrightarrow> queue_in c D s' d' = queue_in c D s d'))"
proof -
  obtain cr s1 where conn: "connect R s = (cr, s1)" by fastforce
  note s1 = connect_queue [OF wf, unfolded conn snd_conv]
  let ?cmd = "rd_lpop R (broker_key c d)"
  show ?thesis
  proof (cases cr)
    case (Inl x)
    with conn s1 show ?thesis by (auto simp: redis_consume_def)
  next
    case (Inr u)
    obtain rr s2 where req: "request R ?cmd s1 = (rr, s2)" by fastforce
    from request_cases [OF redis req] show ?thesis
    proof cases
      case (1 t sa)
      then have "bwf_in c D sa" "queue_in c D sa = queue_in c D s" using s1 by simp_all
      with lpop_queue [OF this(1) d 1(3)] conn Inr req show ?thesis
        by (cases "queue_in c D s d") (auto simp: redis_consume_def blpop_def wire_okD [OF wire])
    next
      case (2 t x)
      with s1 conn Inr req show ?thesis by (simp add: redis_consume_def blpop_def)
    next
      case (3 t sa x)
      then have sa: "bwf_in c D sa" "queue_in c D sa = queue_in c D s" using s1 by simp_all
      obtain r3 s3 where run3: "?cmd sa = (r3, s3)" by fastforce
      from lpop_queue [OF sa(1) d run3] 3 sa conn Inr req run3 show ?thesis
        by (cases "queue_in c D s d") (auto simp: redis_consume_def blpop_def)
    qed
  qed
qed

end

sublocale redis_deployment \<subseteq> brk: broker "redis_broker R W c"
    "\<lambda>s. broker_queue W c D (rd_view R s)" "\<lambda>s. broker_wf W c D (rd_view R s)" D
  for c D
proof (unfold_locales, unfold redis_broker_def Broker.select_convs, goal_cases)
  case (1 w e w')
  then show ?case using redis_publish_spec [of c D w e "Ok ()" w'] by simp
next
  case (2 w e x w')
  then show ?case using redis_publish_spec [of c D w e "Err x" w'] by auto
next
  case (3 w d e w')
  then show ?case using redis_consume_spec [of c D w d] by simp
next
  case (4 w d x w')
  then show ?case using redis_consume_spec [of c D w d] by simp
next
  case (5 w d)
  then show ?case using redis_consume_spec [of c D w d] by simp
next
  case (6 w e)
  then show ?case using redis_publish_spec [of c D w e "fst (redis_publish R W c e w)" "snd (redis_publish R W c e w)"]
    by simp
next
  case (7 w d r w')
  then show ?case using redis_consume_spec [of c D w d] by (auto split: sum.splits)
qed

context reliable_deployment
begin

lemma reliable_publish:
  assumes "bwf_in c D s" and "D (be_destination e)"
  shows "is_ok (fst (redis_publish R W c e s))"
proof -
  obtain t s1 where 1: "rd_view R s1 = later t (rd_view R s)" "connect R s = (Ok (), s1)"
    using reliable_connect [OF redis reliable] by blast
  let ?cmd = "rd_rpush R (broker_key c (be_destination e)) (encode_envelope W e)"
  obtain t' s2 where 2: "rd_view R s2 = later t' (rd_view R s1)" "request R ?cmd s1 = ?cmd s2"
    using reliable_request [OF redis reliable] by blast
  have "bwf_in c D s2" using 1(1) 2(1) assms(1) by simp
  from rpush_queue(1) [OF this assms(2) prod.collapse [symmetric]] obtain n s3 where "?cmd s2 = (Ok n, s3)"
    by (cases "?cmd s2"; cases "fst (?cmd s2)") auto
  with 1 2 show ?thesis by (simp add: redis_publish_def)
qed

lemma reliable_consume:
  assumes wf: "bwf_in c D s" and d: "D d"
  shows "redis_consume R W c d s \<noteq> Some (Err x, s')"
proof -
  obtain t s1 where 1: "rd_view R s1 = later t (rd_view R s)" "connect R s = (Ok (), s1)"
    using reliable_connect [OF redis reliable] by blast
  let ?cmd = "rd_lpop R (broker_key c d)"
  obtain t' s2 where 2: "rd_view R s2 = later t' (rd_view R s1)" "request R ?cmd s1 = ?cmd s2"
    using reliable_request [OF redis reliable] by blast
  have "bwf_in c D s2" using 1(1) 2(1) wf by simp
  obtain r3 s3 where run3: "?cmd s2 = (r3, s3)" by fastforce
  from lpop_queue(2) [OF \<open>bwf_in c D s2\<close> d run3] 1 2 run3 show ?thesis
    by (cases "queue_in c D s2 d") (auto simp: redis_consume_def blpop_def wire_okD [OF wire])
qed

end

sublocale reliable_deployment \<subseteq> rbrk: reliable_broker "redis_broker R W c"
    "\<lambda>s. broker_queue W c D (rd_view R s)" "\<lambda>s. broker_wf W c D (rd_view R s)" D
  for c D
  by unfold_locales (simp_all add: redis_broker_def reliable_publish reliable_consume)

context redis_deployment
begin

lemmas redis_run_subseq = brk.run_subseq

end

context reliable_deployment
begin

lemmas redis_run_exact = rbrk.run_exact

end

section \<open>Properties\<close>

definition sample_envelope :: "string \<Rightarrow> string \<Rightarrow> BrokerEnvelope" where
  "sample_envelope m d = \<lparr>be_message_id = m, be_message_kind = ''kind'', be_schema_version = ''v1'',
     be_source = ''test'', be_destination = d, be_created_at = None, be_expires_at = None,
     be_payload = [], be_content_type = None, be_correlation_id = Some ''j1'', be_causation_id = None,
     be_trace_context = None, be_routing_headers = None\<rparr>"

definition sample_broker :: RedisBroker where
  "sample_broker = \<lparr>rb_key_prefix = ''threadweave:broker''\<rparr>"

lemma broker_empty: "broker_wf W c D empty_keyspace" "wire_ok W \<Longrightarrow> broker_queue W c D empty_keyspace d = []"
  by (simp_all add: broker_wf_def empty_keyspace_def broker_queue_def envelopes_of_def)

text \<open>C14. The Redis broker delivers in order and at most once: whatever requests or replies are lost,
  what a destination has delivered and still holds is a subsequence of what waited there followed by
  what was published to it since.\<close>

theorem redis_broker_in_order:
  assumes "redis_ok R" and "wire_ok W" and "broker_wf W c (\<lambda>_. True) (rd_view R s)"
    and "broker_run (redis_broker R W c) cs s = (out, s')"
  shows "subseq (on_destination d out @ broker_queue W c (\<lambda>_. True) (rd_view R s') d)
    (broker_queue W c (\<lambda>_. True) (rd_view R s) d @ on_destination d (published cs))"
  using redis_deployment.redis_run_subseq [OF redis_deployment.intro [OF assms(1,2)] assms(3) _ assms(4)]
  by simp

theorem redis_broker_in_order_witness:
  "subseq (on_destination ''tasks'' (fst (broker_run (redis_broker reference_redis unary_wire sample_broker)
       [Publish (sample_envelope ''m1'' ''tasks''), Publish (sample_envelope ''m2'' ''tasks''), Consume ''tasks'']
       \<lparr>ref_view = empty_keyspace, ref_future = [(1, Delivered), (1, Lost ''timeout'')]\<rparr>)))
     [sample_envelope ''m1'' ''tasks'', sample_envelope ''m2'' ''tasks'']"
proof -
  let ?s = "\<lparr>ref_view = empty_keyspace, ref_future = [(1, Delivered), (1, Lost ''timeout'')]\<rparr>"
  have "broker_wf unary_wire sample_broker (\<lambda>_. True) (rd_view reference_redis ?s)"
    by (simp add: reference_redis_def broker_empty)
  note ordered = redis_broker_in_order [OF reference_redis_ok unary_wire_ok this]
  let ?cs = "[Publish (sample_envelope ''m1'' ''tasks''), Publish (sample_envelope ''m2'' ''tasks''), Consume ''tasks'']"
  obtain out s' where run: "broker_run (redis_broker reference_redis unary_wire sample_broker) ?cs ?s = (out, s')"
    by fastforce
  have "published ?cs = [(''tasks'', sample_envelope ''m1'' ''tasks''), (''tasks'', sample_envelope ''m2'' ''tasks'')]"
    "rd_view reference_redis ?s = empty_keyspace"
    by (simp_all add: sample_envelope_def reference_redis_def)
  with ordered [OF run, of "''tasks''"]
  have "subseq (on_destination ''tasks'' out @ broker_queue unary_wire sample_broker (\<lambda>_. True)
      (rd_view reference_redis s') ''tasks'') [sample_envelope ''m1'' ''tasks'', sample_envelope ''m2'' ''tasks'']"
    by (simp add: broker_empty unary_wire_ok)
  then have "subseq (on_destination ''tasks'' out) [sample_envelope ''m1'' ''tasks'', sample_envelope ''m2'' ''tasks'']"
    by (rule subseq_order.trans [OF subseq_rev_drop_many [OF subseq_order.refl]])
  then show ?thesis unfolding run by simp
qed

text \<open>Over a connection that loses nothing, every published envelope is delivered exactly once and
  in order: what a destination has delivered, followed by what it still holds, is what waited there
  followed by what was published to it.\<close>

lemma redis_broker_exactly_once:
  assumes "redis_ok R" and "wire_ok W" and "reliable R" and "broker_wf W c (\<lambda>_. True) (rd_view R s)"
    and "broker_run (redis_broker R W c) cs s = (out, s')"
  shows "on_destination d out @ broker_queue W c (\<lambda>_. True) (rd_view R s') d
    = broker_queue W c (\<lambda>_. True) (rd_view R s) d @ on_destination d (published cs)"
proof -
  have "reliable_deployment R W"
    by (intro reliable_deployment.intro redis_deployment.intro reliable_deployment_axioms.intro assms(1-3))
  from reliable_deployment.redis_run_exact [OF this assms(4) _ assms(5)] show ?thesis by simp
qed

lemma redis_broker_exactly_once_example:
  "case broker_run (redis_broker calm_redis unary_wire sample_broker)
     [Publish (sample_envelope ''m1'' ''tasks''), Consume ''tasks'', Publish (sample_envelope ''m2'' ''tasks'')]
     \<lparr>ref_view = empty_keyspace, ref_future = []\<rparr> of (out, s') \<Rightarrow>
   on_destination ''tasks'' out @ broker_queue unary_wire sample_broker (\<lambda>_. True) (rd_view calm_redis s') ''tasks''
     = [sample_envelope ''m1'' ''tasks'', sample_envelope ''m2'' ''tasks'']"
proof -
  let ?s = "\<lparr>ref_view = empty_keyspace, ref_future = []\<rparr>"
  let ?cs = "[Publish (sample_envelope ''m1'' ''tasks''), Consume ''tasks'', Publish (sample_envelope ''m2'' ''tasks'')]"
  have view: "rd_view calm_redis ?s = empty_keyspace" by (simp add: calm_redis_fields reference_redis_def)
  have "broker_wf unary_wire sample_broker (\<lambda>_. True) (rd_view calm_redis ?s)"
    by (simp add: view broker_empty)
  note once = redis_broker_exactly_once [OF calm_redis_ok unary_wire_ok calm_redis_reliable this]
  obtain out s' where run: "broker_run (redis_broker calm_redis unary_wire sample_broker) ?cs ?s = (out, s')"
    by fastforce
  have "published ?cs = [(''tasks'', sample_envelope ''m1'' ''tasks''), (''tasks'', sample_envelope ''m2'' ''tasks'')]"
    by (simp add: sample_envelope_def)
  with once [OF run, of "''tasks''"] run show ?thesis
    unfolding run by (simp add: view broker_empty unary_wire_ok)
qed

end
