(* ===== verification/Worker_Registry.thy ===== *)
theory Worker_Registry
  imports Redis_Service
begin

text \<open>
  \<^verbatim>\<open>src/src/worker_registry.rs\<close>: the traits \<open>WorkerDirectory\<close> and \<open>WorkerRegistry\<close>, the registry in memory,
  the Redis registry with its Lua scripts and its \<open>SCAN\<close> loop, and the identifier that carries a worker
  and its generation in a heartbeat. Readings of the clocks are arguments; an \<open>Instant\<close> is unbounded, so
  the overflow panic of \<open>Instant + Duration\<close>, centuries away, is outside the model.
\<close>

section \<open>The traits\<close>

datatype RegistrationOutcome = New | Idempotent | Replaced

datatype HeartbeatError = UnknownWorker | StaleGeneration | RegistryUnavailable

type_synonym WorkerRegistryError = string
type_synonym WorkerDirectoryError = string

text \<open>The readings of one call: the first of the monotonic clock, a second one taken for the expiry, and
  the wall clock.\<close>

record clock =
  cl_now :: instant
  cl_then :: instant
  cl_wall :: system_time

record 'w WorkerDirectory =
  dir_available_workers :: "clock \<Rightarrow> 'w \<Rightarrow> ((WorkerDirectoryError + string list) \<times> 'w) option"

record 'w WorkerRegistry = "'w WorkerDirectory" +
  reg_register :: "clock \<Rightarrow> WorkerRegistration \<Rightarrow> 'w \<Rightarrow> (WorkerRegistryError + RegistrationOutcome) \<times> 'w"
  reg_heartbeat :: "clock \<Rightarrow> string \<Rightarrow> string \<Rightarrow> 'w \<Rightarrow> (HeartbeatError + unit) \<times> 'w"

section \<open>The registry in memory\<close>

record RegisteredWorker =
  rw_registration :: WorkerRegistration
  rw_registered_at :: system_time
  rw_last_heartbeat_at :: "system_time option"

record MemoryEntry =
  me_worker :: RegisteredWorker
  me_expires_at :: instant

record MemoryWorkerRegistry =
  mwr_workers :: "(string, MemoryEntry) fmap"
  mwr_poisoned :: bool
  mwr_membership_ttl :: duration

definition memory_registry_new :: "duration \<Rightarrow> panic + MemoryWorkerRegistry" where
  "memory_registry_new ttl =
     (if ttl = 0 then Err (Panic ''worker membership TTL must be positive'')
      else Ok \<lparr>mwr_workers = fmempty, mwr_poisoned = False, mwr_membership_ttl = ttl\<rparr>)"

text \<open>\<open>MemoryWorkerRegistry::default()\<close>: 30 seconds.\<close>
definition memory_registry_default :: "panic + MemoryWorkerRegistry" where
  "memory_registry_default = memory_registry_new (30 * 10 ^ 9)"

definition expiry :: "clock \<Rightarrow> MemoryWorkerRegistry \<Rightarrow> instant" where
  "expiry clk m = cl_then clk + mwr_membership_ttl m"

text \<open>\<open>get(..).filter(|entry| entry.expires_at > now)\<close>\<close>
definition live_entry :: "instant \<Rightarrow> string \<Rightarrow> MemoryWorkerRegistry \<Rightarrow> MemoryEntry option" where
  "live_entry now i m =
     (case fmlookup (mwr_workers m) i of
        None \<Rightarrow> None
      | Some e \<Rightarrow> if me_expires_at e > now then Some e else None)"

definition put_entry :: "string \<Rightarrow> MemoryEntry \<Rightarrow> MemoryWorkerRegistry \<Rightarrow> MemoryWorkerRegistry" where
  "put_entry i e m = m\<lparr>mwr_workers := fmupd i e (mwr_workers m)\<rparr>"

definition new_entry :: "clock \<Rightarrow> WorkerRegistration \<Rightarrow> MemoryWorkerRegistry \<Rightarrow> MemoryEntry" where
  "new_entry clk r m =
     \<lparr>me_worker = \<lparr>rw_registration = r, rw_registered_at = cl_wall clk, rw_last_heartbeat_at = None\<rparr>,
      me_expires_at = expiry clk m\<rparr>"

definition memory_register ::
  "clock \<Rightarrow> WorkerRegistration \<Rightarrow> MemoryWorkerRegistry
   \<Rightarrow> (WorkerRegistryError + RegistrationOutcome) \<times> MemoryWorkerRegistry" where
  "memory_register clk r m =
     (if mwr_poisoned m then (Err ''worker registry lock is poisoned'', m)
      else
        (case live_entry (cl_now clk) (wr_worker_id r) m of
           None \<Rightarrow> (Ok New, put_entry (wr_worker_id r) (new_entry clk r m) m)
         | Some e \<Rightarrow>
             if wr_generation (rw_registration (me_worker e)) = wr_generation r then
               (Ok Idempotent, put_entry (wr_worker_id r) (e\<lparr>me_expires_at := expiry clk m\<rparr>) m)
             else (Ok Replaced, put_entry (wr_worker_id r) (new_entry clk r m) m)))"

definition memory_heartbeat ::
  "clock \<Rightarrow> string \<Rightarrow> string \<Rightarrow> MemoryWorkerRegistry \<Rightarrow> (HeartbeatError + unit) \<times> MemoryWorkerRegistry" where
  "memory_heartbeat clk worker_id generation m =
     (if mwr_poisoned m then (Err RegistryUnavailable, m)
      else
        (case live_entry (cl_now clk) worker_id m of
           None \<Rightarrow> (Err UnknownWorker, m)
         | Some e \<Rightarrow>
             if wr_generation (rw_registration (me_worker e)) \<noteq> generation then (Err StaleGeneration, m)
             else
               (Ok (), put_entry worker_id
                 (e\<lparr>me_worker := (me_worker e)\<lparr>rw_last_heartbeat_at := Some (cl_wall clk)\<rparr>,
                    me_expires_at := expiry clk m\<rparr>) m)))"

text \<open>The keys are collected in the order of the map and then sorted, so their order does not matter.\<close>

definition memory_available_workers ::
  "clock \<Rightarrow> MemoryWorkerRegistry \<Rightarrow> (WorkerDirectoryError + string list) \<times> MemoryWorkerRegistry" where
  "memory_available_workers clk m =
     (if mwr_poisoned m then (Err ''worker registry lock is poisoned'', m)
      else
        let workers = fmfilter (\<lambda>i. live_entry (cl_now clk) i m \<noteq> None) (mwr_workers m) in
        (Ok (sorted_list_of_fset (fmdom workers)), m\<lparr>mwr_workers := workers\<rparr>))"

definition memory_worker_registry :: "MemoryWorkerRegistry WorkerRegistry" where
  "memory_worker_registry =
     \<lparr>dir_available_workers = (\<lambda>clk m. Some (memory_available_workers clk m)),
      reg_register = memory_register, reg_heartbeat = memory_heartbeat\<rparr>"

section \<open>The Redis registry\<close>

record RedisWorkerRegistry =
  rwg_key_prefix :: string
  rwg_membership_ttl :: duration

definition redis_registry_new ::
  "(string \<Rightarrow> string + unit) \<Rightarrow> string \<Rightarrow> string \<Rightarrow> duration \<Rightarrow> WorkerRegistryError + RedisWorkerRegistry" where
  "redis_registry_new open_client url key_prefix ttl =
     (if ttl = 0 then Err ''worker membership TTL must be positive''
      else
        (case open_client url of
           Err e \<Rightarrow> Err (''invalid Redis URL: '' @ e)
         | Ok _ \<Rightarrow> Ok \<lparr>rwg_key_prefix = trim_end_matches (CHR '':'') key_prefix,
                       rwg_membership_ttl = ttl\<rparr>))"

definition worker_key :: "RedisWorkerRegistry \<Rightarrow> string \<Rightarrow> string" where
  "worker_key c worker_id = rwg_key_prefix c @ '':worker:'' @ worker_id"

text \<open>Milliseconds, saturating at \<open>u64::MAX\<close>.\<close>
definition ttl_millis :: "RedisWorkerRegistry \<Rightarrow> nat" where
  "ttl_millis c = min (rwg_membership_ttl c div 1000000) (2 ^ 64 - 1)"

definition registry_unix_millis :: "system_time \<Rightarrow> nat" where
  "registry_unix_millis t = min (nat (t div 1000000)) (2 ^ 64 - 1)"

text \<open>The Lua script of \<open>register\<close>. A script that fails keeps the effect of the commands before.\<close>

definition register_script ::
  "'d redis \<Rightarrow> string \<Rightarrow> string \<Rightarrow> bytes \<Rightarrow> string \<Rightarrow> nat \<Rightarrow> 'd \<Rightarrow> (string + int) \<times> 'd" where
  "register_script R key generation registration now_ms ttl s =
     try_call (\<lambda>e. e) (rd_hget R key ''generation'' s) (\<lambda>old_generation s.
       if old_generation = Some generation then
         try_call (\<lambda>e. e) (rd_pexpire R key ttl s) (\<lambda>_ s. (Ok 1, s))
       else
         try_call (\<lambda>e. e)
           (rd_hset R key [(''generation'', generation), (''registration'', registration),
              (''registered_at_ms'', now_ms), (''last_heartbeat_at_ms'', '''')] s) (\<lambda>_ s.
         try_call (\<lambda>e. e) (rd_pexpire R key ttl s) (\<lambda>_ s.
           (Ok (if old_generation \<noteq> None then 2 else 0), s))))"

definition redis_register ::
  "'d redis \<Rightarrow> wire \<Rightarrow> RedisWorkerRegistry \<Rightarrow> clock \<Rightarrow> WorkerRegistration \<Rightarrow> 'd
   \<Rightarrow> (WorkerRegistryError + RegistrationOutcome) \<times> 'd" where
  "redis_register R W c clk r s =
     try_call (\<lambda>e. ''cannot connect to Redis: '' @ e) (connect R s) (\<lambda>_ s.
       try_call (\<lambda>e. ''cannot register worker: '' @ e)
         (request R (register_script R (worker_key c (wr_worker_id r)) (wr_generation r)
            (encode_registration W r) (show_nat (registry_unix_millis (cl_wall clk))) (ttl_millis c)) s)
         (\<lambda>result s.
           (if result = 0 then Ok New
            else if result = 1 then Ok Idempotent
            else if result = 2 then Ok Replaced
            else Err ''invalid Redis registration response'', s)))"

text \<open>The Lua script of \<open>heartbeat\<close>.\<close>

definition heartbeat_script ::
  "'d redis \<Rightarrow> string \<Rightarrow> string \<Rightarrow> string \<Rightarrow> nat \<Rightarrow> 'd \<Rightarrow> (string + int) \<times> 'd" where
  "heartbeat_script R key generation now_ms ttl s =
     try_call (\<lambda>e. e) (rd_hget R key ''generation'' s) (\<lambda>old_generation s.
       if old_generation = None then (Ok 0, s)
       else if old_generation \<noteq> Some generation then (Ok 1, s)
       else
         try_call (\<lambda>e. e) (rd_hset R key [(''last_heartbeat_at_ms'', now_ms)] s) (\<lambda>_ s.
         try_call (\<lambda>e. e) (rd_pexpire R key ttl s) (\<lambda>_ s. (Ok 2, s))))"

definition redis_heartbeat ::
  "'d redis \<Rightarrow> wire \<Rightarrow> RedisWorkerRegistry \<Rightarrow> clock \<Rightarrow> string \<Rightarrow> string \<Rightarrow> 'd
   \<Rightarrow> (HeartbeatError + unit) \<times> 'd" where
  "redis_heartbeat R W c clk worker_id generation s =
     try_call (\<lambda>_. RegistryUnavailable) (connect R s) (\<lambda>_ s.
       try_call (\<lambda>_. RegistryUnavailable)
         (request R (heartbeat_script R (worker_key c worker_id) generation
            (show_nat (registry_unix_millis (cl_wall clk))) (ttl_millis c)) s)
         (\<lambda>result s.
           (if result = 0 then Err UnknownWorker
            else if result = 1 then Err StaleGeneration
            else if result = 2 then Ok ()
            else Err RegistryUnavailable, s)))"

text \<open>\<open>str::replace\<close> of one character.\<close>
definition replace_char :: "char \<Rightarrow> string \<Rightarrow> string \<Rightarrow> string" where
  "replace_char c to s = concat (map (\<lambda>x. if x = c then to else [x]) s)"

definition escape_redis_pattern :: "string \<Rightarrow> string" where
  "escape_redis_pattern value =
     replace_char (CHR ''['') [CHR 0x5C, CHR ''['']
       (replace_char (CHR ''?'') [CHR 0x5C, CHR ''?'']
         (replace_char (CHR ''*'') [CHR 0x5C, CHR ''*'']
           (replace_char (CHR 0x5C) [CHR 0x5C, CHR 0x5C] value)))"

text \<open>The inner loop of \<open>available_workers\<close>, over the keys of one reply.\<close>

fun read_workers ::
  "'d redis \<Rightarrow> wire \<Rightarrow> string list \<Rightarrow> string list \<Rightarrow> 'd \<Rightarrow> (WorkerDirectoryError + string list) \<times> 'd" where
  "read_workers R W [] worker_ids s = (Ok worker_ids, s)"
| "read_workers R W (key # keys) worker_ids s =
     try_call (\<lambda>e. ''cannot read worker: '' @ e) (request R (rd_hget R key ''registration'') s)
       (\<lambda>payload s.
          case payload of
            None \<Rightarrow> read_workers R W keys worker_ids s
          | Some b \<Rightarrow>
              (case decode_registration W b of
                 Err e \<Rightarrow> (Err (''invalid worker registration in Redis: '' @ e), s)
               | Ok r \<Rightarrow> read_workers R W keys (worker_ids @ [wr_worker_id r]) s))"

text \<open>The outer loop, which ends when Redis returns the cursor 0.\<close>

partial_function (option) scan_workers ::
  "'d redis \<Rightarrow> wire \<Rightarrow> string \<Rightarrow> nat \<Rightarrow> string list \<Rightarrow> 'd
   \<Rightarrow> ((WorkerDirectoryError + string list) \<times> 'd) option" where
  "scan_workers R W pattern cursor worker_ids s =
     (case request R (rd_scan R cursor pattern 100) s of
        (Err e, s) \<Rightarrow> Some (Err (''cannot list workers: '' @ e), s)
      | (Ok (next, keys), s) \<Rightarrow>
          (case read_workers R W keys worker_ids s of
             (Err e, s) \<Rightarrow> Some (Err e, s)
           | (Ok ids, s) \<Rightarrow>
               if next = 0 then Some (Ok (dedup (sort ids)), s)
               else scan_workers R W pattern next ids s))"

definition worker_pattern :: "RedisWorkerRegistry \<Rightarrow> string" where
  "worker_pattern c = escape_redis_pattern (rwg_key_prefix c) @ '':worker:*''"

definition redis_available_workers ::
  "'d redis \<Rightarrow> wire \<Rightarrow> RedisWorkerRegistry \<Rightarrow> clock \<Rightarrow> 'd
   \<Rightarrow> ((WorkerDirectoryError + string list) \<times> 'd) option" where
  "redis_available_workers R W c clk s =
     (case connect R s of
        (Err e, s) \<Rightarrow> Some (Err (''cannot connect to Redis: '' @ e), s)
      | (Ok _, s) \<Rightarrow> scan_workers R W (worker_pattern c) 0 [] s)"

definition redis_worker_registry :: "'d redis \<Rightarrow> wire \<Rightarrow> RedisWorkerRegistry \<Rightarrow> 'd WorkerRegistry" where
  "redis_worker_registry R W c =
     \<lparr>dir_available_workers = redis_available_workers R W c,
      reg_register = redis_register R W c, reg_heartbeat = redis_heartbeat R W c\<rparr>"

section \<open>Worker incarnations\<close>

definition worker_incarnation_id :: "string \<Rightarrow> string \<Rightarrow> string" where
  "worker_incarnation_id worker_id generation =
     show_nat (length worker_id) @ '':'' @ worker_id @ generation"

text \<open>\<open>usize\<close> has 64 bits.\<close>

definition parse_worker_incarnation_id :: "string \<Rightarrow> (string \<times> string) option" where
  "parse_worker_incarnation_id value =
     (case split_once (CHR '':'') value of
        None \<Rightarrow> None
      | Some (len, identity) \<Rightarrow>
          (case parse_unsigned 64 len of
             None \<Rightarrow> None
           | Some worker_length \<Rightarrow>
               if worker_length = 0 \<or> worker_length \<ge> length identity
                  \<or> \<not> is_char_boundary identity worker_length then None
               else
                 let worker_id = take worker_length identity; generation = drop worker_length identity in
                 if generation \<noteq> [] then Some (worker_id, generation) else None))"

end
