(* ===== verification/Config.thy ===== *)
theory Config
  imports Rust_Std
begin

text \<open>
  \<^verbatim>\<open>src/src/config/mod.rs\<close>: the configuration record, its defaults, the two field deserializers the
  sources write themselves (processors and memory), and the selection of a role's part. Reading the file
  and \<open>serde_yaml\<close> with the deserializers \<open>serde\<close> derives are parameters.
\<close>

section \<open>Records and defaults\<close>

record ServerConfig =
  sc_bind_address :: string

record RedisConfig =
  rc_url :: string
  rc_worker_membership_ttl_seconds :: u64

definition default_worker_membership_ttl_seconds :: u64 where
  "default_worker_membership_ttl_seconds = 30"

record BrokerConfig =
  bc_key_prefix :: string
  bc_task_destination :: string

record WorkerResourcesConfig =
  wrc_cpu :: u64
  wrc_memory :: u64

definition WorkerResourcesConfig_default :: WorkerResourcesConfig where
  "WorkerResourcesConfig_default = \<lparr>wrc_cpu = 0, wrc_memory = 0\<rparr>"

record WorkerConfig =
  wc_name :: "string option"
  wc_core_endpoint :: string
  wc_runtime_address :: string
  wc_resources :: WorkerResourcesConfig
  wc_capabilities :: "string list"

definition default_worker_runtime_address :: string where
  "default_worker_runtime_address = ''0.0.0.0:50052''"

definition WorkerConfig_default :: WorkerConfig where
  "WorkerConfig_default =
     \<lparr>wc_name = None, wc_core_endpoint = [], wc_runtime_address = default_worker_runtime_address,
      wc_resources = WorkerResourcesConfig_default, wc_capabilities = []\<rparr>"

record Config =
  cfg_server :: "ServerConfig option"
  cfg_redis :: RedisConfig
  cfg_broker :: BrokerConfig
  cfg_worker :: "WorkerConfig option"

section \<open>The deserializers\<close>

text \<open>The argument is what \<open>u64::deserialize\<close> returned.\<close>

definition deserialize_cpu :: "string + u64 \<Rightarrow> string + u64" where
  "deserialize_cpu d =
     (case d of
        Err e \<Rightarrow> Err e
      | Ok cpu \<Rightarrow>
          if cpu > (- 1) div 1000 then Err ''worker CPU exceeds the protocol millicore range'' else Ok cpu)"

definition memory_units :: "(string \<times> u64) list" where
  "memory_units =
     [(''TiB'', 2 ^ 40), (''GiB'', 2 ^ 30), (''MiB'', 2 ^ 20), (''KiB'', 2 ^ 10),
      (''TB'', 1000000000000), (''GB'', 1000000000), (''MB'', 1000000)]"

text \<open>The loop of \<open>parse_memory\<close>: the first unit that is a suffix decides.\<close>

fun parse_units :: "(string \<times> u64) list \<Rightarrow> string \<Rightarrow> string + u64" where
  "parse_units [] v = Err ''worker memory must use one of KiB, MiB, GiB, TiB, MB, GB, or TB''"
| "parse_units ((suf, multiplier) # us) v =
     (case strip_suffix suf v of
        Some number \<Rightarrow>
          (case parse_unsigned 64 (trim number) of
             None \<Rightarrow> Err (''worker memory must be an integer followed by '' @ suf)
           | Some n \<Rightarrow> ok_or ''worker memory exceeds the supported range'' (checked_mul (of_nat n) multiplier))
      | None \<Rightarrow> parse_units us v)"

definition parse_memory :: "string \<Rightarrow> string + u64" where
  "parse_memory v = parse_units memory_units (trim v)"

text \<open>The argument is what \<open>String::deserialize\<close> returned.\<close>

definition deserialize_memory :: "string + string \<Rightarrow> string + u64" where
  "deserialize_memory d = (case d of Err e \<Rightarrow> Err e | Ok v \<Rightarrow> parse_memory v)"

section \<open>Loading and roles\<close>

definition load :: "(string \<Rightarrow> string + 'f) \<Rightarrow> ('f \<Rightarrow> string + Config) \<Rightarrow> string \<Rightarrow> string + Config" where
  "load open_file from_reader path =
     (case open_file path of
        Err e \<Rightarrow> Err (''cannot open configuration file '' @ path @ '': '' @ e)
      | Ok file \<Rightarrow>
          (case from_reader file of
             Err e \<Rightarrow> Err (''cannot parse configuration file '' @ path @ '': '' @ e)
           | Ok c \<Rightarrow> Ok c))"

definition server_config :: "Config \<Rightarrow> string + ServerConfig" where
  "server_config c = ok_or ''server configuration is required for the server role'' (cfg_server c)"

definition worker_config :: "Config \<Rightarrow> string + WorkerConfig" where
  "worker_config c = ok_or ''worker configuration is required for the worker role'' (cfg_worker c)"

section \<open>Facts about the deserializers\<close>

lemma deserialize_cpu_bound: "deserialize_cpu d = Ok cpu \<Longrightarrow> unat cpu * 1000 < 2 ^ 64"
proof -
  assume "deserialize_cpu d = Ok cpu"
  then have "cpu \<le> (- 1) div 1000" by (auto simp: deserialize_cpu_def split: sum.splits if_splits)
  then have "unat cpu \<le> unat ((- 1 :: u64) div 1000)" by (simp add: word_le_nat_alt)
  also have "\<dots> = 18446744073709551"
    by (simp add: unat_div unsigned_minus_1_eq_mask mask_eq_exp_minus_1)
  finally show ?thesis by simp
qed

text \<open>What is accepted is a number that the parser read times the unit, with no wrap-around.\<close>

lemma parse_units_sound:
  "parse_units us v = Ok m \<Longrightarrow> \<exists>suf mult number n. (suf, mult) \<in> set us \<and> v = number @ suf
     \<and> parse_unsigned 64 (trim number) = Some n \<and> unat m = n * unat mult"
proof (induction us)
  case (Cons x us)
  obtain suf mult where x: "x = (suf, mult)" by fastforce
  show ?case
  proof (cases "strip_suffix suf v")
    case None
    with Cons x show ?thesis by auto
  next
    case (Some number)
    with Cons.prems x obtain n where n: "parse_unsigned 64 (trim number) = Some n"
        "checked_mul (of_nat n) mult = Some m" by (auto split: option.splits)
    have "unat (of_nat n :: u64) = n" using parse_unsigned_less [OF n(1)] by (simp add: unat_of_nat)
    with checked_mul_Some [OF n(2)] n(1) Some x show ?thesis
      by (auto simp: strip_suffix_Some_iff)
  qed
qed simp

lemma strip_suffix_same_length:
  "length suf = length t \<Longrightarrow> strip_suffix suf (s @ t) = (if suf = t then Some s else None)"
  by (auto simp: strip_suffix_def suffix_def)

lemma strip_suffix_other_end: "c \<noteq> d \<Longrightarrow> strip_suffix (p @ [c, b]) (s @ [d, b]) = None"
  by (auto simp: strip_suffix_def suffix_def append_eq_append_conv2 append_eq_Cons_conv)

lemma ws_front_show_nat: "ws_front (show_nat n @ s) = 0"
proof -
  obtain c cs where c: "show_nat n = c # cs" by (cases "show_nat n") auto
  then have "48 \<le> byte c" "byte c \<le> 57" using show_nat_digits [of c n] by simp_all
  then have "\<not> ws1 (byte c)" "\<And>x. \<not> ws2 (byte c) x" "\<And>x y. \<not> ws3 (byte c) x y"
    by (auto simp: ws1_def ws2_def ws3_def)
  then have "ws_front (c # xs) = 0" for xs by (cases "c # xs" rule: ws_front.cases) auto
  with c show ?thesis by simp
qed

lemma ws_back_plain: "byte b = 66 \<or> 48 \<le> byte b \<and> byte b \<le> 57 \<Longrightarrow> ws_back (b # xs) = 0"
proof -
  assume "byte b = 66 \<or> 48 \<le> byte b \<and> byte b \<le> 57"
  then have "\<not> ws1 (byte b)" "\<And>x. \<not> ws2 x (byte b)" "\<And>x y. \<not> ws3 x y (byte b)"
    by (auto simp: ws1_def ws2_def ws3_def)
  then show ?thesis by (cases "b # xs" rule: ws_back.cases) auto
qed

lemma trim_show_nat: "trim (show_nat n) = show_nat n"
proof (rule trim_id)
  show "ws_front (show_nat n) = 0" using ws_front_show_nat [of n "[]"] by simp
  show "ws_back (rev (show_nat n)) = 0"
    using ws_back_plain [of "last (show_nat n)"] show_nat_digits [of "last (show_nat n)" n]
    by (cases "show_nat n" rule: rev_cases) auto
qed

lemma trim_show_nat_unit: "trim (show_nat n @ u @ ''B'') = show_nat n @ u @ ''B''"
  using ws_back_plain [of "CHR ''B''"] by (intro trim_id ws_front_show_nat) (simp add: byte_def)

end
