(* ===== verification/Worker.thy ===== *)
theory Worker
  imports Worker_Runtime Broker Worker_Registry Config
begin

text \<open>
  \<^verbatim>\<open>src/src/worker/worker.rs\<close>: the identity of a worker, its registration, the loop that takes
  assignments from the broker into the table, the heartbeats, and how \<open>run_until_shutdown\<close> puts them
  together. The broker and the client of the control plane act on one world; host name, generated
  identifiers and clock readings are arguments. The generated gRPC stubs are the parameter \<^verbatim>\<open>remote\<close>.
\<close>

section \<open>The gRPC client\<close>

text \<open>A connection attempt to an endpoint, and the calls of the generated stub.\<close>

record 'w remote =
  rm_connect :: "string \<Rightarrow> 'w \<Rightarrow> (string + unit) \<times> 'w"
  rm_register_worker :: "string \<Rightarrow> RegisterWorkerRequest \<Rightarrow> 'w \<Rightarrow> (Status + RegisterWorkerResponse) \<times> 'w"
  rm_report_heartbeat :: "string \<Rightarrow> ReportHeartbeatRequest \<Rightarrow> 'w \<Rightarrow> (Status + ReportHeartbeatResponse) \<times> 'w"
  rm_report_execution :: "string \<Rightarrow> ReportExecutionRequest \<Rightarrow> 'w \<Rightarrow> (Status + ReportExecutionResponse) \<times> 'w"

record GrpcCoreWorkerClient =
  gcc_endpoint :: string

definition grpc_register_worker ::
  "'w remote \<Rightarrow> GrpcCoreWorkerClient \<Rightarrow> RegisterWorkerRequest \<Rightarrow> 'w \<Rightarrow> (Status + RegisterWorkerResponse) \<times> 'w" where
  "grpc_register_worker N g req w =
     try_call (\<lambda>e. Status Unavailable (''cannot connect to Core: '' @ e)) (rm_connect N (gcc_endpoint g) w)
       (\<lambda>_ w. rm_register_worker N (gcc_endpoint g) req w)"

definition grpc_report_heartbeat ::
  "'w remote \<Rightarrow> GrpcCoreWorkerClient \<Rightarrow> ReportHeartbeatRequest \<Rightarrow> 'w \<Rightarrow> (Status + ReportHeartbeatResponse) \<times> 'w" where
  "grpc_report_heartbeat N g req w =
     try_call (\<lambda>e. Status Unavailable (''cannot connect to Core: '' @ e)) (rm_connect N (gcc_endpoint g) w)
       (\<lambda>_ w. rm_report_heartbeat N (gcc_endpoint g) req w)"

definition grpc_report_execution ::
  "'w remote \<Rightarrow> GrpcCoreWorkerClient \<Rightarrow> ReportExecutionRequest \<Rightarrow> 'w \<Rightarrow> (Status + ReportExecutionResponse) \<times> 'w" where
  "grpc_report_execution N g req w =
     try_call (\<lambda>e. Status Unavailable (''cannot connect to Core: '' @ e)) (rm_connect N (gcc_endpoint g) w)
       (\<lambda>_ w. rm_report_execution N (gcc_endpoint g) req w)"

definition grpc_client :: "'w remote \<Rightarrow> GrpcCoreWorkerClient \<Rightarrow> 'w CoreWorkerClient" where
  "grpc_client N g =
     \<lparr>cwc_register_worker = grpc_register_worker N g, cwc_report_heartbeat = grpc_report_heartbeat N g,
      cwc_report_execution = grpc_report_execution N g\<rparr>"

section \<open>Identity, capacity and registration\<close>

definition HEARTBEAT_INTERVAL :: duration where
  "HEARTBEAT_INTERVAL = 10 * 10 ^ 9"

definition SUPPORTED_PROTOCOL_VERSIONS :: "string list" where
  "SUPPORTED_PROTOCOL_VERSIONS = [''common/v1'', ''artifacts/v1'', ''broker/v1'', ''execution/v1'', ''runtime/v1'']"

type_synonym WorkerError = string

record WorkerIdentity =
  wi_worker_id :: string
  wi_generation :: string
  wi_name :: string

text \<open>The host: the variable \<open>HOSTNAME\<close> and the content of \<open>/etc/hostname\<close>, where they can be read.\<close>

record host =
  host_variable :: "string option"
  host_file :: "string option"

definition default_worker_name :: "host \<Rightarrow> string" where
  "default_worker_name h =
     (case host_variable h of
        Some name \<Rightarrow> if \<not> blank name then name
          else (case host_file h of
                  Some f \<Rightarrow> if trim f \<noteq> [] then trim f else ''localhost''
                | None \<Rightarrow> ''localhost'')
      | None \<Rightarrow> (case host_file h of
                  Some f \<Rightarrow> if trim f \<noteq> [] then trim f else ''localhost''
                | None \<Rightarrow> ''localhost''))"

text \<open>\<open>u\<close> and \<open>g\<close> are the two values of \<open>Uuid::new_v4\<close>.\<close>

definition worker_identity_new :: "host \<Rightarrow> string \<Rightarrow> string \<Rightarrow> string option \<Rightarrow> WorkerIdentity" where
  "worker_identity_new h u g name =
     \<lparr>wi_worker_id = u, wi_generation = g,
      wi_name = (case name of Some n \<Rightarrow> n | None \<Rightarrow> default_worker_name h)\<rparr>"

record WorkerResources =
  wres_cpu_cores :: u64
  wres_memory_bytes :: u64

definition resources_from :: "WorkerResources \<Rightarrow> ResourceRequirements" where
  "resources_from r =
     \<lparr>rr_cpu_millicores = wres_cpu_cores r * 1000, rr_memory_bytes = wres_memory_bytes r,
      rr_required_capabilities = []\<rparr>"

record AdvertisedCapacity =
  ac_resources :: WorkerResources
  ac_capabilities :: "string list"

record 'w Worker =
  wk_broker :: "'w Broker"
  wk_destination :: string
  wk_identity :: WorkerIdentity
  wk_advertised_capacity :: AdvertisedCapacity
  wk_core_client :: "'w CoreWorkerClient"
  wk_heartbeat_interval :: duration
  wk_runtime_address :: string

definition with_core_client ::
  "host \<Rightarrow> string \<Rightarrow> string \<Rightarrow> 'w Broker \<Rightarrow> WorkerConfig \<Rightarrow> 'w CoreWorkerClient \<Rightarrow> 'w Worker" where
  "with_core_client h u g b config client =
     (let identity = worker_identity_new h u g (wc_name config) in
      \<lparr>wk_broker = b, wk_destination = worker_destination (wi_worker_id identity), wk_identity = identity,
       wk_advertised_capacity =
         \<lparr>ac_resources = \<lparr>wres_cpu_cores = wrc_cpu (wc_resources config),
                          wres_memory_bytes = wrc_memory (wc_resources config)\<rparr>,
          ac_capabilities = wc_capabilities config\<rparr>,
       wk_core_client = client, wk_heartbeat_interval = HEARTBEAT_INTERVAL,
       wk_runtime_address = wc_runtime_address config\<rparr>)"

definition worker_new ::
  "'w remote \<Rightarrow> host \<Rightarrow> string \<Rightarrow> string \<Rightarrow> 'w Broker \<Rightarrow> WorkerConfig \<Rightarrow> 'w Worker" where
  "worker_new N h u g b config =
     (let client = grpc_client N \<lparr>gcc_endpoint = wc_core_endpoint config\<rparr>;
          identity = worker_identity_new h u g (wc_name config) in
      \<lparr>wk_broker = b, wk_destination = worker_destination (wi_worker_id identity), wk_identity = identity,
       wk_advertised_capacity =
         \<lparr>ac_resources = \<lparr>wres_cpu_cores = wrc_cpu (wc_resources config),
                          wres_memory_bytes = wrc_memory (wc_resources config)\<rparr>,
          ac_capabilities = wc_capabilities config\<rparr>,
       wk_core_client = client, wk_heartbeat_interval = HEARTBEAT_INTERVAL,
       wk_runtime_address = wc_runtime_address config\<rparr>)"

text \<open>\<open>CARGO_PKG_VERSION\<close> of the package.\<close>

definition registration :: "'w Worker \<Rightarrow> WorkerRegistration" where
  "registration wk =
     \<lparr>wr_worker_id = wi_worker_id (wk_identity wk), wr_node_id = None,
      wr_generation = wi_generation (wk_identity wk), wr_implementation_version = ''0.1.10'',
      wr_protocol_versions = SUPPORTED_PROTOCOL_VERSIONS, wr_endpoint = wk_runtime_address wk,
      wr_executors = [],
      wr_capacity = Some ((resources_from (ac_resources (wk_advertised_capacity wk)))
        \<lparr>rr_required_capabilities := ac_capabilities (wk_advertised_capacity wk)\<rparr>),
      wr_metadata = Some (fmap_of_list [(''worker_name'', wi_name (wk_identity wk))])\<rparr>"

section \<open>Assignments\<close>

text \<open>The table and the world; \<^const>\<open>None\<close> while no assignment waits.\<close>

definition execute_one ::
  "wire \<Rightarrow> 'w Worker \<Rightarrow> PendingExecutions \<times> 'w
   \<Rightarrow> ((BrokerError + AssignExecutionRequest) \<times> PendingExecutions \<times> 'w) option" where
  "execute_one W wk s =
     (case s of (p, w) \<Rightarrow>
      case broker_consume (wk_broker wk) (wk_destination wk) w of
        None \<Rightarrow> None
      | Some (Err e, w) \<Rightarrow> Some (Err e, p, w)
      | Some (Ok envelope, w) \<Rightarrow>
          (case decode_assign W (be_payload envelope) of
             Err e \<Rightarrow> Some (Err (''invalid AssignExecutionRequest: '' @ e), p, w)
           | Ok assignment \<Rightarrow>
               (case enqueue assignment p of
                  (Err e, p) \<Rightarrow> Some (Err (''cannot queue assignment: '' @ show_status W e), p, w)
                | (Ok _, p) \<Rightarrow> Some (Ok assignment, p, w))))"

text \<open>\<open>execute_one\<close> between its awaits: the broker, and the lock of the table, with the assignment in hand in
  between. An error ends the worker; its table goes on until then.\<close>

fun worker_next ::
  "wire \<Rightarrow> 'w Worker \<Rightarrow> AssignExecutionRequest option \<times> PendingExecutions \<times> 'w
   \<Rightarrow> (AssignExecutionRequest option \<times> PendingExecutions \<times> 'w) option" where
  "worker_next W wk (None, p, w) =
     (case broker_consume (wk_broker wk) (wk_destination wk) w of
        None \<Rightarrow> None
      | Some (Err _, w) \<Rightarrow> Some (None, p, w)
      | Some (Ok envelope, w) \<Rightarrow>
          (case decode_assign W (be_payload envelope) of
             Err _ \<Rightarrow> Some (None, p, w)
           | Ok assignment \<Rightarrow> Some (Some assignment, p, w)))"
| "worker_next W wk (Some assignment, p, w) = Some (None, snd (enqueue assignment p), w)"

lemma execute_one_in_steps:
  assumes "execute_one W wk (p, w) = Some (x, p', w')"
  shows "worker_next W wk (None, p, w) = Some (None, p', w') \<or>
    (\<exists>a. worker_next W wk (None, p, w) = Some (Some a, p, w') \<and> worker_next W wk (Some a, p, w') = Some (None, p', w'))"
  using assms
  by (auto simp: execute_one_def split: option.split_asm sum.split_asm prod.split_asm)

section \<open>Heartbeats\<close>

definition heartbeat_request :: "'w Worker \<Rightarrow> u64 \<Rightarrow> Timestamp \<Rightarrow> ReportHeartbeatRequest" where
  "heartbeat_request wk sequence_number now =
     \<lparr>rhq_heartbeat = Some
        \<lparr>rh_runtime_id = worker_incarnation_id (wi_worker_id (wk_identity wk)) (wi_generation (wk_identity wk)),
         rh_sequence_number = sequence_number, rh_status = RuntimeReady,
         rh_available_resources = Some (resources_from (ac_resources (wk_advertised_capacity wk))),
         rh_observed_at = Some now\<rparr>\<rparr>"

text \<open>One pass of \<open>heartbeat_loop\<close>: the answer is only logged.\<close>

definition heartbeat_tick :: "'w Worker \<Rightarrow> Timestamp \<Rightarrow> u64 \<times> 'w \<Rightarrow> u64 \<times> 'w" where
  "heartbeat_tick wk now s =
     (case s of (sequence_number, w) \<Rightarrow>
      let sequence_number = sequence_number + 1 in
      (sequence_number,
       snd (cwc_report_heartbeat (wk_core_client wk) (heartbeat_request wk sequence_number now) w)))"

section \<open>The worker\<close>

text \<open>What the \<open>select!\<close> of \<open>run_until_shutdown\<close> finds ready: an assignment for \<open>assignment_loop\<close>, a
  tick of \<open>heartbeat_loop\<close>, the end of the runtime server, or the shutdown signal. Before each, the rest
  of the system acts.\<close>

datatype worker_input =
  AssignmentReady | HeartbeatTick Timestamp | RuntimeServerEnd "WorkerError + unit" | Shutdown

record 'w worker_state =
  wst_pending :: PendingExecutions
  wst_sequence_number :: u64
  wst_world :: 'w

text \<open>\<^const>\<open>None\<close> while the worker still runs.\<close>

fun worker_loops ::
  "wire \<Rightarrow> 'w Worker \<Rightarrow> (worker_input \<times> ('w worker_state \<Rightarrow> 'w worker_state)) list \<Rightarrow> 'w worker_state
   \<Rightarrow> (WorkerError + unit) option \<times> 'w worker_state" where
  "worker_loops W wk [] s = (None, s)"
| "worker_loops W wk ((x, others) # xs) s =
     (let s = others s in
      case x of
        AssignmentReady \<Rightarrow>
          (case execute_one W wk (wst_pending s, wst_world s) of
             None \<Rightarrow> worker_loops W wk xs s
           | Some (Err e, p, w) \<Rightarrow> (Some (Err e), s\<lparr>wst_pending := p, wst_world := w\<rparr>)
           | Some (Ok _, p, w) \<Rightarrow> worker_loops W wk xs (s\<lparr>wst_pending := p, wst_world := w\<rparr>))
      | HeartbeatTick now \<Rightarrow>
          (case heartbeat_tick wk now (wst_sequence_number s, wst_world s) of
             (n, w) \<Rightarrow> worker_loops W wk xs (s\<lparr>wst_sequence_number := n, wst_world := w\<rparr>))
      | RuntimeServerEnd result \<Rightarrow> (Some result, s)
      | Shutdown \<Rightarrow> (Some (Ok ()), s))"

definition run_until_shutdown ::
  "wire \<Rightarrow> 'w Worker \<Rightarrow> (worker_input \<times> ('w worker_state \<Rightarrow> 'w worker_state)) list \<Rightarrow> 'w worker_state
   \<Rightarrow> (WorkerError + unit) option \<times> 'w worker_state" where
  "run_until_shutdown W wk xs s =
     (case cwc_register_worker (wk_core_client wk) \<lparr>rwq_registration = Some (registration wk)\<rparr> (wst_world s) of
        (Ok response, w) \<Rightarrow>
          if rwr_accepted response then worker_loops W wk xs (s\<lparr>wst_world := w, wst_sequence_number := 0\<rparr>)
          else (Some (Err ''Core did not accept worker registration''), s\<lparr>wst_world := w\<rparr>)
      | (Err failure, w) \<Rightarrow> (Some (Err (show_status W failure)), s\<lparr>wst_world := w\<rparr>))"

section \<open>Display of memory\<close>

definition format_units :: "(string \<times> u64) list" where
  "format_units = [(''TiB'', 2 ^ 40), (''GiB'', 2 ^ 30), (''MiB'', 2 ^ 20), (''KiB'', 2 ^ 10)]"

fun format_with :: "(string \<times> u64) list \<Rightarrow> u64 \<Rightarrow> string" where
  "format_with [] b = show_nat (unat b) @ ''B''"
| "format_with ((suf, divisor) # us) b =
     (if b \<ge> divisor \<and> b mod divisor = 0 then show_nat (unat (b div divisor)) @ suf
      else format_with us b)"

definition format_memory :: "u64 \<Rightarrow> string" where
  "format_memory b = format_with format_units b"

end
