(* ===== verification/Worker_Capacity.thy ===== *)
theory Worker_Capacity
  imports Worker
begin

text \<open>
  The capacity a worker advertises: the memory a configuration accepts is what its text says, without
  wrap-around; the worker's display of memory reads back; and the advertised millicores never overflow.
\<close>

section \<open>Units\<close>

definition exact_units :: "u64 \<Rightarrow> u64 \<Rightarrow> bool" where
  "exact_units d b \<longleftrightarrow> b \<ge> d \<and> b mod d = 0"

lemma exact_units_nat: "exact_units d b \<longleftrightarrow> unat d \<le> unat b \<and> unat b mod unat d = 0"
  by (simp add: exact_units_def word_le_nat_alt unat_mod [symmetric] flip: unat_eq_0)

lemma checked_mul_div:
  assumes "exact_units d b"
  shows "checked_mul (of_nat (unat (b div d))) d = Some b"
proof -
  have "unat (b div d) * unat d = unat b"
    using assms div_mult_mod_eq [of "unat b" "unat d"] by (simp add: exact_units_nat unat_div)
  moreover have "unat b < 2 ^ 64" using unsigned_less [of b] by simp
  ultimately have small: "unat (b div d) * unat d < 2 ^ 64" and "unat (b div d * d) = unat b"
    using unat_mult_small [of "b div d" d] by simp_all
  then have "b div d * d = b" by (simp add: word_unat_eq_iff)
  with small show ?thesis by (simp add: checked_mul_def)
qed

lemma parse_units_hit:
  assumes "exact_units d b"
  shows "parse_units ((suf, d) # us) (show_nat (unat (b div d)) @ suf) = Ok b"
proof -
  have "unat (b div d) < 2 ^ 64" using unsigned_less [of "b div d"] by simp
  then have "parse_unsigned 64 (show_nat (unat (b div d))) = Some (unat (b div d))"
    by (rule parse_unsigned_show_nat)
  with checked_mul_div [OF assms] show ?thesis by (simp add: trim_show_nat)
qed

lemma parse_units_miss:
  "length suf = length t \<Longrightarrow> suf \<noteq> t \<Longrightarrow> parse_units ((suf, d) # us) (s @ t) = parse_units us (s @ t)"
  by (simp add: strip_suffix_same_length)

text \<open>A plain number of bytes has no unit the parser knows.\<close>

lemma parse_units_plain:
  assumes "\<forall>(suf, d) \<in> set us. \<exists>p c. suf = p @ [c, CHR ''B''] \<and> \<not> (48 \<le> byte c \<and> byte c \<le> 57)"
  shows "parse_units us (show_nat n @ ''B'') = Err ''worker memory must use one of KiB, MiB, GiB, TiB, MB, GB, or TB''"
  using assms
proof (induction us)
  case (Cons x us)
  obtain suf d where x: "x = (suf, d)" by fastforce
  with Cons.prems obtain p c where suf: "suf = p @ [c, CHR ''B'']" "\<not> (48 \<le> byte c \<and> byte c \<le> 57)" by auto
  obtain ds l where n: "show_nat n = ds @ [l]" by (cases "show_nat n" rule: rev_cases) auto
  then have "48 \<le> byte l \<and> byte l \<le> 57" using show_nat_digits [of l n] by simp
  then have "c \<noteq> l" using suf(2) by auto
  from strip_suffix_other_end [OF this, of p "CHR ''B''" ds] Cons x suf(1) n show ?case by simp
qed simp

lemma memory_units_plain:
  "\<forall>(suf, d) \<in> set memory_units. \<exists>p c. suf = p @ [c, CHR ''B''] \<and> \<not> (48 \<le> byte c \<and> byte c \<le> 57)"
  by (simp add: memory_units_def byte_def)

lemma smaller_unit:
  assumes "exact_units (2 ^ a) b" and "j \<le> a" and "a < 64"
  shows "exact_units (2 ^ j) b"
proof -
  have pow: "unat (2 ^ k :: u64) = 2 ^ k" if "k < 64" for k
  proof -
    have "(2::nat) ^ k < 2 ^ 64" using that by (rule power_strict_increasing) simp
    then have "unat (of_nat (2 ^ k) :: u64) = 2 ^ k" by (simp add: unat_of_nat del: of_nat_power)
    then show ?thesis by simp
  qed
  have "(2::nat) ^ j dvd 2 ^ a" by (rule le_imp_power_dvd [OF assms(2)])
  with assms show ?thesis
    by (auto simp: exact_units_nat pow mod_eq_0_iff_dvd intro: dvd_trans order.trans [OF power_increasing])
qed

section \<open>Properties\<close>

lemma exact_kib: "exact_units (2 ^ 10) b \<longleftrightarrow> b \<noteq> 0 \<and> b mod 1024 = 0"
proof -
  have "unat b mod 1024 = 0 \<Longrightarrow> unat b \<noteq> 0 \<Longrightarrow> 1024 \<le> unat b" by (metis mod_less not_le)
  moreover have "b mod 1024 = 0 \<longleftrightarrow> unat b mod 1024 = 0"
    by (simp add: unat_mod word_unat_eq_iff)
  ultimately show ?thesis by (auto simp: exact_units_nat unat_eq_0 [symmetric])
qed

text \<open>C38. A worker's display of a memory size reads back as a configuration value: the parser returns
  exactly the size when it is a positive multiple of a KiB, and refuses the display of any other size,
  which has no unit the parser knows.\<close>

theorem memory_display_round_trip:
  "parse_memory (format_memory b) =
     (if b \<noteq> 0 \<and> b mod 1024 = 0 then Ok b
      else Err ''worker memory must use one of KiB, MiB, GiB, TiB, MB, GB, or TB'')"
proof -
  note trim = trim_show_nat_unit [of _ "''Ti''", simplified] trim_show_nat_unit [of _ "''Gi''", simplified]
    trim_show_nat_unit [of _ "''Mi''", simplified] trim_show_nat_unit [of _ "''Ki''", simplified]
    trim_show_nat_unit [of _ "[]", simplified]
  consider (t) "exact_units (2 ^ 40) b" | (g) "\<not> exact_units (2 ^ 40) b" "exact_units (2 ^ 30) b"
    | (m) "\<not> exact_units (2 ^ 40) b" "\<not> exact_units (2 ^ 30) b" "exact_units (2 ^ 20) b"
    | (k) "\<not> exact_units (2 ^ 40) b" "\<not> exact_units (2 ^ 30) b" "\<not> exact_units (2 ^ 20) b" "exact_units (2 ^ 10) b"
    | (plain) "\<not> exact_units (2 ^ 10) b" by blast
  then show ?thesis
  proof cases
    case t
    have "format_memory b = show_nat (unat (b div 2 ^ 40)) @ ''TiB''"
      using t by (simp add: format_memory_def format_units_def exact_units_def)
    with parse_units_hit [OF t] smaller_unit [OF t, of 10] exact_kib [of b] show ?thesis
      by (simp add: parse_memory_def memory_units_def trim)
  next
    case g
    have "format_memory b = show_nat (unat (b div 2 ^ 30)) @ ''GiB''"
      using g by (simp add: format_memory_def format_units_def exact_units_def)
    with parse_units_hit [OF g(2)] smaller_unit [OF g(2), of 10] exact_kib [of b] show ?thesis
      by (simp add: parse_memory_def memory_units_def trim parse_units_miss del: parse_units.simps)
  next
    case m
    have "format_memory b = show_nat (unat (b div 2 ^ 20)) @ ''MiB''"
      using m by (simp add: format_memory_def format_units_def exact_units_def)
    with parse_units_hit [OF m(3)] smaller_unit [OF m(3), of 10] exact_kib [of b] show ?thesis
      by (simp add: parse_memory_def memory_units_def trim parse_units_miss del: parse_units.simps)
  next
    case k
    have "format_memory b = show_nat (unat (b div 2 ^ 10)) @ ''KiB''"
      using k by (simp add: format_memory_def format_units_def exact_units_def)
    with parse_units_hit [OF k(4)] k(4) exact_kib [of b] show ?thesis
      by (simp add: parse_memory_def memory_units_def trim parse_units_miss del: parse_units.simps)
  next
    case plain
    then have "\<not> exact_units (2 ^ a) b" if "10 \<le> a" "a < 64" for a using smaller_unit [of a b 10] that by blast
    from this [of 40] this [of 30] this [of 20] have "format_memory b = show_nat (unat b) @ ''B''"
      using plain by (simp add: format_memory_def format_units_def exact_units_def [symmetric])
    with parse_units_plain [OF memory_units_plain] plain exact_kib [of b] show ?thesis
      by (simp add: parse_memory_def trim)
  qed
qed

text \<open>C39. A memory size that the configuration accepts is exactly what its text says: a 64-bit number,
  read from the text before one of the units, times that unit, with no wrap-around.\<close>

theorem accepted_memory_exact:
  assumes "parse_memory v = Ok m"
  shows "\<exists>suf mult number n. (suf, mult) \<in> set memory_units \<and> trim v = number @ suf
    \<and> parse_unsigned 64 (trim number) = Some n \<and> n * unat mult < 2 ^ 64 \<and> unat m = n * unat mult"
proof -
  from parse_units_sound [OF assms [unfolded parse_memory_def]] obtain suf mult number n where
    "(suf, mult) \<in> set memory_units" "trim v = number @ suf" "parse_unsigned 64 (trim number) = Some n"
    "unat m = n * unat mult" by blast
  moreover have "unat m < 2 ^ 64" using unsigned_less [of m] by simp
  ultimately show ?thesis by (metis (no_types, lifting))
qed

theorem accepted_memory_exact_witness:
  "parse_memory ''32 GiB'' = Ok 34359738368 \<and> (\<exists>mult n. unat (34359738368 :: u64) = n * unat (mult :: u64))"
proof -
  have "trim ''32 GiB'' = ''32 GiB''" by (simp add: trim_id byte_def ws1_def ws2_def ws3_def)
  moreover have "trim ''32 '' = ''32''"
    by (simp add: trim_def trim_start_id trim_end_def trim_start_rev.simps byte_def ws1_def ws2_def ws3_def)
  moreover have "parse_unsigned 64 ''32'' = Some 32"
    by (simp add: parse_unsigned_def digit_value_def byte_def)
  moreover have "checked_mul 32 1073741824 = Some 34359738368" by (simp add: checked_mul_def)
  ultimately have eval: "parse_memory ''32 GiB'' = Ok 34359738368"
    by (simp add: parse_memory_def memory_units_def strip_suffix_def suffix_def)
  with accepted_memory_exact [OF eval] show ?thesis by blast
qed

text \<open>The millicores a worker advertises never overflow: when the configured number of processors
  passed the deserializer, the capacity in its registration is that number times 1000.\<close>

lemma advertised_millicores_exact:
  assumes "deserialize_cpu d = Ok (wrc_cpu (wc_resources config))"
  shows "\<exists>cap. wr_capacity (registration (worker_new N h u g b config)) = Some cap
    \<and> unat (rr_cpu_millicores cap) = unat (wrc_cpu (wc_resources config)) * 1000
    \<and> rr_memory_bytes cap = wrc_memory (wc_resources config)
    \<and> rr_required_capabilities cap = wc_capabilities config"
proof -
  have "unat (wrc_cpu (wc_resources config) * 1000) = unat (wrc_cpu (wc_resources config)) * 1000"
    using unat_mult_small [of "wrc_cpu (wc_resources config)" 1000] deserialize_cpu_bound [OF assms] by simp
  then show ?thesis by (simp add: registration_def worker_new_def Let_def resources_from_def)
qed

end
