(* ===== verification/Worker_Membership.thy ===== *)
theory Worker_Membership
  imports Worker_Registry
begin

text \<open>
  The contract of a worker registry, as the locale \<open>worker_registry\<close>: a map from workers to their
  registration from which members may expire at any time, which only \<open>register\<close> adds to, and in which a
  heartbeat is accepted only from the registered generation. The registry in memory and the Redis
  registry satisfy it; what follows for every sequence of calls is proved once.
\<close>

section \<open>Contract\<close>

definition forget :: "'k set \<Rightarrow> ('k \<rightharpoonup> 'v) \<Rightarrow> 'k \<rightharpoonup> 'v" where
  "forget E m = m |` (- E)"

lemma forget_apply: "forget E m k = (if k \<in> E then None else m k)"
  by (simp add: forget_def)

lemma forget_empty [simp]: "forget {} m = m"
  by (simp add: fun_eq_iff forget_apply)

lemma forget_forget [simp]: "forget E (forget F m) = forget (E \<union> F) m"
  by (auto simp: fun_eq_iff forget_apply)

lemma dom_forget: "dom (forget E m) = dom m - E"
  by (auto simp: forget_def)

definition registration_outcome :: "WorkerRegistration option \<Rightarrow> string \<Rightarrow> RegistrationOutcome" where
  "registration_outcome existing generation =
     (case existing of
        None \<Rightarrow> New
      | Some r \<Rightarrow> if wr_generation r = generation then Idempotent else Replaced)"

datatype registry_call = Register clock WorkerRegistration | Beat clock string string | Listing clock

fun registry_run :: "'w WorkerRegistry \<Rightarrow> registry_call list \<Rightarrow> 'w \<Rightarrow> 'w" where
  "registry_run S [] w = w"
| "registry_run S (Register clk r # cs) w = registry_run S cs (snd (reg_register S clk r w))"
| "registry_run S (Beat clk i g # cs) w = registry_run S cs (snd (reg_heartbeat S clk i g w))"
| "registry_run S (Listing clk # cs) w =
     (case dir_available_workers S clk w of None \<Rightarrow> w | Some (_, w') \<Rightarrow> registry_run S cs w')"

locale worker_registry =
  fixes S :: "'w WorkerRegistry"
    and members :: "'w \<Rightarrow> string \<rightharpoonup> WorkerRegistration"
    and invar :: "'w \<Rightarrow> bool"
  assumes register_ok: "invar w \<Longrightarrow> reg_register S clk r w = (Ok out, w') \<Longrightarrow>
      \<exists>E. out = registration_outcome (forget E (members w) (wr_worker_id r)) (wr_generation r)
        \<and> members w' = (if out = Idempotent then forget E (members w)
                         else (forget E (members w))(wr_worker_id r \<mapsto> r))"
    and register_err: "invar w \<Longrightarrow> reg_register S clk r w = (Err e, w') \<Longrightarrow>
      \<exists>E. members w' = forget E (members w) \<or> members w' = (forget E (members w))(wr_worker_id r \<mapsto> r)"
    and heartbeat_ok: "invar w \<Longrightarrow> reg_heartbeat S clk i g w = (Ok (), w') \<Longrightarrow>
      \<exists>E. members w' = forget E (members w) \<and> (\<exists>r. members w' i = Some r \<and> wr_generation r = g)"
    and heartbeat_err: "invar w \<Longrightarrow> reg_heartbeat S clk i g w = (Err he, w') \<Longrightarrow>
      \<exists>E. members w' = forget E (members w)
        \<and> (he = UnknownWorker \<longrightarrow> members w' i = None)
        \<and> (he = StaleGeneration \<longrightarrow> (\<exists>r. members w' i = Some r \<and> wr_generation r \<noteq> g))"
    and listing_ok: "invar w \<Longrightarrow> dir_available_workers S clk w = Some (Ok ids, w') \<Longrightarrow>
      (\<exists>E. members w' = forget E (members w)) \<and> sorted ids \<and> distinct ids
        \<and> dom (members w') \<subseteq> set ids \<and> set ids \<subseteq> dom (members w)"
    and listing_err: "invar w \<Longrightarrow> dir_available_workers S clk w = Some (Err e, w') \<Longrightarrow>
      \<exists>E. members w' = forget E (members w)"
    and listing_returns: "invar w \<Longrightarrow> dir_available_workers S clk w \<noteq> None"
    and invar_register: "invar w \<Longrightarrow> invar (snd (reg_register S clk r w))"
    and invar_heartbeat: "invar w \<Longrightarrow> invar (snd (reg_heartbeat S clk i g w))"
    and invar_listing: "invar w \<Longrightarrow> dir_available_workers S clk w = Some (x, w') \<Longrightarrow> invar w'"
    and members_id: "invar w \<Longrightarrow> members w i = Some r \<Longrightarrow> wr_worker_id r = i"
begin

text \<open>What one call does to the membership of one worker.\<close>

lemma register_member:
  assumes "invar w"
  shows "members (snd (reg_register S clk r w)) i = None
    \<or> members (snd (reg_register S clk r w)) i = members w i
    \<or> wr_worker_id r = i \<and> members (snd (reg_register S clk r w)) i = Some r"
proof -
  obtain x w' where x: "reg_register S clk r w = (x, w')" by fastforce
  show ?thesis
  proof (cases x)
    case (Inl e)
    from register_err [OF assms x [unfolded Inl]] obtain E where
      "members w' = forget E (members w) \<or> members w' = (forget E (members w))(wr_worker_id r \<mapsto> r)" ..
    with x show ?thesis by (auto simp: forget_apply split: if_splits)
  next
    case (Inr out)
    from register_ok [OF assms x [unfolded Inr]] obtain E where
      "members w' = (if out = Idempotent then forget E (members w)
         else (forget E (members w))(wr_worker_id r \<mapsto> r))" by blast
    with x show ?thesis by (auto simp: forget_apply split: if_splits)
  qed
qed

lemma heartbeat_forgets:
  assumes "invar w"
  shows "\<exists>E. members (snd (reg_heartbeat S clk i g w)) = forget E (members w)"
proof -
  obtain x w' where x: "reg_heartbeat S clk i g w = (x, w')" by fastforce
  show ?thesis
  proof (cases x)
    case (Inl e)
    from heartbeat_err [OF assms x [unfolded Inl]] x show ?thesis by auto
  next
    case (Inr u)
    with heartbeat_ok [OF assms, of clk i g w'] x show ?thesis by auto
  qed
qed

lemma listing_forgets:
  assumes "invar w" and "dir_available_workers S clk w = Some (x, w')"
  shows "\<exists>E. members w' = forget E (members w)"
  using listing_ok [OF assms(1), of clk _ w'] listing_err [OF assms(1), of clk _ w'] assms(2)
  by (cases x) blast+

lemma run_invar: "invar w \<Longrightarrow> invar (registry_run S cs w)"
proof (induction cs arbitrary: w)
  case (Cons c cs)
  then show ?case
    by (cases c) (auto simp: invar_register invar_heartbeat split: option.split dest: invar_listing)
qed simp

text \<open>A property of the registration of one worker that holds of every registration made on the way
  holds at the end.\<close>

lemma run_member:
  assumes "invar w" and "\<And>r. members w i = Some r \<Longrightarrow> P r"
    and "\<And>clk r. Register clk r \<in> set cs \<Longrightarrow> wr_worker_id r = i \<Longrightarrow> P r"
    and "members (registry_run S cs w) i = Some r"
  shows "P r"
  using assms
proof (induction cs arbitrary: w)
  case Nil
  then show ?case by simp
next
  case (Cons c cs)
  show ?case
  proof (cases c)
    case (Register clk r')
    have "P x" if "members (snd (reg_register S clk r' w)) i = Some x" for x
      using register_member [OF Cons.prems(1), of clk r' i] that Cons.prems(2,3) Register by auto
    from Cons.IH [OF invar_register [OF Cons.prems(1)] this] Cons.prems(3,4) Register show ?thesis by auto
  next
    case (Beat clk j g)
    have "P x" if "members (snd (reg_heartbeat S clk j g w)) i = Some x" for x
      using heartbeat_forgets [OF Cons.prems(1), of clk j g] that Cons.prems(2)
      by (auto simp: forget_apply split: if_splits)
    from Cons.IH [OF invar_heartbeat [OF Cons.prems(1)] this] Cons.prems(3,4) Beat show ?thesis by auto
  next
    case (Listing clk)
    show ?thesis
    proof (cases "dir_available_workers S clk w")
      case None
      with listing_returns [OF Cons.prems(1), of clk] show ?thesis by blast
    next
      case (Some xw)
      then obtain x w' where l: "dir_available_workers S clk w = Some (x, w')" by (cases xw) auto
      have "P x" if "members w' i = Some x" for x
        using listing_forgets [OF Cons.prems(1) l] that Cons.prems(2)
        by (auto simp: forget_apply split: if_splits)
      from Cons.IH [OF invar_listing [OF Cons.prems(1) l] this] Cons.prems(3,4) Listing l
      show ?thesis by auto
    qed
  qed
qed

text \<open>Fencing: a generation that is not the registered one is not heard until it registers again.\<close>

lemma fenced:
  assumes "invar w" and "\<And>r. members w i = Some r \<Longrightarrow> wr_generation r \<noteq> g"
    and "\<And>clk r. Register clk r \<in> set cs \<Longrightarrow> wr_worker_id r = i \<Longrightarrow> wr_generation r \<noteq> g"
  shows "\<not> is_ok (fst (reg_heartbeat S clk i g (registry_run S cs w)))"
proof
  let ?w = "registry_run S cs w"
  assume "is_ok (fst (reg_heartbeat S clk i g ?w))"
  then obtain w' where h: "reg_heartbeat S clk i g ?w = (Ok (), w')"
    by (cases "reg_heartbeat S clk i g ?w"; cases "fst (reg_heartbeat S clk i g ?w)") auto
  from heartbeat_ok [OF run_invar [OF assms(1)] h] obtain r where
    "members ?w i = Some r" "wr_generation r = g" by (auto simp: forget_apply split: if_splits)
  with run_member [OF assms(1), of i "\<lambda>r. wr_generation r \<noteq> g" cs r] assms(2,3) show False by blast
qed

text \<open>A registration that was replaced is such a generation.\<close>

lemma replaced_is_fenced:
  assumes "invar w" and "reg_register S clk r w = (Ok out, w1)" and "wr_generation r \<noteq> g"
    and "\<And>clk x. Register clk x \<in> set cs \<Longrightarrow> wr_worker_id x = wr_worker_id r \<Longrightarrow> wr_generation x \<noteq> g"
  shows "\<not> is_ok (fst (reg_heartbeat S clk' (wr_worker_id r) g (registry_run S cs w1)))"
proof (rule fenced)
  show "invar w1" using invar_register [OF assms(1), of clk r] assms(2) by simp
  fix x
  assume "members w1 (wr_worker_id r) = Some x"
  with register_ok [OF assms(1,2)] assms(3) show "wr_generation x \<noteq> g"
    by (auto simp: registration_outcome_def split: if_splits option.splits)
qed (use assms(4) in blast)

text \<open>A listing names registered workers only.\<close>

lemma listed_was_registered:
  assumes "invar w" and "dir_available_workers S clk (registry_run S cs w) = Some (Ok ids, w')"
    and "i \<in> set ids"
  shows "members w i \<noteq> None \<or> (\<exists>clk r. Register clk r \<in> set cs \<and> wr_worker_id r = i)"
proof (rule ccontr)
  assume no: "\<not> ?thesis"
  obtain r where "members (registry_run S cs w) i = Some r"
    using listing_ok [OF run_invar [OF assms(1)] assms(2)] assms(3) by blast
  with no run_member [OF assms(1), of i "\<lambda>_. False" cs r] show False by blast
qed

end

section \<open>The registry in memory satisfies the contract\<close>

text \<open>The monotonic clock is part of the world: it never goes back, so a reading is at least the last
  one.\<close>

definition monotonic :: "instant \<Rightarrow> clock \<Rightarrow> clock" where
  "monotonic t clk = clk\<lparr>cl_now := max t (cl_now clk), cl_then := max t (max (cl_now clk) (cl_then clk))\<rparr>"

definition timed_memory_registry :: "(MemoryWorkerRegistry \<times> instant) WorkerRegistry" where
  "timed_memory_registry =
     \<lparr>dir_available_workers = (\<lambda>clk (m, t).
        map_option (\<lambda>(r, m'). (r, (m', cl_now (monotonic t clk))))
          (dir_available_workers memory_worker_registry (monotonic t clk) m)),
      reg_register = (\<lambda>clk r (m, t).
        case reg_register memory_worker_registry (monotonic t clk) r m of (x, m') \<Rightarrow> (x, (m', cl_now (monotonic t clk)))),
      reg_heartbeat = (\<lambda>clk i g (m, t).
        case reg_heartbeat memory_worker_registry (monotonic t clk) i g m of (x, m') \<Rightarrow> (x, (m', cl_now (monotonic t clk))))\<rparr>"

definition memory_members :: "MemoryWorkerRegistry \<times> instant \<Rightarrow> string \<rightharpoonup> WorkerRegistration" where
  "memory_members = (\<lambda>(m, t) i. map_option (\<lambda>e. rw_registration (me_worker e)) (live_entry t i m))"

definition memory_invar :: "MemoryWorkerRegistry \<times> instant \<Rightarrow> bool" where
  "memory_invar = (\<lambda>(m, t). 0 < mwr_membership_ttl m
     \<and> (\<forall>i e. fmlookup (mwr_workers m) i = Some e \<longrightarrow> wr_worker_id (rw_registration (me_worker e)) = i))"

lemma live_entry_put:
  "live_entry t i (put_entry j e m) =
     (if i = j then if me_expires_at e > t then Some e else None else live_entry t i m)"
  by (simp add: live_entry_def put_entry_def)

lemma memory_members_later:
  assumes "t \<le> t'"
  shows "memory_members (m, t') = forget {i. live_entry t' i m = None} (memory_members (m, t))"
  using assms by (auto simp: fun_eq_iff forget_apply memory_members_def live_entry_def split: option.splits)

lemma monotonic_le: "t \<le> cl_now (monotonic t clk)" "cl_now (monotonic t clk) \<le> cl_then (monotonic t clk)"
  by (simp_all add: monotonic_def)

lemma memory_members_put:
  "memory_members (put_entry j e m, t) = (memory_members (m, t))(j := 
     (if me_expires_at e > t then Some (rw_registration (me_worker e)) else None))"
  by (auto simp: fun_eq_iff memory_members_def live_entry_put)

lemma memory_invar_put:
  "memory_invar (m, t) \<Longrightarrow> wr_worker_id (rw_registration (me_worker e)) = j \<Longrightarrow>
   memory_invar (put_entry j e m, t')"
  by (auto simp: memory_invar_def put_entry_def)

lemma memory_invar_later: "memory_invar (m, t) \<Longrightarrow> memory_invar (m, t')"
  by (simp add: memory_invar_def)

lemma memory_register_spec:
  assumes "memory_invar (m, t)" and "memory_register (monotonic t clk) r m = (x, m')"
  defines "t' \<equiv> cl_now (monotonic t clk)"
  shows "memory_invar (m', t') \<and> (case x of
      Err e \<Rightarrow> memory_members (m', t') = memory_members (m, t')
    | Ok out \<Rightarrow> out = registration_outcome (memory_members (m, t') (wr_worker_id r)) (wr_generation r)
        \<and> memory_members (m', t') = (if out = Idempotent then memory_members (m, t')
            else (memory_members (m, t'))(wr_worker_id r \<mapsto> r)))"
proof -
  have ttl: "t' < cl_then (monotonic t clk) + mwr_membership_ttl m"
    using assms(1) monotonic_le(2) [of t clk] by (simp add: memory_invar_def t'_def)
  show ?thesis
  proof (cases "live_entry t' (wr_worker_id r) m")
    case None
    then have "memory_members (m, t') (wr_worker_id r) = None" by (simp add: memory_members_def)
    with None assms(1,2) ttl show ?thesis
      by (auto simp: memory_register_def t'_def [symmetric] memory_members_put new_entry_def expiry_def
          registration_outcome_def memory_invar_put memory_invar_later split: if_splits)
  next
    case (Some e)
    then have e: "memory_members (m, t') (wr_worker_id r) = Some (rw_registration (me_worker e))"
        "wr_worker_id (rw_registration (me_worker e)) = wr_worker_id r"
      using assms(1) by (auto simp: memory_members_def memory_invar_def live_entry_def split: option.splits if_splits)
    with Some assms(1,2) ttl show ?thesis
      by (auto simp: memory_register_def t'_def [symmetric] memory_members_put new_entry_def expiry_def
          registration_outcome_def memory_invar_put memory_invar_later fun_upd_idem split: if_splits)
  qed
qed

lemma memory_heartbeat_spec:
  assumes "memory_invar (m, t)" and "memory_heartbeat (monotonic t clk) i g m = (x, m')"
  defines "t' \<equiv> cl_now (monotonic t clk)"
  shows "memory_invar (m', t') \<and> memory_members (m', t') = memory_members (m, t')
    \<and> (case x of
        Ok _ \<Rightarrow> \<exists>r. memory_members (m, t') i = Some r \<and> wr_generation r = g
      | Err UnknownWorker \<Rightarrow> memory_members (m, t') i = None
      | Err StaleGeneration \<Rightarrow> \<exists>r. memory_members (m, t') i = Some r \<and> wr_generation r \<noteq> g
      | Err RegistryUnavailable \<Rightarrow> True)"
proof -
  have ttl: "t' < cl_then (monotonic t clk) + mwr_membership_ttl m"
    using assms(1) monotonic_le(2) [of t clk] by (simp add: memory_invar_def t'_def)
  show ?thesis
  proof (cases "live_entry t' i m")
    case None
    then have "memory_members (m, t') i = None" by (simp add: memory_members_def)
    with None assms(1,2) show ?thesis
      by (auto simp: memory_heartbeat_def t'_def [symmetric] memory_invar_later split: if_splits)
  next
    case (Some e)
    then have e: "memory_members (m, t') i = Some (rw_registration (me_worker e))"
        "wr_worker_id (rw_registration (me_worker e)) = i"
      using assms(1) by (auto simp: memory_members_def memory_invar_def live_entry_def split: option.splits if_splits)
    with Some assms(1,2) ttl show ?thesis
      by (auto simp: memory_heartbeat_def t'_def [symmetric] memory_members_put expiry_def
          memory_invar_put memory_invar_later fun_upd_idem split: if_splits)
  qed
qed

lemma memory_listing_spec:
  assumes "memory_invar (m, t)" and "memory_available_workers (monotonic t clk) m = (x, m')"
  defines "t' \<equiv> cl_now (monotonic t clk)"
  shows "memory_invar (m', t') \<and> memory_members (m', t') = memory_members (m, t')
    \<and> (case x of Ok ids \<Rightarrow> sorted ids \<and> distinct ids \<and> set ids = dom (memory_members (m, t')) | Err _ \<Rightarrow> True)"
proof (cases "mwr_poisoned m")
  case True
  with assms(1,2) show ?thesis by (auto simp: memory_available_workers_def memory_invar_later)
next
  case False
  let ?ws = "fmfilter (\<lambda>i. live_entry t' i m \<noteq> None) (mwr_workers m)"
  have m': "x = Ok (sorted_list_of_fset (fmdom ?ws))" "m' = m\<lparr>mwr_workers := ?ws\<rparr>"
    using False assms(2) by (auto simp: memory_available_workers_def Let_def t'_def [symmetric])
  have live: "live_entry t' i m' = live_entry t' i m" for i
    by (auto simp: m' live_entry_def split: option.splits)
  have "fset (fmdom ?ws) = dom (memory_members (m, t'))"
    by (auto simp: memory_members_def live_entry_def fmdom'_alt_def [symmetric] fmlookup_dom'_iff
        split: option.splits if_splits)
  moreover have "memory_invar (m', t')"
    using assms(1) by (auto simp: m' memory_invar_def)
  moreover have "memory_members (m', t') = memory_members (m, t')"
    by (simp add: memory_members_def live fun_eq_iff)
  ultimately show ?thesis unfolding m'(1) by (simp del: fmdom_filter)
qed

lemmas timed_defs = timed_memory_registry_def memory_worker_registry_def

interpretation memory_registry: worker_registry timed_memory_registry memory_members memory_invar
proof (unfold_locales, goal_cases)
  case (1 w clk r out w')
  obtain m t where w: "w = (m, t)" by fastforce
  let ?t = "cl_now (monotonic t clk)"
  from 1(2) w obtain m' where m': "memory_register (monotonic t clk) r m = (Ok out, m')" "w' = (m', ?t)"
    by (auto simp: timed_defs split: prod.splits)
  from memory_register_spec [OF 1(1) [unfolded w] m'(1)]
  show ?case unfolding w m'(2) memory_members_later [OF monotonic_le(1) [of t clk], symmetric]
    using memory_members_later [OF monotonic_le(1) [of t clk], of m]
    by (intro exI [of _ "{i. live_entry ?t i m = None}"]) simp
next
  case (2 w clk r e w')
  obtain m t where w: "w = (m, t)" by fastforce
  let ?t = "cl_now (monotonic t clk)"
  from 2(2) w obtain m' where m': "memory_register (monotonic t clk) r m = (Err e, m')" "w' = (m', ?t)"
    by (auto simp: timed_defs split: prod.splits)
  from memory_register_spec [OF 2(1) [unfolded w] m'(1)] show ?case
    using memory_members_later [OF monotonic_le(1) [of t clk], of m] w m'(2) by auto
next
  case (3 w clk i g w')
  obtain m t where w: "w = (m, t)" by fastforce
  let ?t = "cl_now (monotonic t clk)"
  from 3(2) w obtain m' where m': "memory_heartbeat (monotonic t clk) i g m = (Ok (), m')" "w' = (m', ?t)"
    by (auto simp: timed_defs split: prod.splits)
  from memory_heartbeat_spec [OF 3(1) [unfolded w] m'(1)] show ?case
    using memory_members_later [OF monotonic_le(1) [of t clk], of m] w m'(2) by auto
next
  case (4 w clk i g he w')
  obtain m t where w: "w = (m, t)" by fastforce
  let ?t = "cl_now (monotonic t clk)"
  from 4(2) w obtain m' where m': "memory_heartbeat (monotonic t clk) i g m = (Err he, m')" "w' = (m', ?t)"
    by (auto simp: timed_defs split: prod.splits)
  from memory_heartbeat_spec [OF 4(1) [unfolded w] m'(1)] show ?case
    using memory_members_later [OF monotonic_le(1) [of t clk], of m] w m'(2)
    by (auto split: HeartbeatError.splits)
next
  case (5 w clk ids w')
  obtain m t where w: "w = (m, t)" by fastforce
  let ?t = "cl_now (monotonic t clk)"
  from 5(2) w obtain m' where m': "memory_available_workers (monotonic t clk) m = (Ok ids, m')" "w' = (m', ?t)"
    by (auto simp: timed_defs split: prod.splits)
  have later: "memory_members (m, ?t) = forget {i. live_entry ?t i m = None} (memory_members (m, t))"
    by (rule memory_members_later [OF monotonic_le(1)])
  then have "dom (memory_members (m, ?t)) \<subseteq> dom (memory_members (m, t))" by (auto simp: dom_forget)
  with memory_listing_spec [OF 5(1) [unfolded w] m'(1)] later show ?case unfolding w m'(2) by auto
next
  case (6 w clk e w')
  obtain m t where w: "w = (m, t)" by fastforce
  let ?t = "cl_now (monotonic t clk)"
  from 6(2) w obtain m' where m': "memory_available_workers (monotonic t clk) m = (Err e, m')" "w' = (m', ?t)"
    by (auto simp: timed_defs split: prod.splits)
  from memory_listing_spec [OF 6(1) [unfolded w] m'(1)] show ?case
    using memory_members_later [OF monotonic_le(1) [of t clk], of m] w m'(2) by auto
next
  case (7 w clk)
  then show ?case by (cases w) (simp add: timed_defs)
next
  case (8 w clk r)
  obtain m t where w: "w = (m, t)" by fastforce
  obtain x m' where "memory_register (monotonic t clk) r m = (x, m')" by fastforce
  with memory_register_spec [OF 8 [unfolded w] this] show ?case by (simp add: w timed_defs)
next
  case (9 w clk i g)
  obtain m t where w: "w = (m, t)" by fastforce
  obtain x m' where "memory_heartbeat (monotonic t clk) i g m = (x, m')" by fastforce
  with memory_heartbeat_spec [OF 9 [unfolded w] this] show ?case by (simp add: w timed_defs)
next
  case (10 w clk x w')
  obtain m t where w: "w = (m, t)" by fastforce
  obtain y m' where "memory_available_workers (monotonic t clk) m = (y, m')" by fastforce
  with memory_listing_spec [OF 10(1) [unfolded w] this] 10(2) show ?case by (auto simp: w timed_defs)
next
  case (11 w i r)
  then show ?case
    by (auto simp: memory_members_def memory_invar_def live_entry_def split: option.splits if_splits)
qed

end
