(* ===== verification/Worker_Identity.thy ===== *)
theory Worker_Identity
  imports Worker_Registry
begin

text \<open>
  The identifiers of the worker registry: the incarnation identifier is unambiguous and is read back as
  the worker and generation it was made of, and the \<open>SCAN\<close> pattern matches exactly the keys of the
  workers, whatever characters the configured prefix has.
\<close>

section \<open>Incarnation identifiers\<close>

lemma colon_not_digit: "CHR '':'' \<notin> set (show_nat n)"
  by (rule show_nat_no_char) (simp add: byte_def)

lemma show_nat_inj: "show_nat m = show_nat n \<longleftrightarrow> m = n"
  using parse_digits_show_nat by (metis option.inject)

lemma split_incarnation:
  "split_once (CHR '':'') (worker_incarnation_id w g) = Some (show_nat (length w), w @ g)"
  unfolding worker_incarnation_id_def using split_once_append [OF colon_not_digit] by simp

lemma parse_incarnation:
  assumes "w \<noteq> []" and "g \<noteq> []" and "length w < 2 ^ 64" and "is_char_boundary (w @ g) (length w)"
  shows "parse_worker_incarnation_id (worker_incarnation_id w g) = Some (w, g)"
  using assms(1,2,4) parse_unsigned_show_nat [OF assms(3)]
  by (simp add: parse_worker_incarnation_id_def split_incarnation)

text \<open>Incarnation identifiers are unambiguous: two workers with generations share an identifier only
  if both the worker and the generation are the same, even where one identifier is a prefix of the
  other or they contain colons.\<close>

lemma incarnation_id_unambiguous:
  "worker_incarnation_id w g = worker_incarnation_id w' g' \<longleftrightarrow> w = w' \<and> g = g'"
proof
  assume eq: "worker_incarnation_id w g = worker_incarnation_id w' g'"
  have "show_nat (length w) = show_nat (length w')" "w @ g = w' @ g'"
    using split_incarnation [of w g] split_incarnation [of w' g'] eq by auto
  then show "w = w' \<and> g = g'" by (simp add: show_nat_inj)
qed simp

text \<open>C35. Core reads a heartbeat's identifier back as the worker and the generation that sent it, for
  every non-empty worker identifier and generation.\<close>

theorem incarnation_id_round_trip:
  assumes "w \<noteq> []" and "g \<noteq> []" and "length w < 2 ^ 64" and "is_char_boundary (w @ g) (length w)"
  shows "parse_worker_incarnation_id (worker_incarnation_id w g) = Some (w, g)"
  using assms by (rule parse_incarnation)

theorem incarnation_id_round_trip_witness:
  "parse_worker_incarnation_id (worker_incarnation_id ''a:1'' ''2:b'') = Some (''a:1'', ''2:b'')"
  by (rule incarnation_id_round_trip) (simp_all add: is_char_boundary_def byte_def)

text \<open>C36. What is accepted as an incarnation identifier is a decimal length, a colon, and a worker
  identifier of that length followed by a generation, both non-empty; anything else is refused.\<close>

theorem incarnation_id_parse_sound:
  assumes "parse_worker_incarnation_id v = Some (w, g)"
  shows "\<exists>len. v = len @ '':'' @ w @ g \<and> parse_unsigned 64 len = Some (length w)
    \<and> w \<noteq> [] \<and> g \<noteq> [] \<and> is_char_boundary (w @ g) (length w)"
  using assms
  by (auto simp: parse_worker_incarnation_id_def Let_def split_once_Some_iff min_def
      split: option.splits if_splits)

theorem incarnation_id_parse_sound_witness:
  "\<exists>len. ''3:abcxyz'' = len @ '':'' @ ''abc'' @ ''xyz'' \<and> parse_unsigned 64 len = Some (length ''abc'')
    \<and> ''abc'' \<noteq> [] \<and> ''xyz'' \<noteq> [] \<and> is_char_boundary (''abc'' @ ''xyz'') (length ''abc'')"
  by (rule incarnation_id_parse_sound)
    (simp add: parse_worker_incarnation_id_def parse_unsigned_def digit_value_def is_char_boundary_def byte_def)

section \<open>The pattern of the worker keys\<close>

text \<open>The four replacements in a row do what one pass does.\<close>

lemma escape_simps:
  "escape_redis_pattern [] = []"
  "escape_redis_pattern (c # s) = (if special c then [CHR 0x5C, c] else [c]) @ escape_redis_pattern s"
  by (simp_all add: escape_redis_pattern_def replace_char_def special_def)

lemma match_literal:
  assumes "patterns_ok R"
  shows "rd_match R ((if special c then [CHR 0x5C, c] else [c]) @ p) k
    \<longleftrightarrow> (\<exists>k'. k = c # k' \<and> rd_match R p k')"
  using assms unfolding patterns_ok_def by simp

lemma match_escape:
  assumes "patterns_ok R"
  shows "rd_match R (escape_redis_pattern s @ p) k \<longleftrightarrow> (\<exists>k'. k = s @ k' \<and> rd_match R p k')"
proof (induction s arbitrary: k)
  case Nil
  then show ?case by (simp add: escape_simps)
next
  case (Cons c s)
  have "rd_match R (escape_redis_pattern (c # s) @ p) k
      \<longleftrightarrow> rd_match R ((if special c then [CHR 0x5C, c] else [c]) @ escape_redis_pattern s @ p) k"
    by (simp only: escape_simps append_assoc)
  also have "\<dots> \<longleftrightarrow> (\<exists>k'. k = c # k' \<and> rd_match R (escape_redis_pattern s @ p) k')"
    by (rule match_literal [OF assms])
  also have "\<dots> \<longleftrightarrow> (\<exists>k'. k = (c # s) @ k' \<and> rd_match R p k')" using Cons by auto
  finally show ?case .
qed

lemma worker_key_matches:
  assumes "redis_ok R"
  shows "rd_match R (worker_pattern c) k \<longleftrightarrow> (\<exists>w. k = worker_key c w)"
proof -
  have p: "patterns_ok R" by (rule redis_okD(6) [OF assms])
  have esc: "escape_redis_pattern '':worker:'' = '':worker:''"
    by (simp add: escape_simps special_def)
  have pat: "worker_pattern c
      = escape_redis_pattern (rwg_key_prefix c) @ escape_redis_pattern '':worker:'' @ ''*''"
    unfolding worker_pattern_def esc by simp
  have star: "rd_match R ''*'' x" for x using p unfolding patterns_ok_def by (rule conjunct1 [THEN spec])
  have "rd_match R (worker_pattern c) k
      \<longleftrightarrow> (\<exists>k'. k = rwg_key_prefix c @ k' \<and> rd_match R (escape_redis_pattern '':worker:'' @ ''*'') k')"
    unfolding pat by (rule match_escape [OF p])
  also have "\<dots> \<longleftrightarrow> (\<exists>w. k = rwg_key_prefix c @ '':worker:'' @ w)"
    unfolding match_escape [OF p, of "'':worker:''"] using star by blast
  finally show ?thesis unfolding worker_key_def .
qed

text \<open>C37. The listing finds workers whatever the configured key prefix: the pattern sent to Redis
  matches a key exactly when it is the key of some worker of this registry, also when the prefix
  contains wildcards or backslashes.\<close>

theorem worker_pattern_exact:
  assumes "redis_ok R"
  shows "rd_match R (worker_pattern c) k \<longleftrightarrow> (\<exists>w. k = worker_key c w)"
  by (rule worker_key_matches [OF assms])

theorem worker_pattern_exact_witness:
  "rd_match reference_redis (worker_pattern \<lparr>rwg_key_prefix = ''a*[b'', rwg_membership_ttl = 1\<rparr>) ''a*[b:worker:w1''
   \<and> \<not> rd_match reference_redis (worker_pattern \<lparr>rwg_key_prefix = ''a*[b'', rwg_membership_ttl = 1\<rparr>) ''axx[b:worker:w1''"
  unfolding worker_pattern_exact [OF reference_redis_ok] by (simp add: worker_key_def)

end
