(* ===== verification/Worker_Membership_Redis.thy ===== *)
theory Worker_Membership_Redis
  imports Worker_Membership Worker_Identity
begin

text \<open>
  The Redis registry satisfies the contract of a worker registry over any Redis and wire format that
  behave as documented, with lost requests, lost replies and expiring keys: the Lua scripts have the
  effect of the operations in memory, and the \<open>SCAN\<close> loop ends and lists every worker that is a member
  throughout.
\<close>

section \<open>The members a keyspace represents\<close>

definition worker_hash :: "wire \<Rightarrow> WorkerRegistration \<Rightarrow> (string \<rightharpoonup> bytes) \<Rightarrow> bool" where
  "worker_hash W r h \<longleftrightarrow>
     h ''generation'' = Some (wr_generation r) \<and> h ''registration'' = Some (encode_registration W r)"

definition registry_members :: "wire \<Rightarrow> RedisWorkerRegistry \<Rightarrow> keyspace \<Rightarrow> string \<rightharpoonup> WorkerRegistration" where
  "registry_members W c v i =
     (case ks_value v (worker_key c i) of
        Some (RHash h) \<Rightarrow>
          (case h ''registration'' of
             None \<Rightarrow> None
           | Some b \<Rightarrow> (case decode_registration W b of Ok r \<Rightarrow> Some r | Err _ \<Rightarrow> None))
      | _ \<Rightarrow> None)"

text \<open>Every key of the registry is absent or the hash of a registration of that worker; the keyspace is
  finite and the time to live at least a millisecond.\<close>

definition registry_wf :: "wire \<Rightarrow> RedisWorkerRegistry \<Rightarrow> keyspace \<Rightarrow> bool" where
  "registry_wf W c v \<longleftrightarrow> finite (dom (ks_value v)) \<and> 0 < ttl_millis c
     \<and> (\<forall>i. ks_value v (worker_key c i) = None
         \<or> (\<exists>h r. ks_value v (worker_key c i) = Some (RHash h) \<and> worker_hash W r h \<and> wr_worker_id r = i))"

lemma worker_key_inj [simp]: "worker_key c i = worker_key c j \<longleftrightarrow> i = j"
  by (simp add: worker_key_def)

lemma registry_wf_cases:
  assumes "wire_ok W" and "registry_wf W c v"
  obtains "ks_value v (worker_key c i) = None" "registry_members W c v i = None"
  | h r where "ks_value v (worker_key c i) = Some (RHash h)" "worker_hash W r h" "wr_worker_id r = i"
      "registry_members W c v i = Some r"
proof (cases "ks_value v (worker_key c i)")
  case None
  with that(1) show thesis by (simp add: registry_members_def)
next
  case (Some x)
  with assms(2) obtain h r where h: "ks_value v (worker_key c i) = Some (RHash h)" "worker_hash W r h"
      "wr_worker_id r = i"
    unfolding registry_wf_def by (metis option.distinct(1))
  then have "registry_members W c v i = Some r"
    by (simp add: registry_members_def worker_hash_def wire_okD [OF assms(1)])
  with h that(2) show thesis by blast
qed

lemma registry_members_cong:
  "ks_value v = ks_value v' \<Longrightarrow> registry_members W c v = registry_members W c v'"
  by (simp add: registry_members_def fun_eq_iff)

lemma registry_wf_cong: "ks_value v = ks_value v' \<Longrightarrow> registry_wf W c v = registry_wf W c v'"
  by (simp add: registry_wf_def)

lemma registry_later:
  assumes "registry_wf W c v"
  shows "registry_wf W c (later t v)"
    "\<exists>E. registry_members W c (later t v) = forget E (registry_members W c v)"
proof -
  have sub: "ks_value (later t v) k = None \<or> ks_value (later t v) k = ks_value v k" for k
    by (simp add: later_def Let_def)
  have "dom (ks_value (later t v)) \<subseteq> dom (ks_value v)"
    by (auto simp: later_def Let_def split: if_splits)
  then have "finite (dom (ks_value (later t v)))"
    using assms finite_subset by (auto simp: registry_wf_def)
  moreover have "ks_value (later t v) (worker_key c i) = None
      \<or> (\<exists>h r. ks_value (later t v) (worker_key c i) = Some (RHash h) \<and> worker_hash W r h \<and> wr_worker_id r = i)" for i
    using sub [of "worker_key c i"] assms unfolding registry_wf_def by metis
  ultimately show "registry_wf W c (later t v)" using assms by (simp add: registry_wf_def)
  have "registry_members W c (later t v)
      = forget {i. ks_value (later t v) (worker_key c i) = None} (registry_members W c v)"
  proof
    fix i
    show "registry_members W c (later t v) i
        = forget {i. ks_value (later t v) (worker_key c i) = None} (registry_members W c v) i"
      using sub [of "worker_key c i"] by (auto simp: forget_apply registry_members_def)
  qed
  then show "\<exists>E. registry_members W c (later t v) = forget E (registry_members W c v)" ..
qed

lemma registry_put:
  assumes "wire_ok W" and "registry_wf W c v" and "worker_hash W r h" and "wr_worker_id r = i"
    and "ks_value v' = (ks_value v)(worker_key c i \<mapsto> RHash h)"
  shows "registry_wf W c v'" "registry_members W c v' = (registry_members W c v)(i \<mapsto> r)"
proof -
  show "registry_wf W c v'" using assms by (auto simp: registry_wf_def)
  show "registry_members W c v' = (registry_members W c v)(i \<mapsto> r)"
    using assms(3,5) by (auto simp: registry_members_def fun_eq_iff worker_hash_def wire_okD [OF assms(1)])
qed

lemma hset_effect_value:
  "as_hash (ks_value v k) = Some h \<Longrightarrow> ks_value (hset_effect k fvs v) = (ks_value v)(k \<mapsto> RHash (h ++ map_of (rev fvs)))"
  by (auto simp: hset_effect_def as_hash_def split: option.splits rvalue.splits)

lemma pexpire_value:
  assumes "redis_ok R" and "0 < ms" and "rd_pexpire R k ms s = (res, s')"
  shows "ks_value (rd_view R s') = ks_value (rd_view R s)"
proof -
  from redis_okD(5) [OF assms(1)]
  have "if ks_clock (rd_view R s) + ms < 2 ^ 63
      then (\<exists>n. replies R (rd_pexpire R k ms s) n (pexpire_effect k ms (rd_view R s)))
      else refuses R (rd_pexpire R k ms s) s"
    unfolding keys_ok_def by blast
  with assms(2,3) show ?thesis
    by (auto simp: replies_def refuses_def pexpire_effect_def split: if_splits)
qed

section \<open>The scripts\<close>

text \<open>A script ends with \<open>PEXPIRE\<close>, which may refuse the time to live.\<close>

lemma register_script_effect:
  assumes ok: "redis_ok R" "wire_ok W" and wf: "registry_wf W c (rd_view R s)" and i: "i = wr_worker_id r"
    and run: "register_script R (worker_key c i) (wr_generation r) (encode_registration W r) now
      (ttl_millis c) s = (res, s')"
  defines "m \<equiv> registry_members W c (rd_view R s)" and "m' \<equiv> registry_members W c (rd_view R s')"
  defines "out \<equiv> registration_outcome (m i) (wr_generation r)"
  shows "registry_wf W c (rd_view R s')
    \<and> m' = (if out = Idempotent then m else m(i \<mapsto> r))
    \<and> (\<forall>n. res = Ok n \<longrightarrow> n = (case out of New \<Rightarrow> 0 | Idempotent \<Rightarrow> 1 | Replaced \<Rightarrow> 2))"
proof -
  let ?k = "worker_key c i"
  let ?fvs = "[(''generation'', wr_generation r), (''registration'', encode_registration W r),
      (''registered_at_ms'', now), (''last_heartbeat_at_ms'', '''')]"
  have ttl: "0 < ttl_millis c" using wf by (simp add: registry_wf_def)
  obtain h where h: "as_hash (ks_value (rd_view R s) ?k) = Some h"
      "out = (if h ''generation'' = Some (wr_generation r) then Idempotent
         else if h ''generation'' = None then New else Replaced)"
    by (cases rule: registry_wf_cases [OF ok(2) wf, of i])
      (auto simp: out_def m_def registration_outcome_def worker_hash_def)
  obtain s1 where s1: "rd_hget R ?k ''generation'' s = (Ok (h ''generation''), s1)"
      "rd_view R s1 = rd_view R s"
    using hget_reply [OF ok(1) h(1)] by blast
  show ?thesis
  proof (cases "h ''generation'' = Some (wr_generation r)")
    case True
    obtain x s2 where p: "rd_pexpire R ?k (ttl_millis c) s1 = (x, s2)" by fastforce
    have "ks_value (rd_view R s2) = ks_value (rd_view R s)"
      using pexpire_value [OF ok(1) ttl p] s1(2) by simp
    then have "registry_wf W c (rd_view R s2)" "registry_members W c (rd_view R s2) = m"
      using wf registry_wf_cong registry_members_cong unfolding m_def by blast+
    with True p s1 run h(2) show ?thesis
      by (cases x) (auto simp: register_script_def m'_def)
  next
    case False
    have h1: "as_hash (ks_value (rd_view R s1) ?k) = Some h" using h(1) s1(2) by simp
    obtain n s2 where s2: "rd_hset R ?k ?fvs s1 = (Ok n, s2)"
        "rd_view R s2 = hset_effect ?k ?fvs (rd_view R s1)"
      using hset_reply [OF ok(1) h1] by blast
    obtain x s3 where p: "rd_pexpire R ?k (ttl_millis c) s2 = (x, s3)" by fastforce
    have "ks_value (rd_view R s3) = (ks_value (rd_view R s))(?k \<mapsto> RHash (h ++ map_of (rev ?fvs)))"
      using pexpire_value [OF ok(1) ttl p] s2(2) s1(2) hset_effect_value [OF h(1), of ?fvs] by simp
    from registry_put [OF ok(2) wf _ i [symmetric] this]
    have "registry_wf W c (rd_view R s3)" "registry_members W c (rd_view R s3) = m(i \<mapsto> r)"
      by (simp_all add: worker_hash_def m_def)
    with False p s1 s2 run h(2) show ?thesis
      by (cases x) (auto simp: register_script_def m'_def)
  qed
qed

lemma heartbeat_script_effect:
  assumes ok: "redis_ok R" "wire_ok W" and wf: "registry_wf W c (rd_view R s)"
    and run: "heartbeat_script R (worker_key c i) g now (ttl_millis c) s = (res, s')"
  defines "m \<equiv> registry_members W c (rd_view R s)"
  shows "registry_wf W c (rd_view R s') \<and> registry_members W c (rd_view R s') = m
    \<and> (\<forall>n. res = Ok n \<longrightarrow> n = (case m i of None \<Rightarrow> 0 | Some r \<Rightarrow> if wr_generation r = g then 2 else 1))"
proof -
  let ?k = "worker_key c i"
  have ttl: "0 < ttl_millis c" using wf by (simp add: registry_wf_def)
  show ?thesis
  proof (cases rule: registry_wf_cases [OF ok(2) wf, of i])
    case 1
    then obtain s1 where "rd_hget R ?k ''generation'' s = (Ok None, s1)" "rd_view R s1 = rd_view R s"
      using hget_reply [OF ok(1), of s ?k Map.empty] by auto
    with 1 run wf show ?thesis by (auto simp: heartbeat_script_def m_def)
  next
    case (2 h r)
    then have h: "as_hash (ks_value (rd_view R s) ?k) = Some h" by simp
    obtain s1 where s1: "rd_hget R ?k ''generation'' s = (Ok (Some (wr_generation r)), s1)"
        "rd_view R s1 = rd_view R s"
      using hget_reply [OF ok(1) h, of "''generation''"] 2(2) by (auto simp: worker_hash_def)
    show ?thesis
    proof (cases "wr_generation r = g")
      case False
      with 2 s1 run wf show ?thesis by (auto simp: heartbeat_script_def m_def)
    next
      case True
      let ?fvs = "[(''last_heartbeat_at_ms'', now)]"
      have h1: "as_hash (ks_value (rd_view R s1) ?k) = Some h" using h s1(2) by simp
      obtain n s2 where s2: "rd_hset R ?k ?fvs s1 = (Ok n, s2)"
          "rd_view R s2 = hset_effect ?k ?fvs (rd_view R s1)"
        using hset_reply [OF ok(1) h1] by blast
      obtain x s3 where p: "rd_pexpire R ?k (ttl_millis c) s2 = (x, s3)" by fastforce
      have "ks_value (rd_view R s3) = (ks_value (rd_view R s))(?k \<mapsto> RHash (h ++ map_of (rev ?fvs)))"
        using pexpire_value [OF ok(1) ttl p] s2(2) s1(2) hset_effect_value [OF h, of ?fvs] by simp
      from registry_put [OF ok(2) wf _ 2(3) this] 2
      have "registry_wf W c (rd_view R s3)" "registry_members W c (rd_view R s3) = m"
        by (simp_all add: worker_hash_def m_def fun_upd_idem)
      with True 2 p s1 s2 run show ?thesis
        by (cases x) (auto simp: heartbeat_script_def m_def)
    qed
  qed
qed

section \<open>The operations\<close>

context redis_deployment
begin

abbreviation members_in :: "RedisWorkerRegistry \<Rightarrow> 'd \<Rightarrow> string \<rightharpoonup> WorkerRegistration" where
  "members_in c s \<equiv> registry_members W c (rd_view R s)"

abbreviation rwf_in :: "RedisWorkerRegistry \<Rightarrow> 'd \<Rightarrow> bool" where
  "rwf_in c s \<equiv> registry_wf W c (rd_view R s)"

text \<open>A state in which only time has passed.\<close>

definition aged :: "RedisWorkerRegistry \<Rightarrow> 'd \<Rightarrow> 'd \<Rightarrow> bool" where
  "aged c s s' \<longleftrightarrow> rwf_in c s' \<and> (\<exists>E. members_in c s' = forget E (members_in c s))"

lemma aged_later: "rwf_in c s \<Longrightarrow> rd_view R s' = later t (rd_view R s) \<Longrightarrow> aged c s s'"
  using registry_later [of W c "rd_view R s" t] by (simp add: aged_def)

lemma aged_refl: "rwf_in c s \<Longrightarrow> aged c s s"
  unfolding aged_def by (metis forget_empty)

lemma aged_trans: "aged c s s' \<Longrightarrow> aged c s' s'' \<Longrightarrow> aged c s s''"
  unfolding aged_def by (metis forget_forget)

lemma aged_dom: "aged c s s' \<Longrightarrow> dom (members_in c s') \<subseteq> dom (members_in c s)"
  by (auto simp: aged_def forget_apply split: if_splits)

lemma connect_aged: "rwf_in c s \<Longrightarrow> connect R s = (x, s') \<Longrightarrow> aged c s s'"
  using connect_view [OF redis, of s] aged_later by fastforce

text \<open>A request whose command only changes members in a way described by \<open>P\<close>.\<close>

lemma request_aged:
  assumes "rwf_in c s" and "request R cmd s = (res, s')"
    and cmd: "\<forall>s1 x s2. aged c s s1 \<longrightarrow> cmd s1 = (x, s2) \<longrightarrow> P s1 x s2"
  obtains (ran) s1 where "aged c s s1" "P s1 res s'"
  | (lost) e where "res = Err e" "aged c s s'"
  | (reply_lost) s1 e x where "res = Err e" "aged c s s1" "P s1 x s'"
  using request_cases [OF redis assms(2)]
proof cases
  case (1 t s1)
  with aged_later [OF assms(1)] cmd that(1) show thesis by blast
next
  case (2 t e)
  with aged_later [OF assms(1)] that(2) show thesis by blast
next
  case (3 t s1 e)
  obtain x s2 where run: "cmd s1 = (x, s2)" by fastforce
  have a: "aged c s s1" by (rule aged_later [OF assms(1) 3(2)])
  have "P s1 x s'" using cmd a run 3(4) by simp
  with 3 a that(3) show thesis by blast
qed

lemma redis_register_spec:
  assumes wf: "rwf_in c s" and run: "redis_register R W c clk r s = (res, s')"
  shows "\<exists>s1. aged c s s1 \<and> rwf_in c s' \<and>
    (let out = registration_outcome (members_in c s1 (wr_worker_id r)) (wr_generation r) in
     members_in c s' = (if out = Idempotent then members_in c s1
        else (members_in c s1)(wr_worker_id r \<mapsto> r)) \<and> (is_ok res \<longrightarrow> res = Ok out)
     \<or> \<not> is_ok res \<and> s1 = s')"
proof -
  let ?script = "register_script R (worker_key c (wr_worker_id r)) (wr_generation r)
      (encode_registration W r) (show_nat (registry_unix_millis (cl_wall clk))) (ttl_millis c)"
  let ?out = "\<lambda>s. registration_outcome (members_in c s (wr_worker_id r)) (wr_generation r)"
  let ?P = "\<lambda>s1 x s2. rwf_in c s2 \<and> members_in c s2 = (if ?out s1 = Idempotent then members_in c s1
      else (members_in c s1)(wr_worker_id r \<mapsto> r))
      \<and> (\<forall>n. x = Ok n \<longrightarrow> n = (case ?out s1 of New \<Rightarrow> 0 | Idempotent \<Rightarrow> 1 | Replaced \<Rightarrow> 2))"
  have script: "\<forall>s1 x s2. aged c s0 s1 \<longrightarrow> ?script s1 = (x, s2) \<longrightarrow> ?P s1 x s2" for s0
  proof (intro allI impI)
    fix s1 x s2
    assume "aged c s0 s1" and run: "?script s1 = (x, s2)"
    then have "rwf_in c s1" by (simp add: aged_def)
    from register_script_effect [OF redis wire this refl run] show "?P s1 x s2" .
  qed
  obtain cr s1 where conn: "connect R s = (cr, s1)" by fastforce
  note a1 = connect_aged [OF wf conn]
  then have wf1: "rwf_in c s1" by (simp add: aged_def)
  show ?thesis
  proof (cases cr)
    case (Inl e)
    with conn run a1 wf1 show ?thesis by (auto simp: redis_register_def Let_def intro!: exI [of _ s1])
  next
    case (Inr u)
    obtain rr s2 where req: "request R ?script s1 = (rr, s2)" by fastforce
    have out: "s' = s2" "res = (case rr of Err e \<Rightarrow> Err (''cannot register worker: '' @ e)
        | Ok n \<Rightarrow> if n = 0 then Ok New else if n = 1 then Ok Idempotent else if n = 2 then Ok Replaced
            else Err ''invalid Redis registration response'')"
      using run conn Inr req by (cases rr; simp add: redis_register_def split: if_splits)+
    note outcomes = request_aged [where P = ?P, OF wf1 req script, case_names ran lost reply_lost]
    show ?thesis
    proof (cases rule: outcomes)
      case (ran s3)
      then have "aged c s s3" using a1 aged_trans by blast
      then show ?thesis using ran(2) out
        by (intro exI [of _ s3]) (auto simp: Let_def split: sum.splits RegistrationOutcome.splits)
    next
      case (lost e)
      then have "aged c s s'" using a1 aged_trans out(1) by blast
      then show ?thesis using lost(1) out by (intro exI [of _ s']) (simp add: aged_def Let_def)
    next
      case (reply_lost s3 e x)
      then have "aged c s s3" using a1 aged_trans by blast
      then show ?thesis using reply_lost(1,3) out
        by (intro exI [of _ s3]) (simp add: Let_def)
    qed
  qed
qed

lemma redis_heartbeat_spec:
  assumes wf: "rwf_in c s" and run: "redis_heartbeat R W c clk i g s = (res, s')"
  shows "aged c s s' \<and> (case res of
      Ok _ \<Rightarrow> \<exists>r. members_in c s' i = Some r \<and> wr_generation r = g
    | Err UnknownWorker \<Rightarrow> members_in c s' i = None
    | Err StaleGeneration \<Rightarrow> \<exists>r. members_in c s' i = Some r \<and> wr_generation r \<noteq> g
    | Err RegistryUnavailable \<Rightarrow> True)"
proof -
  let ?script = "heartbeat_script R (worker_key c i) g
      (show_nat (registry_unix_millis (cl_wall clk))) (ttl_millis c)"
  let ?P = "\<lambda>s1 x s2. rwf_in c s2 \<and> members_in c s2 = members_in c s1
      \<and> (\<forall>n. x = Ok n \<longrightarrow> n = (case members_in c s2 i of None \<Rightarrow> 0
           | Some r \<Rightarrow> if wr_generation r = g then 2 else 1))"
  have script: "\<forall>s1 x s2. aged c s0 s1 \<longrightarrow> ?script s1 = (x, s2) \<longrightarrow> ?P s1 x s2" for s0
  proof (intro allI impI)
    fix s1 x s2
    assume "aged c s0 s1" and run: "?script s1 = (x, s2)"
    then have "rwf_in c s1" by (simp add: aged_def)
    from heartbeat_script_effect [OF redis wire this run] show "?P s1 x s2" by simp
  qed
  have step: "aged c s0 s2" if "aged c s0 s1" "?P s1 x s2" for s0 s1 x s2
    using that by (simp add: aged_def)
  obtain cr s1 where conn: "connect R s = (cr, s1)" by fastforce
  note a1 = connect_aged [OF wf conn]
  then have wf1: "rwf_in c s1" by (simp add: aged_def)
  show ?thesis
  proof (cases cr)
    case (Inl e)
    with conn run a1 show ?thesis by (auto simp: redis_heartbeat_def)
  next
    case (Inr u)
    obtain rr s2 where req: "request R ?script s1 = (rr, s2)" by fastforce
    have out: "s' = s2" "res = (case rr of Err e \<Rightarrow> Err RegistryUnavailable
        | Ok n \<Rightarrow> if n = 0 then Err UnknownWorker else if n = 1 then Err StaleGeneration
            else if n = 2 then Ok () else Err RegistryUnavailable)"
      using run conn Inr req by (cases rr; simp add: redis_heartbeat_def split: if_splits)+
    note outcomes = request_aged [where P = ?P, OF wf1 req script, case_names ran lost reply_lost]
    show ?thesis
    proof (cases rule: outcomes)
      case (ran s3)
      then have "aged c s s'" using a1 aged_trans step out(1) by blast
      with ran(2) out show ?thesis by (auto split: sum.splits option.splits)
    next
      case (lost e)
      with a1 have "aged c s s'" using aged_trans out(1) by blast
      with lost(1) out(2) show ?thesis by simp
    next
      case (reply_lost s3 e x)
      then have "aged c s s'" using a1 aged_trans step out(1) by blast
      with reply_lost(1) out show ?thesis by simp
    qed
  qed
qed

section \<open>The listing\<close>

text \<open>Time has passed, and nothing else happened.\<close>

definition passed :: "'d \<Rightarrow> 'd \<Rightarrow> bool" where
  "passed s s' \<longleftrightarrow> (\<exists>t \<ge> ks_clock (rd_view R s). rd_view R s' = later t (rd_view R s))"

lemma passed_trans: "passed s s' \<Longrightarrow> passed s' s'' \<Longrightarrow> passed s s''"
  unfolding passed_def by (metis later_clock later_later order.trans)

lemma passed_view: "rd_view R s1 = rd_view R s2 \<Longrightarrow> passed s s1 \<Longrightarrow> passed s s2"
  by (simp add: passed_def)

lemma passed_aged: "passed s s' \<Longrightarrow> rwf_in c s \<Longrightarrow> aged c s s'"
  using aged_later unfolding passed_def by blast

lemma same_view_aged: "rd_view R s' = rd_view R s \<Longrightarrow> rwf_in c s \<Longrightarrow> aged c s s'"
  by (metis aged_def forget_empty)

lemma member_key: "rwf_in c s \<Longrightarrow> members_in c s i \<noteq> None \<longleftrightarrow> ks_value (rd_view R s) (worker_key c i) \<noteq> None"
  by (cases rule: registry_wf_cases [OF wire, of c "rd_view R s" i]) auto

text \<open>One \<open>HGET\<close> of a worker's registration.\<close>

lemma hget_registration:
  assumes wf: "rwf_in c s" and run: "request R (rd_hget R (worker_key c i) ''registration'') s = (res, s')"
  shows "passed s s' \<and> (\<forall>x. res = Ok x \<longrightarrow> x = map_option (encode_registration W) (members_in c s' i))"
proof -
  have cmd: "rd_view R s2 = rd_view R s1 \<and> x = Ok (map_option (encode_registration W) (members_in c s1 i))"
    if wf1: "rwf_in c s1" and run1: "rd_hget R (worker_key c i) ''registration'' s1 = (x, s2)" for s1 s2 x
  proof (cases rule: registry_wf_cases [OF wire wf1, of i])
    case 1
    then show ?thesis
      using hget_reply [OF redis, of s1 "worker_key c i" Map.empty "''registration''"] run1 by auto
  next
    case (2 h r)
    then show ?thesis
      using hget_reply [OF redis, of s1 "worker_key c i" h "''registration''"] run1
      by (auto simp: worker_hash_def)
  qed
  from request_cases [OF redis run] show ?thesis
  proof cases
    case (1 t s1)
    then have "passed s s1" by (auto simp: passed_def)
    then have "rwf_in c s1" using passed_aged [OF _ wf] by (simp add: aged_def)
    from cmd [OF this 1(3)] have "rd_view R s' = rd_view R s1"
      "res = Ok (map_option (encode_registration W) (members_in c s1 i))" by simp_all
    with passed_view [OF this(1) [symmetric] \<open>passed s s1\<close>] show ?thesis by simp
  next
    case (2 t e)
    then show ?thesis by (auto simp: passed_def)
  next
    case (3 t s1 e)
    then have "passed s s1" by (auto simp: passed_def)
    then have wf1: "rwf_in c s1" using passed_aged [OF _ wf] by (simp add: aged_def)
    obtain x s2 where run1: "rd_hget R (worker_key c i) ''registration'' s1 = (x, s2)" by fastforce
    from cmd [OF wf1 run1] have "rd_view R s2 = rd_view R s1" by simp
    from passed_view [OF this [symmetric] \<open>passed s s1\<close>] 3(3,4) run1 show ?thesis by simp
  qed
qed

text \<open>Reading the workers of one reply: nothing but time passes; what is added are members, and members
  that are left are added.\<close>

lemma read_workers_spec:
  assumes "rwf_in c s" and "\<forall>k \<in> set keys. \<exists>i. k = worker_key c i"
    and "read_workers R W keys ids s = (res, s')"
  shows "(rd_view R s' = rd_view R s \<or> passed s s') \<and> (\<forall>out. res = Ok out \<longrightarrow>
      set ids \<subseteq> set out \<and> set out \<subseteq> set ids \<union> dom (members_in c s)
      \<and> (\<forall>i. worker_key c i \<in> set keys \<longrightarrow> members_in c s' i \<noteq> None \<longrightarrow> i \<in> set out))"
  using assms
proof (induction keys arbitrary: ids s)
  case Nil
  then show ?case by auto
next
  case (Cons k keys)
  from Cons.prems(2) obtain i where i: "k = worker_key c i" by auto
  obtain x s1 where x: "request R (rd_hget R k ''registration'') s = (x, s1)" by fastforce
  note hget = hget_registration [OF Cons.prems(1) x [unfolded i]]
  then have p1: "passed s s1" by simp
  then have a1: "aged c s s1" using passed_aged Cons.prems(1) by blast
  then have wf1: "rwf_in c s1" by (simp add: aged_def)
  show ?case
  proof (cases x)
    case (Inl e)
    with Cons.prems(3) x p1 show ?thesis by auto
  next
    case (Inr payload)
    define ids1 where "ids1 = (if members_in c s1 i = None then ids else ids @ [i])"
    have member: "members_in c s1 i = Some r \<Longrightarrow> wr_worker_id r = i" for r
      by (cases rule: registry_wf_cases [OF wire wf1, of i]) auto
    have "read_workers R W keys ids1 s1 = (res, s')"
      using Cons.prems(3) x Inr hget member
      by (cases "members_in c s1 i") (simp_all add: ids1_def wire_okD [OF wire])
    from Cons.IH [OF wf1 _ this] Cons.prems(2)
    have IH: "rd_view R s' = rd_view R s1 \<or> passed s1 s'"
      "\<And>out. res = Ok out \<Longrightarrow> set ids1 \<subseteq> set out \<and> set out \<subseteq> set ids1 \<union> dom (members_in c s1)
        \<and> (\<forall>i. worker_key c i \<in> set keys \<longrightarrow> members_in c s' i \<noteq> None \<longrightarrow> i \<in> set out)" by auto
    have "passed s s'"
      using IH(1) passed_view [of s1 s' s] passed_trans [OF p1, of s'] p1 by auto
    have "aged c s1 s'"
      using IH(1) same_view_aged [of s' s1 c] passed_aged [of s1 s' c] wf1 by auto
    from aged_dom [OF this] have "members_in c s' i \<noteq> None \<Longrightarrow> i \<in> set ids1"
      by (auto simp: ids1_def)
    moreover have "set ids1 \<subseteq> set ids \<union> dom (members_in c s)" "dom (members_in c s1) \<subseteq> dom (members_in c s)"
      "set ids \<subseteq> set ids1"
      using aged_dom [OF a1] by (auto simp: ids1_def split: if_splits)
    moreover have "set ids \<subseteq> set out \<and> set out \<subseteq> set ids \<union> dom (members_in c s)
        \<and> (\<forall>j. worker_key c j \<in> set (k # keys) \<longrightarrow> members_in c s' j \<noteq> None \<longrightarrow> j \<in> set out)"
      if "res = Ok out" for out
    proof (intro conjI allI impI)
      show "set ids \<subseteq> set out" "set out \<subseteq> set ids \<union> dom (members_in c s)"
        using IH(2) [OF that] calculation by blast+
      show "j \<in> set out" if "worker_key c j \<in> set (k # keys)" "members_in c s' j \<noteq> None" for j
        using IH(2) [OF \<open>res = Ok out\<close>] calculation that i by auto
    qed
    ultimately show ?thesis using \<open>passed s s'\<close> by blast
  qed
qed

text \<open>The invariant of the outer loop, after a run of scans from \<open>s0\<close> that returned \<open>ks\<close>.\<close>

definition listing_inv :: "RedisWorkerRegistry \<Rightarrow> 'd \<Rightarrow> string list \<Rightarrow> string list \<Rightarrow> 'd \<Rightarrow> bool" where
  "listing_inv c s0 ks ids s \<longleftrightarrow> aged c s0 s \<and> set ids \<subseteq> dom (members_in c s0)
     \<and> (\<forall>i. worker_key c i \<in> set ks \<longrightarrow> members_in c s i \<noteq> None \<longrightarrow> i \<in> set ids)"

definition listed :: "RedisWorkerRegistry \<Rightarrow> 'd \<Rightarrow> ((WorkerDirectoryError + string list) \<times> 'd) option \<Rightarrow> bool" where
  "listed c s0 res \<longleftrightarrow> (\<exists>x s. res = Some (x, s) \<and> aged c s0 s \<and> (\<forall>out. x = Ok out \<longrightarrow>
     sorted out \<and> distinct out \<and> dom (members_in c s) \<subseteq> set out \<and> set out \<subseteq> dom (members_in c s0)))"

lemma scan_keys:
  assumes "rd_scan R cur (worker_pattern c) n s = (x, s')"
  shows "\<exists>next keys. x = Ok (next, keys) \<and> rd_view R s' = rd_view R s \<and> (\<forall>k \<in> set keys. \<exists>i. k = worker_key c i)"
proof -
  from redis_okD(7) [OF redis] obtain c' ks s1 where "rd_scan R cur (worker_pattern c) n s = (Ok (c', ks), s1)"
      "rd_view R s1 = rd_view R s" "\<forall>k \<in> set ks. rd_match R (worker_pattern c) k"
    unfolding scan_ok_def by meson
  with assms worker_key_matches [OF redis] show ?thesis by auto
qed

text \<open>One pass of the loop body after the reply to a scan.\<close>

lemma listing_step:
  assumes inv: "listing_inv c s0 ks ids s" and keys: "\<forall>k \<in> set keys. \<exists>i. k = worker_key c i"
    and run: "read_workers R W keys ids s = (res, s')"
  shows "aged c s0 s' \<and> (rd_view R s' = rd_view R s \<or> passed s s')
    \<and> (\<forall>out. res = Ok out \<longrightarrow> listing_inv c s0 (ks @ keys) out s')"
proof -
  from inv have a: "aged c s0 s" and wf: "rwf_in c s" by (simp_all add: listing_inv_def aged_def)
  note spec = read_workers_spec [OF wf keys run]
  have a': "aged c s s'"
    using spec same_view_aged [of s' s c] passed_aged [of s s' c] wf by auto
  have "listing_inv c s0 (ks @ keys) out s'" if "res = Ok out" for out
    unfolding listing_inv_def
  proof (intro conjI allI impI)
    show "aged c s0 s'" by (rule aged_trans [OF a a'])
    show "set out \<subseteq> dom (members_in c s0)"
    proof -
      have "set out \<subseteq> set ids \<union> dom (members_in c s)" using spec that by simp
      moreover have "set ids \<subseteq> dom (members_in c s0)" using inv by (simp add: listing_inv_def)
      ultimately show ?thesis using aged_dom [OF a] by blast
    qed
    show "i \<in> set out" if k: "worker_key c i \<in> set (ks @ keys)" "members_in c s' i \<noteq> None" for i
    proof -
      have "members_in c s i \<noteq> None" using aged_dom [OF a'] k(2) by blast
      then have "worker_key c i \<in> set ks \<Longrightarrow> i \<in> set ids" using inv by (simp add: listing_inv_def)
      moreover have "set ids \<subseteq> set out"
        "worker_key c i \<in> set keys \<Longrightarrow> members_in c s' i \<noteq> None \<Longrightarrow> i \<in> set out"
        using spec \<open>res = Ok out\<close> by simp_all
      ultimately show ?thesis using k by auto
    qed
  qed
  with spec aged_trans [OF a a'] show ?thesis by blast
qed

lemma listing_inv_aged: "listing_inv c s0 ks ids s \<Longrightarrow> aged c s s' \<Longrightarrow> listing_inv c s0 ks ids s'"
proof -
  assume inv: "listing_inv c s0 ks ids s" and a: "aged c s s'"
  from inv have "aged c s0 s" by (simp add: listing_inv_def)
  from aged_trans [OF this a] aged_dom [OF a] inv show "listing_inv c s0 ks ids s'"
    by (auto simp: listing_inv_def)
qed

lemma passed_from: "rd_view R s = rd_view R s1 \<or> passed s1 s \<Longrightarrow> passed s s2 \<Longrightarrow> passed s1 s2"
proof (elim disjE)
  assume "rd_view R s = rd_view R s1" "passed s s2"
  then show "passed s1 s2" by (simp add: passed_def)
qed (rule passed_trans)

lemma passed_key:
  assumes "rd_view R s = rd_view R s1 \<or> passed s1 s" and "ks_value (rd_view R s) k \<noteq> None"
  shows "ks_value (rd_view R s1) k \<noteq> None"
  using assms later_value [of _ "rd_view R s1" k] unfolding passed_def by metis

lemma full_scan:
  assumes "rwf_in c s0" and "scan_run R (worker_pattern c) 100 0 s0 ks n 0 s1"
    and "ks_value (rd_view R s1) (worker_key c i) \<noteq> None"
  shows "worker_key c i \<in> set ks"
proof -
  have "rd_match R (worker_pattern c) (worker_key c i)" using worker_key_matches [OF redis] by blast
  moreover have "finite (dom (ks_value (rd_view R s0)))" using assms(1) by (simp add: registry_wf_def)
  ultimately show ?thesis
    using redis_okD(7) [OF redis] assms(2,3) unfolding scan_ok_def by blast
qed

text \<open>The rest of the loop body, from the reply to a scan on.\<close>

abbreviation after_scan :: "RedisWorkerRegistry \<Rightarrow> nat \<Rightarrow> string list \<Rightarrow> string list \<Rightarrow> 'd
    \<Rightarrow> ((WorkerDirectoryError + string list) \<times> 'd) option" where
  "after_scan c next keys ids s \<equiv>
     (case read_workers R W keys ids s of
        (Inl e, s) \<Rightarrow> Some (Inl e, s)
      | (Inr ids, s) \<Rightarrow>
          if next = 0 then Some (Inr (dedup (sort ids)), s)
          else scan_workers R W (worker_pattern c) next ids s)"

lemma after_scan_listed:
  assumes wf0: "rwf_in c s0" and run: "scan_run R (worker_pattern c) 100 0 s0 (ks @ keys) n next s1"
    and inv: "listing_inv c s0 ks ids s1" and keys: "\<forall>k \<in> set keys. \<exists>i. k = worker_key c i"
    and again: "\<And>out s. next \<noteq> 0 \<Longrightarrow> listing_inv c s0 (ks @ keys) out s \<Longrightarrow>
      rd_view R s = rd_view R s1 \<or> passed s1 s \<Longrightarrow> listed c s0 (scan_workers R W (worker_pattern c) next out s)"
  shows "listed c s0 (after_scan c next keys ids s1)"
proof -
  obtain y s where rd: "read_workers R W keys ids s1 = (y, s)" by fastforce
  note step = listing_step [OF inv keys rd]
  show ?thesis
  proof (cases y)
    case (Inl e)
    with step rd show ?thesis by (simp add: listed_def)
  next
    case (Inr out)
    with step have inv': "listing_inv c s0 (ks @ keys) out s" by blast
    show ?thesis
    proof (cases "next = 0")
      case True
      have wf: "rwf_in c s" using step by (simp add: aged_def)
      have "i \<in> set out" if "members_in c s i \<noteq> None" for i
      proof -
        have "ks_value (rd_view R s) (worker_key c i) \<noteq> None" using member_key [OF wf] that by blast
        then have "ks_value (rd_view R s1) (worker_key c i) \<noteq> None" using passed_key step by blast
        from full_scan [OF wf0 run [unfolded True] this] inv' that show ?thesis
          unfolding listing_inv_def by blast
      qed
      then have "dom (members_in c s) \<subseteq> set out" by blast
      moreover have "set out \<subseteq> dom (members_in c s0)" using inv' by (simp add: listing_inv_def)
      ultimately show ?thesis
        using True rd Inr step sorted_dedup_distinct [of "sort out"] by (simp add: listed_def)
    next
      case False
      with again [OF False inv'] step rd Inr show ?thesis by simp
    qed
  qed
qed

text \<open>A request for a scan: it fails, or the loop goes on from its reply.\<close>

lemma scan_request:
  assumes wf: "rwf_in c s" and a: "aged c s0 s"
    and reply: "\<And>s2 s3 next keys. passed s s2 \<Longrightarrow>
      rd_scan R cur (worker_pattern c) 100 s2 = (Ok (next, keys), s3) \<Longrightarrow> rd_view R s3 = rd_view R s2 \<Longrightarrow>
      \<forall>k \<in> set keys. \<exists>i. k = worker_key c i \<Longrightarrow> listed c s0 (after_scan c next keys ids s3)"
  shows "listed c s0 (scan_workers R W (worker_pattern c) cur ids s)"
proof -
  obtain x s3 where req: "request R (rd_scan R cur (worker_pattern c) 100) s = (x, s3)" by fastforce
  have failed: ?thesis if "x = Err e" "passed s s3" for e
  proof -
    have "aged c s0 s3" using aged_trans [OF a passed_aged [OF that(2) wf]] .
    with that(1) req show ?thesis by (subst scan_workers.simps) (simp add: listed_def)
  qed
  from request_cases [OF redis req] show ?thesis
  proof cases
    case (1 t s2)
    then have p: "passed s s2" by (auto simp: passed_def)
    from scan_keys [OF 1(3)] obtain nxt keys where x: "x = Ok (nxt, keys)" "rd_view R s3 = rd_view R s2"
        "\<forall>k \<in> set keys. \<exists>i. k = worker_key c i" by blast
    from reply [OF p _ x(2,3)] 1(3) x(1) req show ?thesis by (subst scan_workers.simps) simp
  next
    case (2 t e)
    then show ?thesis by (intro failed) (auto simp: passed_def)
  next
    case (3 t s2 e)
    then have "passed s s2" by (auto simp: passed_def)
    moreover have "rd_view R s3 = rd_view R s2"
      using scan_keys [OF prod.collapse [symmetric], of cur c 100 s2] 3(4) by auto
    ultimately show ?thesis using 3(3) by (intro failed) (simp_all add: passed_def)
  qed
qed

lemma scan_loop:
  assumes bound: "\<forall>ks i cur s'. scan_run R (worker_pattern c) 100 0 s0 ks i cur s' \<longrightarrow> i \<ge> N \<longrightarrow> cur = 0"
    and wf0: "rwf_in c s0"
  shows "scan_run R (worker_pattern c) 100 0 s0 ks n cur s1 \<Longrightarrow> cur \<noteq> 0 \<Longrightarrow> listing_inv c s0 ks ids s \<Longrightarrow>
    rd_view R s = rd_view R s1 \<or> passed s1 s \<Longrightarrow> listed c s0 (scan_workers R W (worker_pattern c) cur ids s)"
proof (induction "N - n" arbitrary: n ks cur s1 ids s rule: less_induct)
  case less
  have n: "n < N" using bound less.prems(1,2) by (meson not_le_imp_less)
  from less.prems(3) have a: "aged c s0 s" and wf: "rwf_in c s" by (simp_all add: listing_inv_def aged_def)
  show ?case
  proof (rule scan_request [OF wf a])
    fix s2 s3 next' keys
    assume p: "passed s s2" and scan: "rd_scan R cur (worker_pattern c) 100 s2 = (Ok (next', keys), s3)"
      and view: "rd_view R s3 = rd_view R s2" and keys: "\<forall>k \<in> set keys. \<exists>i. k = worker_key c i"
    from passed_from [OF less.prems(4) p] obtain t where
      "rd_view R s2 = later t (rd_view R s1)" "ks_clock (rd_view R s1) \<le> t" by (auto simp: passed_def)
    from scan_run.further [OF less.prems(1,2) this scan]
    have run: "scan_run R (worker_pattern c) 100 0 s0 (ks @ keys) (Suc n) next' s3" .
    have "passed s s3" using p view by (simp add: passed_def)
    then have "listing_inv c s0 ks ids s3"
      by (rule listing_inv_aged [OF less.prems(3) passed_aged [OF _ wf]])
    then show "listed c s0 (after_scan c next' keys ids s3)"
      by (rule after_scan_listed [OF wf0 run _ keys]) (use less.hyps [OF _ run] n in simp)
  qed
qed

lemma redis_listing_spec:
  assumes wf: "rwf_in c s"
  shows "listed c s (redis_available_workers R W c clk s)"
proof -
  obtain cr s1 where conn: "connect R s = (cr, s1)" by fastforce
  note a1 = connect_aged [OF wf conn]
  then have wf1: "rwf_in c s1" by (simp add: aged_def)
  show ?thesis
  proof (cases cr)
    case (Inl e)
    with conn a1 show ?thesis by (simp add: redis_available_workers_def listed_def)
  next
    case (Inr u)
    have "listed c s (scan_workers R W (worker_pattern c) 0 [] s1)"
    proof (rule scan_request [OF wf1 a1])
      fix s2 s3 next' keys
      assume p: "passed s1 s2" and scan: "rd_scan R 0 (worker_pattern c) 100 s2 = (Ok (next', keys), s3)"
        and view: "rd_view R s3 = rd_view R s2" and keys: "\<forall>k \<in> set keys. \<exists>i. k = worker_key c i"
      have a2: "aged c s s2" using aged_trans [OF a1 passed_aged [OF p wf1]] .
      then have wf2: "rwf_in c s2" by (simp add: aged_def)
      have "finite (dom (ks_value (rd_view R s2)))" using wf2 by (simp add: registry_wf_def)
      then obtain N where N:
        "\<forall>ks i cur s'. scan_run R (worker_pattern c) 100 0 s2 ks i cur s' \<longrightarrow> i \<ge> N \<longrightarrow> cur = 0"
        using redis_okD(7) [OF redis] unfolding scan_ok_def by meson
      have run: "scan_run R (worker_pattern c) 100 0 s2 ([] @ keys) 1 next' s3"
        using scan_run.first [OF scan] by simp
      have inv: "listing_inv c s2 [] [] s3"
        using same_view_aged [OF view wf2] by (simp add: listing_inv_def)
      have "listed c s2 (after_scan c next' keys [] s3)"
        by (rule after_scan_listed [OF wf2 run inv keys]) (rule scan_loop [OF N wf2 run])
      then show "listed c s (after_scan c next' keys [] s3)"
        unfolding listed_def using aged_trans [OF a2] aged_dom [OF a2] by blast
    qed
    with conn Inr show ?thesis by (simp add: redis_available_workers_def)
  qed
qed

end

sublocale redis_deployment \<subseteq> reg: worker_registry "redis_worker_registry R W c"
    "\<lambda>s. registry_members W c (rd_view R s)" "\<lambda>s. registry_wf W c (rd_view R s)"
  for c
proof (unfold_locales, unfold redis_worker_registry_def WorkerRegistry.select_convs WorkerDirectory.select_convs, goal_cases)
  case (1 w clk r out w')
  from redis_register_spec [OF 1] obtain s1 E where
    "members_in c s1 = forget E (members_in c w)"
    "out = registration_outcome (members_in c s1 (wr_worker_id r)) (wr_generation r)"
    "members_in c w' = (if out = Idempotent then members_in c s1 else (members_in c s1)(wr_worker_id r \<mapsto> r))"
    by (auto simp: Let_def aged_def)
  then show ?case by (intro exI [of _ E]) simp
next
  case (2 w clk r e w')
  from redis_register_spec [OF 2] obtain s1 E where
    "members_in c s1 = forget E (members_in c w)"
    "members_in c w' = members_in c s1 \<or> members_in c w' = (members_in c s1)(wr_worker_id r \<mapsto> r)"
    by (auto simp: Let_def aged_def split: if_splits)
  then show ?case by (intro exI [of _ E]) simp
next
  case (3 w clk i g w')
  then show ?case using redis_heartbeat_spec [of c w clk i g "Ok ()" w'] by (auto simp: aged_def)
next
  case (4 w clk i g he w')
  then show ?case using redis_heartbeat_spec [of c w clk i g "Err he" w']
    by (auto simp: aged_def split: HeartbeatError.splits)
next
  case (5 w clk ids w')
  then show ?case using redis_listing_spec [of c w clk] by (auto simp: listed_def aged_def)
next
  case (6 w clk e w')
  then show ?case using redis_listing_spec [of c w clk] by (auto simp: listed_def aged_def)
next
  case (7 w clk)
  then show ?case using redis_listing_spec [of c w clk] by (auto simp: listed_def)
next
  case (8 w clk r)
  then show ?case using redis_register_spec [OF 8 prod.collapse [symmetric], of clk r] by (auto simp: Let_def)
next
  case (9 w clk i g)
  then show ?case using redis_heartbeat_spec [OF 9 prod.collapse [symmetric], of clk i g] by (simp add: aged_def)
next
  case (10 w clk x w')
  then show ?case using redis_listing_spec [of c w clk] by (auto simp: listed_def aged_def)
next
  case (11 w i r)
  then show ?case by (cases rule: registry_wf_cases [OF wire 11(1), of i]) auto
qed

section \<open>Leases\<close>

text \<open>A member whose key expires when the time to live has passed from now.\<close>

definition leased :: "wire \<Rightarrow> RedisWorkerRegistry \<Rightarrow> string \<Rightarrow> keyspace \<Rightarrow> bool" where
  "leased W c i v \<longleftrightarrow> registry_members W c v i \<noteq> None
     \<and> ks_deadline v (worker_key c i) = Some (ks_clock v + ttl_millis c)"

lemma leased_until:
  assumes "wire_ok W" and "registry_wf W c v" and "leased W c i v"
  shows "registry_members W c (later t v) i \<noteq> None \<longleftrightarrow> t < ks_clock v + ttl_millis c"
proof -
  have "ks_value (later t v) (worker_key c i)
      = (if ks_clock v + ttl_millis c \<le> t then None else ks_value v (worker_key c i))"
    using assms(3) by (simp add: leased_def later_def Let_def)
  with assms(3) show ?thesis by (auto simp: registry_members_def leased_def)
qed

lemma pexpire_ok:
  assumes "redis_ok R" and "0 < ms" and "rd_pexpire R k ms s = (Ok n, s')"
    and "ks_value (rd_view R s) k \<noteq> None"
  shows "ks_deadline (rd_view R s') k = Some (ks_clock (rd_view R s) + ms)"
    "ks_clock (rd_view R s') = ks_clock (rd_view R s)"
    "ks_value (rd_view R s') = ks_value (rd_view R s)"
proof -
  from redis_okD(5) [OF assms(1)]
  have "if ks_clock (rd_view R s) + ms < 2 ^ 63
      then (\<exists>n. replies R (rd_pexpire R k ms s) n (pexpire_effect k ms (rd_view R s)))
      else refuses R (rd_pexpire R k ms s) s"
    unfolding keys_ok_def by blast
  with assms(2-) have "rd_view R s' = pexpire_effect k ms (rd_view R s)"
    by (auto simp: replies_def refuses_def split: if_splits)
  with assms(2,4) show "ks_deadline (rd_view R s') k = Some (ks_clock (rd_view R s) + ms)"
    "ks_clock (rd_view R s') = ks_clock (rd_view R s)" "ks_value (rd_view R s') = ks_value (rd_view R s)"
    by (auto simp: pexpire_effect_def)
qed

lemma pexpire_leased:
  assumes "redis_ok R" and "0 < ttl_millis c" and "rd_pexpire R (worker_key c i) (ttl_millis c) s = (Ok n, s')"
    and "registry_members W c (rd_view R s') i \<noteq> None"
  shows "leased W c i (rd_view R s')"
proof -
  have "ks_value (rd_view R s) (worker_key c i) \<noteq> None"
    using assms(4) pexpire_value [OF assms(1-3)] by (cases "ks_value (rd_view R s) (worker_key c i)") (simp_all add: registry_members_def)
  from pexpire_ok [OF assms(1-3) this] assms(4) show ?thesis by (simp add: leased_def)
qed

lemma register_script_leased:
  assumes ok: "redis_ok R" "wire_ok W" and wf: "registry_wf W c (rd_view R s)"
    and run: "register_script R (worker_key c (wr_worker_id r)) (wr_generation r)
      (encode_registration W r) now (ttl_millis c) s = (Ok n, s')"
  shows "leased W c (wr_worker_id r) (rd_view R s')"
proof -
  let ?i = "wr_worker_id r"
  from register_script_effect [OF ok wf refl run]
  have "registry_members W c (rd_view R s') ?i \<noteq> None"
    by (auto simp: registration_outcome_def split: option.splits if_splits)
  moreover have "\<exists>s1 m. rd_pexpire R (worker_key c ?i) (ttl_millis c) s1 = (Ok m, s')"
    using run by (auto simp: register_script_def try_call_eq_Ok split: if_splits)
  ultimately show ?thesis using pexpire_leased [OF ok(1)] wf unfolding registry_wf_def by blast
qed

text \<open>Within the range of the server's clock, the heartbeat script always answers.\<close>

lemma pexpire_answers:
  assumes "redis_ok R" and "rd_pexpire R k ms s = (res, s')" and "ks_clock (rd_view R s') + ms < 2 ^ 63"
  obtains n where "res = Ok n"
proof -
  from redis_okD(5) [OF assms(1)]
  have "if ks_clock (rd_view R s) + ms < 2 ^ 63
      then (\<exists>n. replies R (rd_pexpire R k ms s) n (pexpire_effect k ms (rd_view R s)))
      else refuses R (rd_pexpire R k ms s) s"
    unfolding keys_ok_def by blast
  with assms(2,3) that show thesis by (auto simp: replies_def refuses_def split: if_splits)
qed

lemma heartbeat_script_answers:
  assumes ok: "redis_ok R" "wire_ok W" and wf: "registry_wf W c (rd_view R s)"
    and run: "heartbeat_script R (worker_key c i) g now (ttl_millis c) s = (res, s')"
    and room: "ks_clock (rd_view R s') + ttl_millis c < 2 ^ 63"
  obtains n where "res = Ok n"
proof -
  let ?k = "worker_key c i"
  have "as_hash (ks_value (rd_view R s) ?k) \<noteq> None"
    by (rule registry_wf_cases [OF ok(2) wf, of i]) simp_all
  then obtain h where h: "as_hash (ks_value (rd_view R s) ?k) = Some h" by blast
  obtain s1 where s1: "rd_hget R ?k ''generation'' s = (Ok (h ''generation''), s1)" "rd_view R s1 = rd_view R s"
    using hget_reply [OF ok(1) h] by blast
  have "as_hash (ks_value (rd_view R s1) ?k) = Some h" using h s1(2) by simp
  then obtain n s2 where s2: "rd_hset R ?k [(''last_heartbeat_at_ms'', now)] s1 = (Ok n, s2)"
    by (rule hset_reply [OF ok(1)])
  obtain x s3 where p: "rd_pexpire R ?k (ttl_millis c) s2 = (x, s3)" by fastforce
  show thesis
  proof (cases "h ''generation'' = Some g")
    case True
    then have res: "s' = s3" "res = (case x of Err e \<Rightarrow> Err e | Ok _ \<Rightarrow> Ok 2)"
      using run s1 s2 p by (cases x; simp add: heartbeat_script_def)+
    from pexpire_answers [OF ok(1) p] room res(1) obtain m where "x = Ok m" by blast
    with res(2) that show thesis by simp
  next
    case False
    with run s1(1) that show thesis by (auto simp: heartbeat_script_def split: if_splits)
  qed
qed

lemma heartbeat_script_leased:
  assumes ok: "redis_ok R" "wire_ok W" and wf: "registry_wf W c (rd_view R s)"
    and run: "heartbeat_script R (worker_key c i) g now (ttl_millis c) s = (Ok 2, s')"
  shows "leased W c i (rd_view R s')"
proof -
  from heartbeat_script_effect [OF ok wf run]
  have "registry_members W c (rd_view R s') i \<noteq> None" by (auto split: option.splits)
  moreover have "\<exists>s1 m. rd_pexpire R (worker_key c i) (ttl_millis c) s1 = (Ok m, s')"
    using run by (auto simp: heartbeat_script_def try_call_eq_Ok split: if_splits)
  ultimately show ?thesis using pexpire_leased [OF ok(1)] wf unfolding registry_wf_def by blast
qed

context redis_deployment
begin

text \<open>A request that succeeded ran its command in a state with the same invariant.\<close>

lemma request_ok_ran:
  assumes "rwf_in c s" and "connect R s = (cr, s1)" and "request R cmd s1 = (Ok x, s')"
  obtains s2 where "rwf_in c s2" "cmd s2 = (Ok x, s')"
proof -
  have wf1: "rwf_in c s1" using connect_aged [OF assms(1,2)] by (simp add: aged_def)
  from request_cases [OF redis assms(3)] show thesis
  proof cases
    case (1 t s2)
    then have "rwf_in c s2" using aged_later [OF wf1] by (simp add: aged_def)
    with 1 that show thesis by blast
  qed simp_all
qed

lemma redis_register_leased:
  assumes wf: "rwf_in c s" and run: "redis_register R W c clk r s = (Ok out, s')"
  shows "leased W c (wr_worker_id r) (rd_view R s')"
proof -
  from run obtain u s1 n where s1: "connect R s = (Ok u, s1)"
      "request R (register_script R (worker_key c (wr_worker_id r)) (wr_generation r)
        (encode_registration W r) (show_nat (registry_unix_millis (cl_wall clk))) (ttl_millis c)) s1 = (Ok n, s')"
    by (auto simp: redis_register_def try_call_eq_Ok)
  from request_ok_ran [OF wf this] register_script_leased [OF redis wire] show ?thesis by metis
qed

lemma redis_heartbeat_leased:
  assumes wf: "rwf_in c s" and run: "redis_heartbeat R W c clk i g s = (Ok (), s')"
  shows "leased W c i (rd_view R s')"
proof -
  from run obtain u s1 n where s1: "connect R s = (Ok u, s1)"
      "request R (heartbeat_script R (worker_key c i) g (show_nat (registry_unix_millis (cl_wall clk)))
        (ttl_millis c)) s1 = (Ok n, s')" and n: "n = 2"
    by (auto simp: redis_heartbeat_def try_call_eq_Ok split: if_splits)
  from request_ok_ran [OF wf s1] heartbeat_script_leased [OF redis wire] show ?thesis
    unfolding n by metis
qed

lemmas redis_fenced = reg.replaced_is_fenced
  [unfolded redis_worker_registry_def WorkerRegistry.select_convs, folded redis_worker_registry_def]

lemmas redis_listed_was_registered = reg.listed_was_registered

end

section \<open>Listings over a reliable connection\<close>

context reliable_deployment
begin

lemma reliable_hget:
  assumes "rwf_in c s"
  shows "is_ok (fst (request R (rd_hget R (worker_key c i) f) s))"
proof -
  obtain t s1 where s1: "rd_view R s1 = later t (rd_view R s)"
      "request R (rd_hget R (worker_key c i) f) s = rd_hget R (worker_key c i) f s1"
    using reliable_request [OF redis reliable] by blast
  have wf1: "rwf_in c s1" using aged_later [OF assms s1(1)] by (simp add: aged_def)
  have "as_hash (ks_value (rd_view R s1) (worker_key c i)) \<noteq> None"
    by (rule registry_wf_cases [OF wire wf1, of i]) simp_all
  then obtain h where "as_hash (ks_value (rd_view R s1) (worker_key c i)) = Some h" by blast
  then show ?thesis by (rule hget_reply [OF redis, of s1 _ h f]) (simp add: s1(2))
qed

lemma reliable_read_workers:
  assumes "rwf_in c s" and "\<forall>k \<in> set keys. \<exists>i. k = worker_key c i"
  shows "is_ok (fst (read_workers R W keys ids s))"
  using assms
proof (induction keys arbitrary: ids s)
  case (Cons k keys)
  from Cons.prems(2) obtain i where i: "k = worker_key c i" by auto
  obtain x s1 where x: "request R (rd_hget R k ''registration'') s = (x, s1)" by fastforce
  with reliable_hget [OF Cons.prems(1), of i "''registration''"] i obtain payload where p: "x = Ok payload" by (cases x) auto
  note hget = hget_registration [OF Cons.prems(1) x [unfolded i]]
  then have "aged c s s1" using passed_aged Cons.prems(1) by blast
  then have wf1: "rwf_in c s1" by (simp add: aged_def)
  have IH: "is_ok (fst (read_workers R W keys out s1))" for out using Cons.IH [OF wf1] Cons.prems(2) by simp
  with hget x p show ?case by (cases "members_in c s1 i") (simp_all add: wire_okD [OF wire])
qed simp

lemma reliable_scan_workers:
  assumes "scan_workers R W (worker_pattern c) cur ids s = Some y" and "rwf_in c s"
  shows "is_ok (fst y)"
proof -
  let ?P = "\<lambda>R' W' p cur ids s y. R' = R \<longrightarrow> W' = W \<longrightarrow> p = worker_pattern c \<longrightarrow> rwf_in c s \<longrightarrow> is_ok (fst y)"
  have "?P R W (worker_pattern c) cur ids s y"
  proof (rule scan_workers.raw_induct [of ?P, OF _ assms(1)], intro impI, goal_cases)
    case (1 loop R' W' p cur ids s y)
    note IH = 1(1) and run = 1(2) [unfolded 1(3-5)] and wf = 1(6)
    obtain t s1 where s1: "rd_view R s1 = later t (rd_view R s)"
        "request R (rd_scan R cur (worker_pattern c) 100) s = rd_scan R cur (worker_pattern c) 100 s1"
      using reliable_request [OF redis reliable] by blast
    obtain z s2 where z: "rd_scan R cur (worker_pattern c) 100 s1 = (z, s2)" by fastforce
    from scan_keys [OF z] obtain next' keys where k: "z = Ok (next', keys)" "rd_view R s2 = rd_view R s1"
        "\<forall>k \<in> set keys. \<exists>i. k = worker_key c i" by blast
    have wf2: "rwf_in c s2" using aged_later [OF wf, of s2 t] s1(1) k(2) by (simp add: aged_def)
    obtain u s3 where u: "read_workers R W keys ids s2 = (u, s3)" by fastforce
    have "is_ok u" using reliable_read_workers [OF wf2 k(3), of ids] u by simp
    then obtain out where out: "u = Ok out" by (cases u) auto
    have "rwf_in c s3"
      using read_workers_spec [OF wf2 k(3) u] wf2 passed_aged [of s2 s3 c] by (auto simp: aged_def)
    with run s1 z k u out IH [of R W "worker_pattern c" next' out s3 y] 1(3-5) show ?case by (auto split: if_splits)
  qed
  with assms(2) show ?thesis by blast
qed

lemma reliable_listing:
  assumes "rwf_in c s"
  shows "\<exists>ids s'. redis_available_workers R W c clk s = Some (Ok ids, s')"
proof -
  obtain t s1 where s1: "rd_view R s1 = later t (rd_view R s)" "connect R s = (Ok (), s1)"
    using reliable_connect [OF redis reliable] by blast
  from redis_listing_spec [OF assms, of clk] obtain y s' where
    y: "redis_available_workers R W c clk s = Some (y, s')" by (auto simp: listed_def)
  have "is_ok (fst (y, s'))"
    by (rule reliable_scan_workers [of c 0 "[]" s1])
      (use y s1 aged_later [OF assms s1(1)] in \<open>simp_all add: redis_available_workers_def aged_def\<close>)
  with y show ?thesis by (cases y) auto
qed

lemma reliable_heartbeat:
  assumes wf: "rwf_in c s" and run: "redis_heartbeat R W c clk i g s = (res, s')"
    and room: "ks_clock (rd_view R s') + ttl_millis c < 2 ^ 63"
  shows "is_ok res \<longleftrightarrow> (\<exists>r. members_in c s' i = Some r \<and> wr_generation r = g)"
proof -
  let ?script = "heartbeat_script R (worker_key c i) g
      (show_nat (registry_unix_millis (cl_wall clk))) (ttl_millis c)"
  obtain t s1 where s1: "rd_view R s1 = later t (rd_view R s)" "connect R s = (Ok (), s1)"
    using reliable_connect [OF redis reliable] by blast
  obtain u s2 where s2: "rd_view R s2 = later u (rd_view R s1)" "request R ?script s1 = ?script s2"
    using reliable_request [OF redis reliable] by blast
  have "rwf_in c s1" using aged_later [OF wf s1(1)] by (simp add: aged_def)
  then have wf2: "rwf_in c s2" using aged_later [OF _ s2(1)] by (simp add: aged_def)
  obtain x s3 where x: "?script s2 = (x, s3)" by fastforce
  then have s3: "s' = s3" using run s1(2) s2(2) by (cases x) (simp_all add: redis_heartbeat_def)
  from heartbeat_script_answers [OF redis wire wf2 x] room s3 obtain n where n: "x = Ok n" by blast
  from heartbeat_script_effect [OF redis wire wf2 x] n s3
  have "n = (case members_in c s' i of None \<Rightarrow> 0 | Some r \<Rightarrow> if wr_generation r = g then 2 else 1)" by simp
  with run s1(2) s2(2) x n show ?thesis by (auto simp: redis_heartbeat_def split: option.splits if_splits)
qed

end

end
