(* ===== verification/Worker_Leases.thy ===== *)
theory Worker_Leases
  imports Worker_Membership_Redis
begin

text \<open>
  What clients rely on from the worker registries: stale generations are fenced off, listings end and
  name exactly the members, and a lease lasts exactly the time to live after the last accepted
  heartbeat.
\<close>

section \<open>Samples\<close>

definition sample_registration :: "string \<Rightarrow> string \<Rightarrow> WorkerRegistration" where
  "sample_registration w g = \<lparr>wr_worker_id = w, wr_node_id = None, wr_generation = g,
     wr_implementation_version = ''0.1.0'', wr_protocol_versions = [''runtime/v1''],
     wr_endpoint = ''0.0.0.0:50052'', wr_executors = [], wr_capacity = None, wr_metadata = None\<rparr>"

definition sample_clock :: clock where
  "sample_clock = \<lparr>cl_now = 5, cl_then = 6, cl_wall = 7000000\<rparr>"

definition sample_registry :: RedisWorkerRegistry where
  "sample_registry = \<lparr>rwg_key_prefix = ''tw:workers'', rwg_membership_ttl = 30 * 10 ^ 9\<rparr>"

definition sample_calm :: reference_state where
  "sample_calm = \<lparr>ref_view = empty_keyspace, ref_future = []\<rparr>"

lemma sample_registry_wf: "registry_wf unary_wire sample_registry (rd_view calm_redis sample_calm)"
  by (simp add: registry_wf_def sample_registry_def ttl_millis_def calm_redis_fields reference_redis_def
      sample_calm_def empty_keyspace_def)

abbreviation sample_registered :: reference_state where
  "sample_registered \<equiv> snd (redis_register calm_redis unary_wire sample_registry sample_clock
     (sample_registration ''w1'' ''two'') sample_calm)"

lemmas calm_eval = connect_def request_def calm_redis_def reference_redis_def on_hash_def
  sample_registration_def sample_registry_def sample_clock_def sample_calm_def empty_keyspace_def
  later_def Let_def worker_key_def ttl_millis_def pexpire_effect_def hset_effect_def

lemma sample_register_ok:
  "redis_register calm_redis unary_wire sample_registry sample_clock (sample_registration ''w1'' ''two'') sample_calm
     = (Ok New, sample_registered)"
  by (rule prod_eqI) (simp_all add: redis_register_def register_script_def calm_eval)

section \<open>Fencing\<close>

text \<open>C13. A worker generation that has been superseded is fenced off: once Redis accepted a
  registration of a worker under another generation, no heartbeat of the old generation is accepted,
  whatever calls, lost requests and expiries follow, until that generation registers again.\<close>

theorem redis_generation_fenced:
  assumes "redis_ok R" and "wire_ok W" and "registry_wf W c (rd_view R s)"
    and "redis_register R W c clk r s = (Ok out, s1)" and "wr_generation r \<noteq> g"
    and "\<And>clk x. Register clk x \<in> set cs \<Longrightarrow> wr_worker_id x = wr_worker_id r \<Longrightarrow> wr_generation x \<noteq> g"
  shows "\<not> is_ok (fst (redis_heartbeat R W c clk' (wr_worker_id r) g
    (registry_run (redis_worker_registry R W c) cs s1)))"
  by (rule redis_deployment.redis_fenced [OF redis_deployment.intro [OF assms(1,2)] assms(3-6)])

theorem redis_generation_fenced_witness:
  "\<not> is_ok (fst (redis_heartbeat calm_redis unary_wire sample_registry sample_clock ''w1'' ''one''
    (registry_run (redis_worker_registry calm_redis unary_wire sample_registry)
      [Beat sample_clock ''w1'' ''two'', Listing sample_clock] sample_registered)))"
  using redis_generation_fenced [OF calm_redis_ok unary_wire_ok sample_registry_wf sample_register_ok,
      of "''one''" "[Beat sample_clock ''w1'' ''two'', Listing sample_clock]"]
  by (simp add: sample_registration_def)

section \<open>Listings\<close>

text \<open>C18. Listing the workers in Redis ends, and when it answers it names, in ascending order and
  without repetition, only workers that were members when it began and every worker that is still a
  member when it ends.\<close>

theorem redis_listing_exact:
  assumes "redis_ok R" and "wire_ok W" and "registry_wf W c (rd_view R s)"
  shows "\<exists>x s'. redis_available_workers R W c clk s = Some (x, s') \<and> (\<forall>ids. x = Ok ids \<longrightarrow>
    sorted ids \<and> distinct ids \<and> dom (registry_members W c (rd_view R s')) \<subseteq> set ids
    \<and> set ids \<subseteq> dom (registry_members W c (rd_view R s)))"
  using redis_deployment.redis_listing_spec [OF redis_deployment.intro [OF assms(1,2)] assms(3), of clk]
  unfolding redis_deployment.listed_def [OF redis_deployment.intro [OF assms(1,2)]] by blast

theorem redis_listing_exact_witness:
  "\<exists>x s'. redis_available_workers calm_redis unary_wire sample_registry sample_clock sample_calm = Some (x, s')
    \<and> (\<forall>ids. x = Ok ids \<longrightarrow> ids = [])"
proof -
  have "registry_members unary_wire sample_registry (rd_view calm_redis sample_calm) = Map.empty"
    by (simp add: registry_members_def fun_eq_iff calm_redis_fields reference_redis_def sample_calm_def
        empty_keyspace_def)
  with redis_listing_exact [OF calm_redis_ok unary_wire_ok sample_registry_wf, of sample_clock]
  show ?thesis by auto
qed

text \<open>A listed worker has registered: a worker that Redis lists after any calls was a member before
  them or was registered by one of them. Heartbeats never add a worker or bring an expired one back.\<close>

lemma redis_listed_registered:
  assumes "redis_ok R" and "wire_ok W" and "registry_wf W c (rd_view R s)"
    and "redis_available_workers R W c clk (registry_run (redis_worker_registry R W c) cs s) = Some (Ok ids, s')"
    and "i \<in> set ids"
  shows "registry_members W c (rd_view R s) i \<noteq> None \<or> (\<exists>clk r. Register clk r \<in> set cs \<and> wr_worker_id r = i)"
  using redis_deployment.redis_listed_was_registered [OF redis_deployment.intro [OF assms(1,2)] assms(3) _ assms(5)]
    assms(4) by (simp add: redis_worker_registry_def)

text \<open>The keyspace after the sample registration.\<close>

definition sample_hash :: "string \<rightharpoonup> bytes" where
  "sample_hash = [''generation'' \<mapsto> ''two'',
     ''registration'' \<mapsto> encode_registration unary_wire (sample_registration ''w1'' ''two''),
     ''registered_at_ms'' \<mapsto> show_nat (registry_unix_millis 7000000), ''last_heartbeat_at_ms'' \<mapsto> []]"

lemma sample_registered_view:
  "ks_value (ref_view sample_registered) = [worker_key sample_registry ''w1'' \<mapsto> RHash sample_hash]"
  "ks_deadline (ref_view sample_registered) = [worker_key sample_registry ''w1'' \<mapsto> 30000]"
  "ks_clock (ref_view sample_registered) = 0"
  by (simp_all add: redis_register_def register_script_def calm_eval put_view_def sample_hash_def)

lemma sample_hash_ok: "worker_hash unary_wire (sample_registration ''w1'' ''two'') sample_hash"
  by (simp add: worker_hash_def sample_hash_def) (simp add: sample_registration_def)

text \<open>Listing the one worker of a keyspace in which nothing expires now.\<close>

lemma filter_one:
  assumes "distinct xs" and "{x \<in> set xs. P x} = {k}"
  shows "filter P xs = [k]"
proof -
  have "distinct (filter P xs)" "set (filter P xs) = {k}" using assms by simp_all
  then show ?thesis by (cases "filter P xs") (auto simp: subset_singleton_iff)
qed

lemma calm_listing:
  fixes s :: reference_state
  assumes hash: "ks_value (ref_view s) (worker_key sample_registry ''w1'') = Some (RHash sample_hash)"
    and fin: "finite (dom (ks_value (ref_view s)))"
    and only: "\<And>i. ks_value (ref_view s) (worker_key sample_registry i) \<noteq> None \<Longrightarrow> i = ''w1''"
    and live: "\<And>k d. ks_deadline (ref_view s) k = Some d \<Longrightarrow> ks_clock (ref_view s) < d"
  shows "redis_available_workers calm_redis unary_wire sample_registry sample_clock s = Some (Ok [''w1''], s)"
proof -
  let ?k = "worker_key sample_registry ''w1''"
  have "(\<exists>d. ks_deadline (ref_view s) k = Some d \<and> d \<le> ks_clock (ref_view s)) = False" for k
    using live [of k] by (metis not_le)
  then have "later (ks_clock (ref_view s)) (ref_view s) = ref_view s"
    by (simp only: later_def Let_def if_False) simp
  then have link: "request calm_redis cmd s = cmd s" for cmd :: "reference_state \<Rightarrow> (string + 'x) \<times> reference_state"
    by (simp add: request_def calm_redis_def put_view_def)
  have "filter (rd_match calm_redis (worker_pattern sample_registry))
      (sorted_list_of_set (dom (ks_value (ref_view s)))) = [?k]"
    using worker_key_matches [OF calm_redis_ok, of sample_registry] hash fin only
    by (intro filter_one) (auto simp: domIff)
  then have scan: "rd_scan calm_redis 0 (worker_pattern sample_registry) 100 s = (Ok (0, [?k]), s)"
    by (simp add: matching_keys_def calm_redis_fields reference_redis_def)
  have hget: "rd_hget calm_redis ?k ''registration'' s
      = (Ok (Some (encode_registration unary_wire (sample_registration ''w1'' ''two''))), s)"
    using hash sample_hash_ok by (simp add: calm_redis_fields reference_redis_def on_hash_def worker_hash_def)
  have "wr_worker_id (sample_registration ''w1'' ''two'') = ''w1''" by (simp add: sample_registration_def)
  then show ?thesis
    by (simp add: redis_available_workers_def connect_def link scan_workers.simps scan hget
        wire_okD [OF unary_wire_ok])
qed

lemma sample_listing:
  "redis_available_workers calm_redis unary_wire sample_registry sample_clock sample_registered
     = Some (Ok [''w1''], sample_registered)"
  by (rule calm_listing) (auto simp: sample_registered_view worker_key_def split: if_splits)

section \<open>Leases\<close>

text \<open>C19. A heartbeat that Redis accepted renews the lease exactly: if nothing else happens, the worker
  is a member at every later time before the time to live has passed since, and at no time after.\<close>

theorem redis_lease_exact:
  assumes "redis_ok R" and "wire_ok W" and "registry_wf W c (rd_view R s)"
    and "redis_heartbeat R W c clk i g s = (Ok (), s')"
  shows "registry_members W c (later t (rd_view R s')) i \<noteq> None
    \<longleftrightarrow> t < ks_clock (rd_view R s') + ttl_millis c"
proof -
  note d = redis_deployment.intro [OF assms(1,2)]
  have "registry_wf W c (rd_view R s')"
    using redis_deployment.redis_heartbeat_spec [OF d assms(3,4)]
    by (simp add: redis_deployment.aged_def [OF d])
  from leased_until [OF assms(2) this redis_deployment.redis_heartbeat_leased [OF d assms(3,4)]]
  show ?thesis .
qed

lemma sample_registered_wf: "registry_wf unary_wire sample_registry (rd_view calm_redis sample_registered)"
proof -
  have "rd_view calm_redis sample_registered = ref_view sample_registered"
    by (simp add: calm_redis_fields reference_redis_def)
  then show ?thesis
    using sample_registered_view(1) sample_hash_ok
    by (auto simp: registry_wf_def ttl_millis_def sample_registry_def worker_key_def sample_registration_def)
qed

abbreviation sample_beaten :: reference_state where
  "sample_beaten \<equiv> snd (redis_heartbeat calm_redis unary_wire sample_registry sample_clock ''w1'' ''two'' sample_registered)"

lemma sample_heartbeat_ok:
  "redis_heartbeat calm_redis unary_wire sample_registry sample_clock ''w1'' ''two'' sample_registered
     = (Ok (), sample_beaten)"
  by (rule prod_eqI) (simp_all add: redis_register_def register_script_def redis_heartbeat_def
      heartbeat_script_def calm_eval put_view_def)

theorem redis_lease_exact_witness:
  "registry_members unary_wire sample_registry (later 29999 (rd_view calm_redis sample_beaten)) ''w1'' \<noteq> None
   \<and> registry_members unary_wire sample_registry (later 30000 (rd_view calm_redis sample_beaten)) ''w1'' = None"
proof -
  have "ks_clock (rd_view calm_redis sample_beaten) = 0" "ttl_millis sample_registry = 30000"
    by (simp_all add: redis_register_def register_script_def redis_heartbeat_def heartbeat_script_def
        calm_eval put_view_def)
  with redis_lease_exact [OF calm_redis_ok unary_wire_ok sample_registered_wf sample_heartbeat_ok, of 29999]
    redis_lease_exact [OF calm_redis_ok unary_wire_ok sample_registered_wf sample_heartbeat_ok, of 30000]
  show ?thesis by simp
qed

text \<open>In the memory registry, too, a lease lasts exactly the time to live: after an accepted
  heartbeat, a listing names the worker if and only if it is taken before the time to live has passed
  since the heartbeat.\<close>

lemma memory_lease_exact:
  assumes "memory_heartbeat clk i g m = (Ok (), m')"
  shows "\<exists>ids. fst (memory_available_workers clk' m') = Ok ids
    \<and> (i \<in> set ids \<longleftrightarrow> cl_now clk' < cl_then clk + mwr_membership_ttl m)"
  using assms
  by (auto simp: memory_heartbeat_def memory_available_workers_def Let_def put_entry_def expiry_def
      live_entry_def fmdom'_alt_def [symmetric] fmlookup_dom'_iff split: if_splits option.splits)

text \<open>A time to live that Redis refuses as an expiry: over a reliable connection the registration of a new
  worker fails, and leaves a member whose key never expires.\<close>

lemma refused_expiry_leaves_member:
  assumes "redis_ok R" and "wire_ok W" and "reliable R" and "registry_wf W c (rd_view R s)"
    and "registry_members W c (rd_view R s) (wr_worker_id r) = None"
    and "ks_deadline (rd_view R s) (worker_key c (wr_worker_id r)) = None" and "2 ^ 63 \<le> ttl_millis c"
  shows "\<exists>e s'. redis_register R W c clk r s = (Err e, s')
    \<and> registry_members W c (rd_view R s') (wr_worker_id r) = Some r
    \<and> ks_deadline (rd_view R s') (worker_key c (wr_worker_id r)) = None"
proof -
  let ?k = "worker_key c (wr_worker_id r)"
  let ?fvs = "\<lambda>now. [(''generation'', wr_generation r), (''registration'', encode_registration W r),
      (''registered_at_ms'', now), (''last_heartbeat_at_ms'', '''')]"
  note dep = redis_deployment.intro [OF assms(1,2)]
  obtain t s1 where s1: "rd_view R s1 = later t (rd_view R s)" "connect R s = (Ok (), s1)"
    using reliable_connect [OF assms(1,3)] by blast
  let ?script = "register_script R ?k (wr_generation r) (encode_registration W r)
      (show_nat (registry_unix_millis (cl_wall clk))) (ttl_millis c)"
  obtain u s2 where s2: "rd_view R s2 = later u (rd_view R s1)" "request R ?script s1 = ?script s2"
    using reliable_request [OF assms(1,3)] by blast
  have "ks_value (rd_view R s) ?k = None"
    using assms(5) by (cases rule: registry_wf_cases [OF assms(2,4), of "wr_worker_id r"]) auto
  then have k2: "ks_value (rd_view R s2) ?k = None" "ks_deadline (rd_view R s2) ?k = None"
    using assms(6) s1(1) s2(1) by (simp_all add: later_def Let_def)
  obtain s3 where s3: "rd_hget R ?k ''generation'' s2 = (Ok None, s3)" "rd_view R s3 = rd_view R s2"
    using hget_reply [OF assms(1), of s2 ?k Map.empty] k2(1) by auto
  let ?now = "show_nat (registry_unix_millis (cl_wall clk))"
  obtain n s4 where s4: "rd_hset R ?k (?fvs ?now) s3 = (Ok n, s4)"
      "rd_view R s4 = hset_effect ?k (?fvs ?now) (rd_view R s3)"
    using hset_reply [OF assms(1), of s3 ?k Map.empty] k2(1) s3(2) by auto
  have "refuses R (rd_pexpire R ?k (ttl_millis c) s4) s4"
    using redis_okD(5) [OF assms(1)] assms(7) unfolding keys_ok_def by (metis add.commute linorder_not_le trans_le_add1)
  then obtain e s5 where s5: "rd_pexpire R ?k (ttl_millis c) s4 = (Err e, s5)" "rd_view R s5 = rd_view R s4"
    by (cases "rd_pexpire R ?k (ttl_millis c) s4"; cases "fst (rd_pexpire R ?k (ttl_millis c) s4)") (auto simp: refuses_def)
  have "redis_register R W c clk r s = (Err (''cannot register worker: '' @ e), s5)"
    using s1 s2 s3 s4 s5 by (simp add: redis_register_def register_script_def)
  moreover have "registry_members W c (rd_view R s5) (wr_worker_id r) = Some r"
      "ks_deadline (rd_view R s5) ?k = None"
    using k2 s3(2) s4(2) s5(2) by (simp_all add: registry_members_def hset_effect_def wire_okD [OF assms(2)])
  ultimately show ?thesis by blast
qed

end
