(* ===== verification/Worker_Liveness.thy ===== *)
theory Worker_Liveness
  imports Worker_Leases
begin

text \<open>
  Leases under interference: what the calls of all workers, lost requests and expiries leave of one
  worker's lease in Redis, and that a worker that beats in time stays a member.
\<close>

section \<open>The deadlines\<close>

text \<open>The scripts of the registry take no time and change no deadline but the one of their worker, which
  they put off by the whole time to live, if at all.\<close>

definition touched :: "string \<Rightarrow> nat \<Rightarrow> keyspace \<Rightarrow> keyspace \<Rightarrow> bool" where
  "touched k ms v v' \<longleftrightarrow> ks_clock v' = ks_clock v
     \<and> (\<forall>x. ks_deadline v' x = ks_deadline v x \<or> x = k \<and> ks_deadline v' x = Some (ks_clock v + ms))"

lemma touched_refl [simp]: "touched k ms v v"
  by (simp add: touched_def)

lemma touched_trans: "touched k ms v v1 \<Longrightarrow> touched k ms v1 v2 \<Longrightarrow> touched k ms v v2"
  unfolding touched_def by metis

lemma commands_touch:
  assumes "redis_ok R"
  shows "touched k ms (rd_view R s) (rd_view R (snd (rd_hget R k f s)))"
    "touched k ms (rd_view R s) (rd_view R (snd (rd_hset R k fvs s)))"
    "0 < ms \<Longrightarrow> touched k ms (rd_view R s) (rd_view R (snd (rd_pexpire R k ms s)))"
proof -
  have hash: "case as_hash (ks_value (rd_view R s) k) of None \<Rightarrow> refuses R (rd_hget R k f s) s
      | Some h \<Rightarrow> replies R (rd_hget R k f s) (h f) (rd_view R s)"
    "case as_hash (ks_value (rd_view R s) k) of None \<Rightarrow> refuses R (rd_hset R k fvs s) s
      | Some h \<Rightarrow> (\<exists>n. replies R (rd_hset R k fvs s) n (hset_effect k fvs (rd_view R s)))"
    using redis_okD(4) [OF assms] unfolding hashes_ok_def by blast+
  then show "touched k ms (rd_view R s) (rd_view R (snd (rd_hget R k f s)))"
    "touched k ms (rd_view R s) (rd_view R (snd (rd_hset R k fvs s)))"
    by (auto simp: replies_def refuses_def touched_def hset_effect_def split: option.splits)
  have "if ks_clock (rd_view R s) + ms < 2 ^ 63
      then (\<exists>n. replies R (rd_pexpire R k ms s) n (pexpire_effect k ms (rd_view R s)))
      else refuses R (rd_pexpire R k ms s) s"
    using redis_okD(5) [OF assms] unfolding keys_ok_def by blast
  then show "0 < ms \<Longrightarrow> touched k ms (rd_view R s) (rd_view R (snd (rd_pexpire R k ms s)))"
    by (auto simp: replies_def refuses_def touched_def pexpire_effect_def split: if_splits)
qed

lemma call_touches:
  assumes "touched k ms v (rd_view R s)" and "touched k ms (rd_view R s) (rd_view R (snd (cmd s)))"
    and "\<And>x s. touched k ms v (rd_view R s) \<Longrightarrow> touched k ms v (rd_view R (snd (rest x s)))"
  shows "touched k ms v (rd_view R (snd (try_call f (cmd s) rest)))"
  using touched_trans [OF assms(1,2)] assms(3)
  by (intro try_call_keeps [where I = "\<lambda>s. touched k ms v (rd_view R s)"])

lemma scripts_touch:
  assumes "redis_ok R" and "0 < ms"
  shows "touched k ms (rd_view R s) (rd_view R (snd (heartbeat_script R k g now ms s)))"
    "touched k ms (rd_view R s) (rd_view R (snd (register_script R k g b now ms s)))"
  unfolding heartbeat_script_def register_script_def
  by (intro call_touches; simp add: commands_touch assms; intro impI conjI call_touches; simp add: commands_touch assms)+

context redis_deployment
begin

section \<open>A lease\<close>

text \<open>The lease of worker \<open>i\<close> and its generation \<open>g\<close> until time \<open>t\<close>.\<close>

definition lease_kept :: "RedisWorkerRegistry \<Rightarrow> string \<Rightarrow> string \<Rightarrow> nat \<Rightarrow> 'd \<Rightarrow> bool" where
  "lease_kept c i g t s \<longleftrightarrow> rwf_in c s \<and> t \<le> ks_clock (rd_view R s) + ttl_millis c
     \<and> (ks_clock (rd_view R s) < t \<longrightarrow>
          (\<exists>r d. members_in c s i = Some r \<and> wr_generation r = g
             \<and> ks_deadline (rd_view R s) (worker_key c i) = Some d \<and> t \<le> d))"

lemma lease_later:
  assumes "lease_kept c i g t s" and "ks_clock (rd_view R s) \<le> u" and "rd_view R s' = later u (rd_view R s)"
  shows "lease_kept c i g t s'"
proof -
  have "rwf_in c s'" using aged_later [OF _ assms(3), of c] assms(1) by (simp add: lease_kept_def aged_def)
  moreover have "members_in c s' i = members_in c s i" 
      "ks_deadline (rd_view R s') (worker_key c i) = ks_deadline (rd_view R s) (worker_key c i)"
    if "u < t" using that assms by (auto simp: lease_kept_def registry_members_def later_def Let_def)
  ultimately show ?thesis using assms by (auto simp: lease_kept_def)
qed

lemma lease_touched:
  assumes "lease_kept c i g t s" and "touched (worker_key c j) (ttl_millis c) (rd_view R s) (rd_view R s')"
    and "rwf_in c s'"
    and "ks_clock (rd_view R s) < t \<Longrightarrow> members_in c s' i = members_in c s i"
  shows "lease_kept c i g t s'"
proof -
  from assms(2) have "ks_clock (rd_view R s') = ks_clock (rd_view R s)"
      "ks_deadline (rd_view R s') (worker_key c i) = ks_deadline (rd_view R s) (worker_key c i)
       \<or> ks_deadline (rd_view R s') (worker_key c i) = Some (ks_clock (rd_view R s) + ttl_millis c)"
    by (simp_all add: touched_def) blast
  with assms(1,3,4) show ?thesis by (auto simp: lease_kept_def)
qed

lemma lease_request:
  assumes "lease_kept c i g t s" and "\<And>s1. lease_kept c i g t s1 \<Longrightarrow> lease_kept c i g t (snd (cmd s1))"
  shows "lease_kept c i g t (snd (request R cmd s))"
proof -
  obtain x s' where run: "request R cmd s = (x, s')" by fastforce
  from request_cases [OF redis run] have "lease_kept c i g t s'"
  proof cases
    case (1 u s1)
    from assms(2) [OF lease_later [OF assms(1) 1(1,2)]] 1(3) show ?thesis by simp
  next
    case (2 u e)
    from lease_later [OF assms(1) 2(1,3)] show ?thesis .
  next
    case (3 u s1 e)
    from assms(2) [OF lease_later [OF assms(1) 3(1,2)]] 3(4) show ?thesis by simp
  qed
  with run show ?thesis by simp
qed

lemma lease_connect: "lease_kept c i g t s \<Longrightarrow> lease_kept c i g t (snd (connect R s))"
  using connect_view [OF redis, of s] lease_later by blast

lemma lease_heartbeat:
  assumes "lease_kept c i g t s"
  shows "lease_kept c i g t (snd (redis_heartbeat R W c clk j g' s))"
proof -
  have script: "lease_kept c i g t (snd (heartbeat_script R (worker_key c j) g' now (ttl_millis c) s1))"
    if "lease_kept c i g t s1" for s1 now
  proof -
    have wf: "rwf_in c s1" "0 < ttl_millis c" using that by (simp_all add: lease_kept_def registry_wf_def)
    from heartbeat_script_effect [OF redis wire wf(1) prod.collapse [symmetric], of j g' now]
    show ?thesis by (intro lease_touched [OF that scripts_touch(1) [OF redis wf(2)]]) simp_all
  qed
  show ?thesis unfolding redis_heartbeat_def
    by (intro try_call_keeps [where I = "lease_kept c i g t"] lease_connect lease_request script assms) simp_all
qed

lemma lease_register:
  assumes "lease_kept c i g t s" and r: "wr_worker_id r = i \<Longrightarrow> wr_generation r = g"
  shows "lease_kept c i g t (snd (redis_register R W c clk r s))"
proof -
  have script: "lease_kept c i g t (snd (register_script R (worker_key c (wr_worker_id r)) (wr_generation r)
      (encode_registration W r) now (ttl_millis c) s1))" if "lease_kept c i g t s1" for s1 now
  proof -
    have wf: "rwf_in c s1" "0 < ttl_millis c" using that by (simp_all add: lease_kept_def registry_wf_def)
    from register_script_effect [OF redis wire wf(1) refl prod.collapse [symmetric], of r now]
    show ?thesis 
      using that r by (intro lease_touched [OF that scripts_touch(2) [OF redis wf(2)]]) 
       (auto simp: lease_kept_def registration_outcome_def)
  qed
  show ?thesis unfolding redis_register_def
    by (intro try_call_keeps [where I = "lease_kept c i g t"] lease_connect lease_request script assms) simp_all
qed

lemma lease_passed:
  assumes "lease_kept c i g t s" and "rd_view R s' = rd_view R s \<or> passed s s'"
  shows "lease_kept c i g t s'"
proof (cases "rd_view R s' = rd_view R s")
  case True
  with assms(1) show ?thesis by (simp add: lease_kept_def)
next
  case False
  with assms(2) obtain u where "ks_clock (rd_view R s) \<le> u" "rd_view R s' = later u (rd_view R s)"
    unfolding passed_def by blast
  then show ?thesis by (rule lease_later [OF assms(1)])
qed

lemma lease_scan:
  assumes "scan_workers R W (worker_pattern c) cur ids s = Some y" and "lease_kept c i g t s"
  shows "lease_kept c i g t (snd y)"
proof -
  let ?P = "\<lambda>R' W' p cur ids s y. R' = R \<longrightarrow> W' = W \<longrightarrow> p = worker_pattern c \<longrightarrow> lease_kept c i g t s
    \<longrightarrow> lease_kept c i g t (snd y)"
  have "?P R W (worker_pattern c) cur ids s y"
  proof (rule scan_workers.raw_induct [of ?P, OF _ assms(1)], intro impI, goal_cases)
    case (1 loop R' W' p cur ids s y)
    note IH = 1(1) and run = 1(2) [unfolded 1(3-5)]
    let ?scan = "rd_scan R cur (worker_pattern c) 100"
    obtain z s1 where z: "request R ?scan s = (z, s1)" by fastforce
    have "lease_kept c i g t (snd (?scan s0))" if "lease_kept c i g t s0" for s0
      using scan_keys [OF prod.collapse [symmetric], of cur c 100 s0] that lease_passed by blast
    then have s1: "lease_kept c i g t s1" using lease_request [OF 1(6), of ?scan] z by simp
    show ?case
    proof (cases z)
      case (Inl e)
      with run z s1 show ?thesis by auto
    next
      case (Inr found)
      then obtain next' keys where k: "z = Ok (next', keys)" by (cases found) simp
      have "\<forall>k \<in> set keys. \<exists>j. k = worker_key c j"
        using request_cases [OF redis z [unfolded k]]
      proof cases
        case (1 u s0)
        from scan_keys [OF 1(3)] show ?thesis by auto
      qed simp_all
      moreover have wf: "rwf_in c s1" using s1 by (simp add: lease_kept_def)
      moreover obtain u s2 where u: "read_workers R W keys ids s1 = (u, s2)" by fastforce
      ultimately have s2: "lease_kept c i g t s2" using read_workers_spec lease_passed [OF s1] by blast
      with run z k u IH [of R W "worker_pattern c" next' _ s2 y] 1(3-5) show ?thesis
        by (cases u) (auto split: if_splits)
    qed
  qed
  with assms(2) show ?thesis by blast
qed

lemma lease_listing:
  assumes "redis_available_workers R W c clk s = Some (x, s')" and "lease_kept c i g t s"
  shows "lease_kept c i g t s'"
proof -
  obtain z s1 where z: "connect R s = (z, s1)" by fastforce
  with lease_connect [OF assms(2)] have "lease_kept c i g t s1" by simp
  with assms(1) z lease_scan [of c 0 "[]" s1] show ?thesis
    by (cases z) (auto simp: redis_available_workers_def)
qed

lemma lease_run:
  assumes "lease_kept c i g t s" and "\<And>clk r. Register clk r \<in> set cs \<Longrightarrow> wr_worker_id r = i \<Longrightarrow> wr_generation r = g"
  shows "lease_kept c i g t (registry_run (redis_worker_registry R W c) cs s)"
  using assms
proof (induction cs arbitrary: s)
  case (Cons x cs)
  from Cons.prems(2) have rest: "\<And>clk r. Register clk r \<in> set cs \<Longrightarrow> wr_worker_id r = i \<Longrightarrow> wr_generation r = g"
    using list.set_intros(2) by metis
  show ?case
  proof (cases x)
    case (Register clk r)
    with Cons.IH [OF lease_register [OF Cons.prems(1), of r clk] rest] Cons.prems(2) [of clk r]
    show ?thesis by (simp add: redis_worker_registry_def)
  next
    case (Beat clk j g')
    with Cons.IH [OF lease_heartbeat [OF Cons.prems(1), of clk j g'] rest] show ?thesis
      by (simp add: redis_worker_registry_def)
  next
    case (Listing clk)
    with Cons.IH [OF lease_listing [OF _ Cons.prems(1)] rest] Cons.prems(1) show ?thesis
      by (auto simp: redis_worker_registry_def split: option.split prod.split)
  qed
qed simp

lemma leased_kept:
  assumes "rwf_in c s" and "leased W c i (rd_view R s)" and "\<And>r. members_in c s i = Some r \<Longrightarrow> wr_generation r = g"
  shows "lease_kept c i g (ks_clock (rd_view R s) + ttl_millis c) s"
  using assms by (auto simp: lease_kept_def leased_def)

lemma heartbeat_answer:
  assumes "lease_kept c i g t s" and "redis_heartbeat R W c clk i g s = (x, s')" and "ks_clock (rd_view R s') < t"
  shows "x = Ok () \<or> x = Err RegistryUnavailable"
proof -
  have "rwf_in c s" using assms(1) by (simp add: lease_kept_def)
  note spec = redis_heartbeat_spec [OF this assms(2)]
  have "lease_kept c i g t s'" using lease_heartbeat [OF assms(1), of clk i g] assms(2) by simp
  with assms(3) obtain r where "members_in c s' i = Some r" "wr_generation r = g" by (auto simp: lease_kept_def)
  with spec show ?thesis by (auto split: sum.splits HeartbeatError.splits)
qed

end

section \<open>Beating in time\<close>

text \<open>Rounds of a worker: other calls reach the registry, then the worker beats. What each beat is answered,
  and the time on the clock of Redis then.\<close>

fun beats ::
  "'d redis \<Rightarrow> wire \<Rightarrow> RedisWorkerRegistry \<Rightarrow> string \<Rightarrow> string \<Rightarrow> (registry_call list \<times> clock) list \<Rightarrow> 'd
   \<Rightarrow> ((HeartbeatError + unit) \<times> nat) list \<times> 'd" where
  "beats R W c i g [] s = ([], s)"
| "beats R W c i g ((cs, clk) # rounds) s =
     (case redis_heartbeat R W c clk i g (registry_run (redis_worker_registry R W c) cs s) of
        (x, s1) \<Rightarrow> (case beats R W c i g rounds s1 of (xs, s2) \<Rightarrow> ((x, ks_clock (rd_view R s1)) # xs, s2)))"

text \<open>No two beats that reach the registry are further apart than the time to live, counted from \<open>t\<close>.\<close>

fun in_time :: "nat \<Rightarrow> nat \<Rightarrow> ((HeartbeatError + unit) \<times> nat) list \<Rightarrow> bool" where
  "in_time ttl t [] \<longleftrightarrow> True"
| "in_time ttl t ((x, u) # xs) \<longleftrightarrow> u < t + ttl \<and> in_time ttl (if x = Err RegistryUnavailable then t else u) xs"

context redis_deployment
begin

lemma beats_accepted:
  assumes "lease_kept c i g (t + ttl_millis c) s" and "beats R W c i g rounds s = (xs, s')" and "in_time (ttl_millis c) t xs"
    and "\<And>cs clk clk' r. (cs, clk) \<in> set rounds \<Longrightarrow> Register clk' r \<in> set cs \<Longrightarrow> wr_worker_id r = i \<Longrightarrow> wr_generation r = g"
    and "ks_clock (rd_view R s) < t + ttl_millis c"
  shows "(\<forall>(x, u) \<in> set xs. x = Ok () \<or> x = Err RegistryUnavailable) \<and>
    (\<exists>r. members_in c s' i = Some r \<and> wr_generation r = g)"
  using assms
proof (induction rounds arbitrary: t s xs)
  case (Cons round rounds)
  obtain cs clk where round: "round = (cs, clk)" by (cases round)
  define s0 where "s0 = registry_run (redis_worker_registry R W c) cs s"
  obtain x s1 where x: "redis_heartbeat R W c clk i g s0 = (x, s1)" by fastforce
  obtain ys where ys: "beats R W c i g rounds s1 = (ys, s')" and xs: "xs = (x, ks_clock (rd_view R s1)) # ys"
    using Cons.prems(2) x by (auto simp: round s0_def split: prod.splits)
  let ?t = "if x = Err RegistryUnavailable then t else ks_clock (rd_view R s1)"
  have k0: "lease_kept c i g (t + ttl_millis c) s0"
    unfolding s0_def by (rule lease_run [OF Cons.prems(1)]) (use Cons.prems(4) [of cs clk] round in auto)
  then have k1: "lease_kept c i g (t + ttl_millis c) s1" using lease_heartbeat [OF k0, of clk i g] x by simp
  have time: "ks_clock (rd_view R s1) < t + ttl_millis c" "in_time (ttl_millis c) ?t ys"
    using Cons.prems(3) xs by simp_all
  have ans: "x = Ok () \<or> x = Err RegistryUnavailable" by (rule heartbeat_answer [OF k0 x time(1)])
  have wf: "rwf_in c s0" "rwf_in c s1" using k0 k1 by (simp_all add: lease_kept_def)
  have "lease_kept c i g (?t + ttl_millis c) s1"
  proof (cases "x = Err RegistryUnavailable")
    case True
    with k1 show ?thesis by simp
  next
    case False
    with ans x have ok: "redis_heartbeat R W c clk i g s0 = (Ok (), s1)" by simp
    from leased_kept [OF wf(2) redis_heartbeat_leased [OF wf(1) ok]] redis_heartbeat_spec [OF wf(1) ok] False
    show ?thesis by auto
  qed
  moreover have "ks_clock (rd_view R s1) < ?t + ttl_millis c"
    using time(1) wf(1) by (simp add: registry_wf_def)
  moreover have "wr_generation r = g" if "(cs, clk) \<in> set rounds" "Register clk' r \<in> set cs" "wr_worker_id r = i" for cs clk clk' r
    using Cons.prems(4) [of cs clk clk' r] that by simp
  ultimately have "(\<forall>(x, u) \<in> set ys. x = Ok () \<or> x = Err RegistryUnavailable)
      \<and> (\<exists>r. members_in c s' i = Some r \<and> wr_generation r = g)" by (intro Cons.IH [OF _ ys time(2)])
  with ans xs show ?case by simp
qed (auto simp: lease_kept_def)

end

text \<open>C20. A worker that beats in time stays a member: from an accepted registration on, as long as no two
  beats that reach the registry are further apart than the time to live, every beat is accepted, or not
  answered for a failure of the connection, and the worker is a member under its generation, whatever
  other calls, lost requests and expiries happen in between, unless another generation of it registers.\<close>

theorem heartbeats_keep_membership:
  assumes "redis_ok R" and "wire_ok W" and "registry_wf W c (rd_view R s)"
    and "redis_register R W c clk r s = (Ok out, s0)"
    and "beats R W c (wr_worker_id r) (wr_generation r) rounds s0 = (xs, s')"
    and "in_time (ttl_millis c) (ks_clock (rd_view R s0)) xs"
    and "\<And>cs clk clk' x. (cs, clk) \<in> set rounds \<Longrightarrow> Register clk' x \<in> set cs \<Longrightarrow>
      wr_worker_id x = wr_worker_id r \<Longrightarrow> wr_generation x = wr_generation r"
  shows "(\<forall>(x, u) \<in> set xs. x = Ok () \<or> x = Err RegistryUnavailable)
    \<and> (\<exists>x. registry_members W c (rd_view R s') (wr_worker_id r) = Some x \<and> wr_generation x = wr_generation r)"
proof -
  note d = redis_deployment.intro [OF assms(1,2)]
  from redis_deployment.redis_register_spec [OF d assms(3,4)]
  have wf: "registry_wf W c (rd_view R s0)"
    and gen: "\<And>x. registry_members W c (rd_view R s0) (wr_worker_id r) = Some x \<Longrightarrow> wr_generation x = wr_generation r"
    by (auto simp: Let_def registration_outcome_def split: if_splits option.splits)
  have "ks_clock (rd_view R s0) < ks_clock (rd_view R s0) + ttl_millis c" using wf by (simp add: registry_wf_def)
  from redis_deployment.beats_accepted [OF d redis_deployment.leased_kept [OF d wf
        redis_deployment.redis_register_leased [OF d assms(3,4)] gen] assms(5-7) this]
  show ?thesis .
qed

theorem heartbeats_keep_membership_witness:
  "\<exists>s'. beats calm_redis unary_wire sample_registry ''w1'' ''two'' [([Listing sample_clock], sample_clock)] sample_registered
      = ([(Ok (), 0)], s')
    \<and> (\<exists>x. registry_members unary_wire sample_registry (rd_view calm_redis s') ''w1'' = Some x \<and> wr_generation x = ''two'')"
proof -
  have r: "wr_worker_id (sample_registration ''w1'' ''two'') = ''w1''" "wr_generation (sample_registration ''w1'' ''two'') = ''two''"
    by (simp_all add: sample_registration_def)
  have time: "ks_clock (rd_view calm_redis sample_beaten) = 0" "ttl_millis sample_registry = 30000"
      "ks_clock (rd_view calm_redis sample_registered) = 0"
    by (simp_all add: redis_register_def register_script_def redis_heartbeat_def heartbeat_script_def calm_eval put_view_def)
  define b where "b = sample_beaten"
  have run: "beats calm_redis unary_wire sample_registry ''w1'' ''two'' [([Listing sample_clock], sample_clock)] sample_registered
      = ([(Ok (), 0)], b)"
    using sample_listing sample_heartbeat_ok [folded b_def] time(1) [folded b_def]
    by (simp add: redis_worker_registry_def)
  from heartbeats_keep_membership [OF calm_redis_ok unary_wire_ok sample_registry_wf sample_register_ok, unfolded r, OF run]
    time run show ?thesis by simp
qed

end
