(* ===== verification/Execution_Store.thy ===== *)
theory Execution_Store
  imports Protocols Redis_Service
begin

text \<open>
  \<^verbatim>\<open>src/src/execution_store.rs\<close>: the trait \<open>ExecutionStore\<close>, the in-memory store and the Redis store.
  The trait is a record of operations over a state, as a \<open>dyn ExecutionStore\<close> is a table of methods;
  its contract is the locale \<open>execution_store\<close>, which both stores satisfy. Readings of the clock are
  arguments.
\<close>

section \<open>Records and the trait\<close>

record ExecutionRecord =
  xr_execution_id :: string
  xr_job_id :: string
  xr_assignment_id :: string
  xr_worker_id :: string
  xr_state :: ExecutionState
  xr_created_at :: system_time
  xr_updated_at :: system_time

type_synonym ExecutionStoreError = string

record 'w ExecutionStore =
  store_create :: "ExecutionRecord \<Rightarrow> 'w \<Rightarrow> (ExecutionStoreError + unit) \<times> 'w"
  store_get :: "string \<Rightarrow> 'w \<Rightarrow> (ExecutionStoreError + ExecutionRecord option) \<times> 'w"
  store_update_state ::
    "system_time \<Rightarrow> string \<Rightarrow> ExecutionState \<Rightarrow> 'w \<Rightarrow> (ExecutionStoreError + unit) \<times> 'w"

section \<open>The store in memory\<close>

text \<open>An \<open>RwLock\<close> is poisoned once a thread panics while it writes.\<close>

record MemoryExecutionStore =
  mes_executions :: "string \<rightharpoonup> ExecutionRecord"
  mes_poisoned :: bool

definition memory_create ::
  "ExecutionRecord \<Rightarrow> MemoryExecutionStore \<Rightarrow> (ExecutionStoreError + unit) \<times> MemoryExecutionStore" where
  "memory_create r m =
     (if mes_poisoned m then (Err ''execution store lock is poisoned'', m)
      else if mes_executions m (xr_execution_id r) \<noteq> None then (Err ''execution already exists'', m)
      else (Ok (), m\<lparr>mes_executions := (mes_executions m)(xr_execution_id r \<mapsto> r)\<rparr>))"

definition memory_get ::
  "string \<Rightarrow> MemoryExecutionStore \<Rightarrow> (ExecutionStoreError + ExecutionRecord option) \<times> MemoryExecutionStore" where
  "memory_get i m =
     (if mes_poisoned m then Err ''execution store lock is poisoned'' else Ok (mes_executions m i), m)"

definition memory_update_state ::
  "system_time \<Rightarrow> string \<Rightarrow> ExecutionState \<Rightarrow> MemoryExecutionStore
   \<Rightarrow> (ExecutionStoreError + unit) \<times> MemoryExecutionStore" where
  "memory_update_state now i st m =
     (if mes_poisoned m then (Err ''execution store lock is poisoned'', m)
      else case mes_executions m i of
             None \<Rightarrow> (Err ''execution not found'', m)
           | Some r \<Rightarrow> (Ok (), m\<lparr>mes_executions := (mes_executions m)
                         (i \<mapsto> r\<lparr>xr_state := st, xr_updated_at := now\<rparr>)\<rparr>))"

definition memory_execution_store :: "MemoryExecutionStore ExecutionStore" where
  "memory_execution_store =
     \<lparr>store_create = memory_create, store_get = memory_get, store_update_state = memory_update_state\<rparr>"

section \<open>The store in Redis\<close>

record RedisExecutionStore =
  res_key_prefix :: string

text \<open>\<open>open_client\<close> stands for \<open>redis::Client::open\<close>, which checks the URL.\<close>

definition redis_execution_store_new ::
  "(string \<Rightarrow> string + unit) \<Rightarrow> string \<Rightarrow> string \<Rightarrow> ExecutionStoreError + RedisExecutionStore" where
  "redis_execution_store_new open_client url key_prefix =
     (case open_client url of
        Err e \<Rightarrow> Err (''invalid Redis URL: '' @ e)
      | Ok _ \<Rightarrow> Ok \<lparr>res_key_prefix = trim_end_matches (CHR '':'') key_prefix\<rparr>)"

definition execution_key :: "RedisExecutionStore \<Rightarrow> string \<Rightarrow> string" where
  "execution_key c i = res_key_prefix c @ '':'' @ i"

text \<open>Milliseconds since the epoch, 0 before it, saturating at \<open>u64::MAX\<close>.\<close>

definition unix_millis :: "system_time \<Rightarrow> nat" where
  "unix_millis t = min (nat (t div 1000000)) (2 ^ 64 - 1)"

definition system_time :: "nat \<Rightarrow> system_time" where
  "system_time millis = int millis * 1000000"

definition execution_fields :: "string list" where
  "execution_fields = [''execution_id'', ''job_id'', ''assignment_id'', ''worker_id'', ''state'',
     ''created_at_ms'', ''updated_at_ms'']"

definition execution_hash :: "wire \<Rightarrow> ExecutionRecord \<Rightarrow> (string \<times> bytes) list" where
  "execution_hash W r = zip execution_fields
     [xr_execution_id r, xr_job_id r, xr_assignment_id r, xr_worker_id r,
      show_int (state_code W (xr_state r)), show_nat (unix_millis (xr_created_at r)),
      show_nat (unix_millis (xr_updated_at r))]"

text \<open>The Lua script of \<open>create\<close>.\<close>

definition create_script ::
  "'d redis \<Rightarrow> string \<Rightarrow> (string \<times> bytes) list \<Rightarrow> 'd \<Rightarrow> (string + int) \<times> 'd" where
  "create_script R key fvs s =
     try_call (\<lambda>e. e) (rd_exists R key s) (\<lambda>n s.
       if n = 1 then (Ok 0, s)
       else try_call (\<lambda>e. e) (rd_hset R key fvs s) (\<lambda>_ s. (Ok 1, s)))"

definition redis_create ::
  "'d redis \<Rightarrow> wire \<Rightarrow> RedisExecutionStore \<Rightarrow> ExecutionRecord \<Rightarrow> 'd
   \<Rightarrow> (ExecutionStoreError + unit) \<times> 'd" where
  "redis_create R W c r s =
     try_call (\<lambda>e. ''cannot connect to Redis: '' @ e) (connect R s) (\<lambda>_ s.
       try_call (\<lambda>e. ''cannot create execution: '' @ e)
         (request R (create_script R (execution_key c (xr_execution_id r)) (execution_hash W r)) s)
         (\<lambda>created s. if created = 1 then (Ok (), s) else (Err ''execution already exists'', s)))"

text \<open>The part of \<open>get\<close> after the reply: a missing first field means no record; every other field is
  required.\<close>

definition field :: "bytes option list \<Rightarrow> nat \<Rightarrow> ExecutionStoreError + string" where
  "field vs i =
     (if i < length vs then ok_or ''execution record is missing a required field'' (vs ! i)
      else Err ''execution record is missing a required field'')"

definition bind_ok :: "'e + 'a \<Rightarrow> ('a \<Rightarrow> 'e + 'b) \<Rightarrow> 'e + 'b" where
  "bind_ok r k = (case r of Err e \<Rightarrow> Err e | Ok v \<Rightarrow> k v)"

lemma bind_ok_simps [simp]: "bind_ok (Err e) k = Err e" "bind_ok (Ok v) k = k v"
  by (simp_all add: bind_ok_def)

definition parse_execution :: "wire \<Rightarrow> bytes option list \<Rightarrow> ExecutionStoreError + ExecutionRecord option" where
  "parse_execution W vs =
     (if vs = [] \<or> hd vs = None then Ok None
      else
        bind_ok (field vs 4) (\<lambda>f4.
        bind_ok (ok_or ''invalid execution state in Redis'' (parse_signed 32 f4)) (\<lambda>state_value.
        bind_ok (ok_or ''unknown execution state in Redis'' (state_of_code W state_value)) (\<lambda>st.
        bind_ok (field vs 5) (\<lambda>f5.
        bind_ok (ok_or ''invalid execution created_at in Redis'' (parse_unsigned 64 f5)) (\<lambda>created.
        bind_ok (field vs 6) (\<lambda>f6.
        bind_ok (ok_or ''invalid execution updated_at in Redis'' (parse_unsigned 64 f6)) (\<lambda>updated.
        bind_ok (field vs 0) (\<lambda>f0. bind_ok (field vs 1) (\<lambda>f1.
        bind_ok (field vs 2) (\<lambda>f2. bind_ok (field vs 3) (\<lambda>f3.
          Ok (Some \<lparr>xr_execution_id = f0, xr_job_id = f1, xr_assignment_id = f2, xr_worker_id = f3,
               xr_state = st, xr_created_at = system_time created,
               xr_updated_at = system_time updated\<rparr>)))))))))))))"

definition redis_get ::
  "'d redis \<Rightarrow> wire \<Rightarrow> RedisExecutionStore \<Rightarrow> string \<Rightarrow> 'd
   \<Rightarrow> (ExecutionStoreError + ExecutionRecord option) \<times> 'd" where
  "redis_get R W c i s =
     try_call (\<lambda>e. ''cannot connect to Redis: '' @ e) (connect R s) (\<lambda>_ s.
       try_call (\<lambda>e. ''cannot read execution: '' @ e)
         (request R (rd_hmget R (execution_key c i) execution_fields) s)
         (\<lambda>vs s. (parse_execution W vs, s)))"

text \<open>The Lua script of \<open>update_state\<close>.\<close>

definition update_script ::
  "'d redis \<Rightarrow> string \<Rightarrow> string \<Rightarrow> string \<Rightarrow> 'd \<Rightarrow> (string + int) \<times> 'd" where
  "update_script R key st updated s =
     try_call (\<lambda>e. e) (rd_exists R key s) (\<lambda>n s.
       if n = 0 then (Ok 0, s)
       else try_call (\<lambda>e. e) (rd_hset R key [(''state'', st), (''updated_at_ms'', updated)] s)
              (\<lambda>_ s. (Ok 1, s)))"

definition redis_update_state ::
  "'d redis \<Rightarrow> wire \<Rightarrow> RedisExecutionStore \<Rightarrow> system_time \<Rightarrow> string \<Rightarrow> ExecutionState \<Rightarrow> 'd
   \<Rightarrow> (ExecutionStoreError + unit) \<times> 'd" where
  "redis_update_state R W c now i st s =
     try_call (\<lambda>e. ''cannot connect to Redis: '' @ e) (connect R s) (\<lambda>_ s.
       try_call (\<lambda>e. ''cannot update execution: '' @ e)
         (request R (update_script R (execution_key c i) (show_int (state_code W st))
            (show_nat (unix_millis now))) s)
         (\<lambda>updated s. if updated = 1 then (Ok (), s) else (Err ''execution not found'', s)))"

definition redis_execution_store :: "'d redis \<Rightarrow> wire \<Rightarrow> RedisExecutionStore \<Rightarrow> 'd ExecutionStore" where
  "redis_execution_store R W c =
     \<lparr>store_create = redis_create R W c, store_get = redis_get R W c,
      store_update_state = redis_update_state R W c\<rparr>"

section \<open>Contract\<close>

definition put_state :: "ExecutionState \<Rightarrow> system_time \<Rightarrow> ExecutionRecord \<Rightarrow> ExecutionRecord" where
  "put_state st t r = r\<lparr>xr_state := st, xr_updated_at := t\<rparr>"

lemma put_state_simps [simp]:
  "xr_execution_id (put_state st t r) = xr_execution_id r"
  "xr_job_id (put_state st t r) = xr_job_id r"
  "xr_assignment_id (put_state st t r) = xr_assignment_id r"
  "xr_worker_id (put_state st t r) = xr_worker_id r"
  "xr_state (put_state st t r) = st" "xr_updated_at (put_state st t r) = t"
  by (simp_all add: put_state_def)

text \<open>The calls a client makes on a store, one after the other.\<close>

datatype store_call = Create ExecutionRecord | Get string | Update system_time string ExecutionState

fun store_calls :: "'w ExecutionStore \<Rightarrow> store_call list \<Rightarrow> 'w \<Rightarrow> 'w" where
  "store_calls S [] w = w"
| "store_calls S (Create r # cs) w = store_calls S cs (snd (store_create S r w))"
| "store_calls S (Get i # cs) w = store_calls S cs (snd (store_get S i w))"
| "store_calls S (Update t i st # cs) w = store_calls S cs (snd (store_update_state S t i st w))"

text \<open>What the client sees of the same calls.\<close>

datatype store_reply = Done "ExecutionStoreError + unit"
  | Got "ExecutionStoreError + ExecutionRecord option"

fun store_replies :: "'w ExecutionStore \<Rightarrow> store_call list \<Rightarrow> 'w \<Rightarrow> store_reply list" where
  "store_replies S [] w = []"
| "store_replies S (Create r # cs) w =
     (case store_create S r w of (res, w') \<Rightarrow> Done res # store_replies S cs w')"
| "store_replies S (Get i # cs) w =
     (case store_get S i w of (res, w') \<Rightarrow> Got res # store_replies S cs w')"
| "store_replies S (Update t i st # cs) w =
     (case store_update_state S t i st w of (res, w') \<Rightarrow> Done res # store_replies S cs w')"

text \<open>\<open>recs\<close> is the map a store represents, \<open>stored\<close> what it keeps of a record and \<open>stamp\<close> of a time.
  A failed call may still have taken effect: its reply may have been lost.\<close>

locale execution_store =
  fixes S :: "'w ExecutionStore"
    and recs :: "'w \<Rightarrow> string \<rightharpoonup> ExecutionRecord"
    and invar :: "'w \<Rightarrow> bool"
    and stored :: "ExecutionRecord \<Rightarrow> ExecutionRecord"
    and stamp :: "system_time \<Rightarrow> system_time"
  assumes create_ok: "invar w \<Longrightarrow> store_create S r w = (Ok (), w') \<Longrightarrow>
      recs w (xr_execution_id r) = None \<and> recs w' = (recs w)(xr_execution_id r \<mapsto> stored r)"
    and create_err: "invar w \<Longrightarrow> store_create S r w = (Err e, w') \<Longrightarrow>
      recs w' = recs w
      \<or> recs w (xr_execution_id r) = None \<and> recs w' = (recs w)(xr_execution_id r \<mapsto> stored r)"
    and get_ok: "invar w \<Longrightarrow> store_get S i w = (Ok x, w') \<Longrightarrow> x = recs w i"
    and get_recs: "invar w \<Longrightarrow> recs (snd (store_get S i w)) = recs w"
    and update_ok: "invar w \<Longrightarrow> store_update_state S t i st w = (Ok (), w') \<Longrightarrow>
      (\<exists>r. recs w i = Some r \<and> recs w' = (recs w)(i \<mapsto> put_state st (stamp t) r))"
    and update_err: "invar w \<Longrightarrow> store_update_state S t i st w = (Err e, w') \<Longrightarrow>
      recs w' = recs w
      \<or> (\<exists>r. recs w i = Some r \<and> recs w' = (recs w)(i \<mapsto> put_state st (stamp t) r))"
    and invar_create: "invar w \<Longrightarrow> invar (snd (store_create S r w))"
    and invar_get: "invar w \<Longrightarrow> invar (snd (store_get S i w))"
    and invar_update: "invar w \<Longrightarrow> invar (snd (store_update_state S t i st w))"
    and stored_ids: "xr_execution_id (stored r) = xr_execution_id r" "xr_job_id (stored r) = xr_job_id r"
      "xr_assignment_id (stored r) = xr_assignment_id r" "xr_worker_id (stored r) = xr_worker_id r"
      "xr_state (stored r) = xr_state r"
begin

lemma create_recs:
  assumes "invar w"
  shows "recs (snd (store_create S r w)) = recs w
    \<or> recs w (xr_execution_id r) = None
      \<and> recs (snd (store_create S r w)) = (recs w)(xr_execution_id r \<mapsto> stored r)"
proof -
  obtain res w' where c: "store_create S r w = (res, w')" by fastforce
  then show ?thesis
    using create_ok [OF assms, of r w'] create_err [OF assms, of r _ w'] by (cases res) auto
qed

lemma update_recs:
  assumes "invar w"
  shows "recs (snd (store_update_state S t i st w)) = recs w
    \<or> (\<exists>r. recs w i = Some r
          \<and> recs (snd (store_update_state S t i st w)) = (recs w)(i \<mapsto> put_state st (stamp t) r))"
proof -
  obtain res w' where c: "store_update_state S t i st w = (res, w')" by fastforce
  then show ?thesis
    using update_ok [OF assms, of t i st w'] update_err [OF assms, of t i st _ w'] by (cases res) auto
qed

text \<open>What a record says about who runs it never changes, and no record disappears.\<close>

lemma calls_keep_identity:
  "invar w \<Longrightarrow> recs w i = Some r \<Longrightarrow>
   \<exists>r'. recs (store_calls S cs w) i = Some r' \<and> xr_job_id r' = xr_job_id r
     \<and> xr_assignment_id r' = xr_assignment_id r \<and> xr_worker_id r' = xr_worker_id r
     \<and> xr_execution_id r' = xr_execution_id r"
proof (induction cs arbitrary: w r)
  case Nil
  then show ?case by simp
next
  case (Cons c cs)
  show ?case
  proof (cases c)
    case (Create x)
    have "recs (snd (store_create S x w)) i = Some r"
      using create_recs [OF Cons.prems(1), of x] Cons.prems(2) by auto
    from Cons.IH [OF invar_create [OF Cons.prems(1)] this] Create show ?thesis by simp
  next
    case (Get j)
    from Cons.IH [OF invar_get [OF Cons.prems(1)], of j r] Cons.prems Get show ?thesis
      by (simp add: get_recs)
  next
    case (Update t j st)
    obtain r' where "recs (snd (store_update_state S t j st w)) i = Some r'"
        "r' = r \<or> r' = put_state st (stamp t) r"
      using update_recs [OF Cons.prems(1), of t j st] Cons.prems(2) by (cases "j = i") auto
    with Cons.IH [OF invar_update [OF Cons.prems(1)], of t j st r'] Update show ?thesis by auto
  qed
qed

lemma calls_invar: "invar w \<Longrightarrow> invar (store_calls S cs w)"
proof (induction cs arbitrary: w)
  case (Cons c cs)
  then show ?case by (cases c) (simp_all add: invar_create invar_get invar_update)
qed simp

text \<open>What is read of a created record.\<close>

lemma created_read_back:
  assumes "invar w" and "store_create S r w = (Ok (), w1)"
    and "fst (store_get S (xr_execution_id r) (store_calls S cs w1)) = Ok x"
  shows "\<exists>r'. x = Some r' \<and> xr_execution_id r' = xr_execution_id r \<and> xr_job_id r' = xr_job_id r
    \<and> xr_assignment_id r' = xr_assignment_id r \<and> xr_worker_id r' = xr_worker_id r"
proof -
  have inv1: "invar w1" using invar_create [OF assms(1), of r] assms(2) by simp
  have "recs w1 (xr_execution_id r) = Some (stored r)" using create_ok [OF assms(1,2)] by simp
  from calls_keep_identity [OF inv1 this, of cs]
  obtain r' where "recs (store_calls S cs w1) (xr_execution_id r) = Some r'"
      "xr_execution_id r' = xr_execution_id r" "xr_job_id r' = xr_job_id r"
      "xr_assignment_id r' = xr_assignment_id r" "xr_worker_id r' = xr_worker_id r"
    by (auto simp: stored_ids)
  moreover have "x = recs (store_calls S cs w1) (xr_execution_id r)"
    using get_ok [OF calls_invar [OF inv1]] assms(3) by (metis prod.collapse)
  ultimately show ?thesis by simp
qed

text \<open>An identifier can be created once.\<close>

lemma create_once:
  assumes "invar w" and "store_create S r w = (Ok (), w1)" and "xr_execution_id r' = xr_execution_id r"
  shows "\<not> is_ok (fst (store_create S r' (store_calls S cs w1)))"
proof -
  have inv1: "invar w1" using invar_create [OF assms(1), of r] assms(2) by simp
  have "recs w1 (xr_execution_id r) = Some (stored r)" using create_ok [OF assms(1,2)] by simp
  then have "recs (store_calls S cs w1) (xr_execution_id r') \<noteq> None"
    using calls_keep_identity [OF inv1, of "xr_execution_id r" "stored r" cs] assms(3) by auto
  then show ?thesis
    using create_ok [OF calls_invar [OF inv1], of r' cs]
    by (cases "store_create S r' (store_calls S cs w1)"; cases "fst (store_create S r' (store_calls S cs w1))") auto
qed

end

section \<open>The store in memory satisfies the contract\<close>

lemmas memory_store_defs = memory_execution_store_def memory_create_def memory_get_def
  memory_update_state_def

interpretation memory_store: execution_store memory_execution_store mes_executions "\<lambda>_. True"
    "\<lambda>r. r" "\<lambda>t. t"
  by unfold_locales
    (auto simp: memory_store_defs put_state_def split: if_splits option.splits)

end
