(* ===== verification/Scheduler.thy ===== *)
theory Scheduler
  imports Broker Execution_Store Worker_Registry
begin

text \<open>
  \<^verbatim>\<open>src/src/scheduler/scheduler.rs\<close>: one scheduling step and the loop of the scheduler. The broker, the
  worker directory and the execution store are the trait objects the code holds, so the step is a
  function of their records of operations over the world they share. Fresh identifiers and readings of
  the clock are arguments; a step that waits for a task is \<^const>\<open>None\<close>.
\<close>

section \<open>State\<close>

datatype DeferredReason = NoWorkerAvailable

datatype SchedulingDecision =
    AssignedDecision (decision_worker_id: string) (decision_assignment: AssignExecutionRequest)
  | Deferred DeferredReason

record 'w Scheduler =
  sch_broker :: "'w Broker"
  sch_task_destination :: string
  sch_worker_directory :: "'w WorkerDirectory"
  sch_execution_store :: "'w ExecutionStore"

definition scheduler_new ::
  "'w Broker \<Rightarrow> string \<Rightarrow> 'w WorkerDirectory \<Rightarrow> 'w ExecutionStore \<Rightarrow> 'w Scheduler" where
  "scheduler_new b task_destination directory store =
     \<lparr>sch_broker = b, sch_task_destination = task_destination,
      sch_worker_directory = directory, sch_execution_store = store\<rparr>"

text \<open>The values of \<open>Uuid::new_v4\<close> and the readings of the clock in one step.\<close>

record fresh =
  fr_job_id :: string
  fr_assignment_id :: string
  fr_execution_id :: string
  fr_message_id :: string
  fr_clock :: clock
  fr_now :: system_time
  fr_created_at :: system_time

section \<open>One step\<close>

definition application_of :: "Metadata option \<Rightarrow> string" where
  "application_of metadata =
     (case metadata of
        None \<Rightarrow> []
      | Some entries \<Rightarrow> (case fmlookup entries ''application'' of None \<Rightarrow> [] | Some a \<Rightarrow> a))"

definition build_assignment :: "fresh \<Rightarrow> string \<Rightarrow> SubmitTaskRequest \<Rightarrow> AssignExecutionRequest" where
  "build_assignment fr job_id req =
     \<lparr>aer_assignment_id = fr_assignment_id fr,
      aer_execution_id = fr_execution_id fr,
      aer_job_id = job_id,
      aer_task = (case str_task req of
         Some task \<Rightarrow> Some task
       | None \<Rightarrow> Some \<lparr>ti_namespace = str_application_namespace req,
                       ti_application = application_of (str_metadata req),
                       ti_name = str_task_name req, ti_version = []\<rparr>),
      aer_arguments = str_arguments req,
      aer_serialization_format = str_serialization_format req,
      aer_reserved_resources = str_resources req,
      aer_deadline = None,
      aer_metadata = str_metadata req\<rparr>"

definition build_execution :: "fresh \<Rightarrow> string \<Rightarrow> AssignExecutionRequest \<Rightarrow> ExecutionRecord" where
  "build_execution fr worker_id assignment =
     \<lparr>xr_execution_id = aer_execution_id assignment, xr_job_id = aer_job_id assignment,
      xr_assignment_id = aer_assignment_id assignment, xr_worker_id = worker_id,
      xr_state = Assigned, xr_created_at = fr_now fr, xr_updated_at = fr_now fr\<rparr>"

definition build_envelope ::
  "wire \<Rightarrow> fresh \<Rightarrow> string \<Rightarrow> BrokerEnvelope \<Rightarrow> AssignExecutionRequest \<Rightarrow> BrokerEnvelope" where
  "build_envelope W fr worker_id submitted assignment =
     \<lparr>be_message_id = fr_message_id fr,
      be_message_kind = ''threadweave_protocols.runtime.v1.AssignExecutionRequest'',
      be_schema_version = ''v1'', be_source = ''threadweave-scheduler'',
      be_destination = worker_destination worker_id,
      be_created_at = Some (fr_created_at fr), be_expires_at = None,
      be_payload = encode_assign W assignment,
      be_content_type = Some ''application/protobuf'',
      be_correlation_id = Some (aer_job_id assignment),
      be_causation_id = Some (be_message_id submitted),
      be_trace_context = be_trace_context submitted, be_routing_headers = None\<rparr>"

text \<open>The part after a task was consumed.\<close>

definition place ::
  "wire \<Rightarrow> 'w Scheduler \<Rightarrow> fresh \<Rightarrow> string \<Rightarrow> BrokerEnvelope \<Rightarrow> 'w \<Rightarrow> (BrokerError + SchedulingDecision) \<times> 'w" where
  "place W sch fr worker_id submitted w =
     (case decode_submit W (be_payload submitted) of
        Err e \<Rightarrow> (Err (''invalid SubmitTaskRequest: '' @ e), w)
      | Ok req \<Rightarrow>
          let job_id = (case be_correlation_id submitted of Some i \<Rightarrow> i | None \<Rightarrow> fr_job_id fr);
              assignment = build_assignment fr job_id req
          in try_call (\<lambda>e. ''execution store is unavailable: '' @ e)
               (store_create (sch_execution_store sch) (build_execution fr worker_id assignment) w) (\<lambda>_ w.
             try_call (\<lambda>e. e)
               (broker_publish (sch_broker sch) (build_envelope W fr worker_id submitted assignment) w) (\<lambda>_ w.
               (Ok (AssignedDecision worker_id assignment), w))))"

definition schedule_one ::
  "wire \<Rightarrow> 'w Scheduler \<Rightarrow> fresh \<Rightarrow> 'w \<Rightarrow> ((BrokerError + SchedulingDecision) \<times> 'w) option" where
  "schedule_one W sch fr w =
     (case dir_available_workers (sch_worker_directory sch) (fr_clock fr) w of
        None \<Rightarrow> None
      | Some (Err _, w) \<Rightarrow> Some (Err ''worker directory is unavailable'', w)
      | Some (Ok [], w) \<Rightarrow> Some (Ok (Deferred NoWorkerAvailable), w)
      | Some (Ok (worker_id # _), w) \<Rightarrow>
          (case broker_consume (sch_broker sch) (sch_task_destination sch) w of
             None \<Rightarrow> None
           | Some (Err e, w) \<Rightarrow> Some (Err e, w)
           | Some (Ok submitted, w) \<Rightarrow> Some (place W sch fr worker_id submitted w)))"

section \<open>The loop\<close>

text \<open>\<open>run\<close> repeats the step until one fails: what ends it is an error, a step that waits, or the end
  of the observation. Before each step the other parties change the world, also while the scheduler
  sleeps after a deferral.\<close>

datatype run_end = Stopped BrokerError | Waiting | Observed

fun scheduler_run ::
  "wire \<Rightarrow> 'w Scheduler \<Rightarrow> (fresh \<times> ('w \<Rightarrow> 'w)) list \<Rightarrow> 'w \<Rightarrow> run_end \<times> SchedulingDecision list \<times> 'w" where
  "scheduler_run W sch [] w = (Observed, [], w)"
| "scheduler_run W sch ((fr, others) # steps) w =
     (case schedule_one W sch fr (others w) of
        None \<Rightarrow> (Waiting, [], others w)
      | Some (Err e, w') \<Rightarrow> (Stopped e, [], w')
      | Some (Ok d, w') \<Rightarrow>
          (case scheduler_run W sch steps w' of (r, ds, w'') \<Rightarrow> (r, d # ds, w'')))"

section \<open>The step between its awaits\<close>

text \<open>\<open>schedule_one\<close> awaits the worker directory, the broker, the execution store and the broker again, and
  the rest of the system acts in between. Where the task of the scheduler is, with what it holds: the
  worker it chose, then the submitted task and the assignment it built. An error ends \<open>run\<close>; \<open>AtEnd\<close> lasts
  until a scheduler is started anew.\<close>

datatype scheduler_point =
  AtListing
| AtConsume string
| AtCreate fresh string BrokerEnvelope AssignExecutionRequest
| AtPublish fresh string BrokerEnvelope AssignExecutionRequest
| AtEnd

text \<open>One awaited call and what follows it up to the next await; \<^const>\<open>None\<close> while the call waits.\<close>

fun scheduler_next ::
  "wire \<Rightarrow> 'w Scheduler \<Rightarrow> fresh \<Rightarrow> scheduler_point \<times> 'w \<Rightarrow> (scheduler_point \<times> 'w) option" where
  "scheduler_next W sch fr (AtListing, w) =
     (case dir_available_workers (sch_worker_directory sch) (fr_clock fr) w of
        None \<Rightarrow> None
      | Some (Err _, w) \<Rightarrow> Some (AtEnd, w)
      | Some (Ok [], w) \<Rightarrow> Some (AtListing, w)
      | Some (Ok (worker_id # _), w) \<Rightarrow> Some (AtConsume worker_id, w))"
| "scheduler_next W sch fr (AtConsume worker_id, w) =
     (case broker_consume (sch_broker sch) (sch_task_destination sch) w of
        None \<Rightarrow> None
      | Some (Err _, w) \<Rightarrow> Some (AtEnd, w)
      | Some (Ok submitted, w) \<Rightarrow>
          (case decode_submit W (be_payload submitted) of
             Err _ \<Rightarrow> Some (AtEnd, w)
           | Ok req \<Rightarrow>
               let job_id = (case be_correlation_id submitted of Some i \<Rightarrow> i | None \<Rightarrow> fr_job_id fr)
               in Some (AtCreate fr worker_id submitted (build_assignment fr job_id req), w)))"
| "scheduler_next W sch _ (AtCreate fr worker_id submitted assignment, w) =
     (case store_create (sch_execution_store sch) (build_execution fr worker_id assignment) w of
        (Err _, w) \<Rightarrow> Some (AtEnd, w)
      | (Ok _, w) \<Rightarrow> Some (AtPublish fr worker_id submitted assignment, w))"
| "scheduler_next W sch _ (AtPublish fr worker_id submitted assignment, w) =
     (case broker_publish (sch_broker sch) (build_envelope W fr worker_id submitted assignment) w of
        (Err _, w) \<Rightarrow> Some (AtEnd, w)
      | (Ok _, w) \<Rightarrow> Some (AtListing, w))"
| "scheduler_next W sch _ (AtEnd, w) = Some (AtListing, w)"

fun scheduler_steps ::
  "wire \<Rightarrow> 'w Scheduler \<Rightarrow> fresh \<Rightarrow> nat \<Rightarrow> scheduler_point \<times> 'w \<Rightarrow> (scheduler_point \<times> 'w) option" where
  "scheduler_steps W sch fr 0 s = Some s"
| "scheduler_steps W sch fr (Suc n) s =
     (case scheduler_next W sch fr s of None \<Rightarrow> None | Some s' \<Rightarrow> scheduler_steps W sch fr n s')"

section \<open>What a step does, whatever the stores do\<close>

lemma place_cases:
  assumes "place W sch fr worker_id submitted w = (res, w')"
  obtains (undecodable) e where "decode_submit W (be_payload submitted) = Err e"
      "res = Err (''invalid SubmitTaskRequest: '' @ e)" "w' = w"
  | (not_created) req e where "decode_submit W (be_payload submitted) = Ok req"
      "store_create (sch_execution_store sch) (build_execution fr worker_id (build_assignment fr
         (case be_correlation_id submitted of Some i \<Rightarrow> i | None \<Rightarrow> fr_job_id fr) req)) w = (Err e, w')"
      "res = Err (''execution store is unavailable: '' @ e)"
  | (created) req a w1 p where "decode_submit W (be_payload submitted) = Ok req"
      "a = build_assignment fr (case be_correlation_id submitted of Some i \<Rightarrow> i | None \<Rightarrow> fr_job_id fr) req"
      "store_create (sch_execution_store sch) (build_execution fr worker_id a) w = (Ok (), w1)"
      "broker_publish (sch_broker sch) (build_envelope W fr worker_id submitted a) w1 = (p, w')"
      "res = (case p of Err e \<Rightarrow> Err e | Ok _ \<Rightarrow> Ok (AssignedDecision worker_id a))"
proof (cases "decode_submit W (be_payload submitted)")
  case (Inl e)
  with assms have "res = Err (''invalid SubmitTaskRequest: '' @ e)" "w' = w" by (simp_all add: place_def)
  from undecodable [OF Inl this] show thesis .
next
  case req: (Inr req)
  let ?a = "build_assignment fr (case be_correlation_id submitted of Some i \<Rightarrow> i | None \<Rightarrow> fr_job_id fr) req"
  obtain c w1 where c: "store_create (sch_execution_store sch) (build_execution fr worker_id ?a) w = (c, w1)"
    by fastforce
  show thesis
  proof (cases c)
    case (Inl e)
    with assms c req have "w1 = w'" "res = Err (''execution store is unavailable: '' @ e)"
      by (simp_all add: place_def Let_def)
    from not_created [OF req c [unfolded this(1) Inl] this(2)] show thesis .
  next
    case (Inr u)
    obtain p w2 where p: "broker_publish (sch_broker sch) (build_envelope W fr worker_id submitted ?a) w1 = (p, w2)"
      by fastforce
    have "w2 = w'" "res = (case p of Err e \<Rightarrow> Err e | Ok _ \<Rightarrow> Ok (AssignedDecision worker_id ?a))"
      using assms c req Inr p by (cases p; simp add: place_def Let_def)+
    moreover have "store_create (sch_execution_store sch) (build_execution fr worker_id ?a) w = (Ok (), w1)"
      using c Inr by simp
    ultimately show thesis using created [OF req refl _ p [unfolded \<open>w2 = w'\<close>]] by blast
  qed
qed

text \<open>A step that nothing interrupts is four of these at most.\<close>

lemma place_in_steps:
  assumes "place W sch fr worker_id submitted w1 = (res, w')"
    and "broker_consume (sch_broker sch) (sch_task_destination sch) w = Some (Ok submitted, w1)"
  shows "\<exists>n \<le> 3. scheduler_steps W sch fr n (AtConsume worker_id, w) = Some (if is_ok res then AtListing else AtEnd, w')"
  using assms(1)
proof (cases rule: place_cases)
  case (undecodable e)
  with assms(2) show ?thesis by (intro exI [of _ 1]) simp
next
  case (not_created req e)
  with assms(2) show ?thesis by (intro exI [of _ 2]) (simp add: numeral_2_eq_2 Let_def)
next
  case (created req a w2 p)
  with assms(2) show ?thesis by (intro exI [of _ 3]) (cases p; simp add: numeral_3_eq_3 Let_def)
qed

lemma schedule_one_in_steps:
  assumes "schedule_one W sch fr w = Some (res, w')"
  shows "\<exists>n \<le> 4. scheduler_steps W sch fr n (AtListing, w) = Some (if is_ok res then AtListing else AtEnd, w')"
proof -
  obtain x w1 where l: "dir_available_workers (sch_worker_directory sch) (fr_clock fr) w = Some (x, w1)"
    using assms by (auto simp: schedule_one_def split: option.split_asm)
  show ?thesis
  proof (cases "x = Ok [] \<or> \<not> is_ok x")
    case True
    with assms l show ?thesis by (intro exI [of _ 1]) (cases x; auto simp: schedule_one_def)
  next
    case False
    then obtain i ids where x: "x = Ok (i # ids)" by (cases x) (auto simp: neq_Nil_conv)
    obtain y w2 where c: "broker_consume (sch_broker sch) (sch_task_destination sch) w1 = Some (y, w2)"
      using assms l x by (auto simp: schedule_one_def split: option.split_asm)
    have "\<exists>n \<le> 3. scheduler_steps W sch fr n (AtConsume i, w1) = Some (if is_ok res then AtListing else AtEnd, w')"
    proof (cases y)
      case (Inl e)
      with assms l x c show ?thesis by (intro exI [of _ 1]) (auto simp: schedule_one_def)
    next
      case (Inr submitted)
      with assms l x c place_in_steps [of W sch fr i submitted w2 res w' w1] show ?thesis
        by (simp add: schedule_one_def)
    qed
    then obtain n where "n \<le> 3" "scheduler_steps W sch fr n (AtConsume i, w1)
        = Some (if is_ok res then AtListing else AtEnd, w')" by blast
    with l x show ?thesis by (intro exI [of _ "Suc n"]) simp
  qed
qed

end
