(* ===== verification/Result_Backend.thy ===== *)
theory Result_Backend
  imports Redis_Service
begin

text \<open>
  \<^verbatim>\<open>src/src/result_backend/\<close>: the trait \<open>BackendResult\<close>, which the code only writes, and the Redis
  backend, which stores each encoded result under the key of its job. The contract is the locale
  \<open>result_backend\<close>: a map from jobs to encoded results.
\<close>

section \<open>The trait and the Redis backend\<close>

type_synonym ResultBackendError = string

record 'w BackendResult =
  store_result :: "string \<Rightarrow> JobResult \<Rightarrow> 'w \<Rightarrow> (ResultBackendError + unit) \<times> 'w"

record RedisResultBackend =
  rrb_key_prefix :: string

definition redis_result_backend_new ::
  "(string \<Rightarrow> string + unit) \<Rightarrow> string \<Rightarrow> string \<Rightarrow> ResultBackendError + RedisResultBackend" where
  "redis_result_backend_new open_client url key_prefix =
     (case open_client url of
        Err e \<Rightarrow> Err (''invalid Redis URL: '' @ e)
      | Ok _ \<Rightarrow> Ok \<lparr>rrb_key_prefix = key_prefix\<rparr>)"

definition result_key :: "RedisResultBackend \<Rightarrow> string \<Rightarrow> string" where
  "result_key c job_id = rrb_key_prefix c @ '':'' @ job_id"

definition redis_store_result ::
  "'d redis \<Rightarrow> wire \<Rightarrow> RedisResultBackend \<Rightarrow> string \<Rightarrow> JobResult \<Rightarrow> 'd
   \<Rightarrow> (ResultBackendError + unit) \<times> 'd" where
  "redis_store_result R W c job_id result s =
     try_call (\<lambda>e. ''cannot connect to Redis: '' @ e) (connect R s) (\<lambda>_ s.
       try_call (\<lambda>e. ''cannot store result in Redis: '' @ e)
         (request R (rd_set R (result_key c job_id) (encode_result W result)) s)
         (\<lambda>u s. (Ok u, s)))"

definition redis_result_backend :: "'d redis \<Rightarrow> wire \<Rightarrow> RedisResultBackend \<Rightarrow> 'd BackendResult" where
  "redis_result_backend R W c = \<lparr>store_result = redis_store_result R W c\<rparr>"

section \<open>Contract\<close>

locale result_backend =
  fixes B :: "'w BackendResult"
    and results :: "'w \<Rightarrow> string \<rightharpoonup> bytes"
    and invar :: "'w \<Rightarrow> bool"
    and enc :: "JobResult \<Rightarrow> bytes"
  assumes store_ok: "invar w \<Longrightarrow> store_result B j r w = (Ok (), w') \<Longrightarrow>
      results w' = (results w)(j \<mapsto> enc r)"
    and store_err: "invar w \<Longrightarrow> store_result B j r w = (Err e, w') \<Longrightarrow>
      results w' = results w \<or> results w' = (results w)(j \<mapsto> enc r)"
    and invar_store: "invar w \<Longrightarrow> invar (snd (store_result B j r w))"
begin

fun stores :: "(string \<times> JobResult) list \<Rightarrow> 'w \<Rightarrow> 'w" where
  "stores [] w = w"
| "stores ((j, r) # xs) w = stores xs (snd (store_result B j r w))"

lemma store_results:
  assumes "invar w"
  shows "results (snd (store_result B j r w)) = results w
    \<or> results (snd (store_result B j r w)) = (results w)(j \<mapsto> enc r)"
proof -
  obtain x w' where "store_result B j r w = (x, w')" by fastforce
  then show ?thesis using store_ok [OF assms, of j r w'] store_err [OF assms, of j r _ w']
    by (cases x) auto
qed

text \<open>What a job holds after any stores is what it held or one of the results stored for it.\<close>

lemma stores_origin:
  "invar w \<Longrightarrow> results (stores xs w) j = results w j
     \<or> (\<exists>r. (j, r) \<in> set xs \<and> results (stores xs w) j = Some (enc r))"
proof (induction xs arbitrary: w rule: list.induct)
  case Nil
  then show ?case by simp
next
  case (Cons x xs)
  obtain k r where x: "x = (k, r)" by fastforce
  from Cons.IH [OF invar_store [OF Cons.prems], of k r] store_results [OF Cons.prems, of k r] x
  show ?case by (cases "j = k") auto
qed

end

section \<open>The Redis backend satisfies the contract\<close>

definition result_map :: "RedisResultBackend \<Rightarrow> keyspace \<Rightarrow> string \<rightharpoonup> bytes" where
  "result_map c v j = (case ks_value v (result_key c j) of Some (RString b) \<Rightarrow> Some b | _ \<Rightarrow> None)"

definition result_wf :: "RedisResultBackend \<Rightarrow> keyspace \<Rightarrow> bool" where
  "result_wf c v \<longleftrightarrow> (\<forall>j. ks_deadline v (result_key c j) = None)"

lemma result_key_inj [simp]: "result_key c i = result_key c j \<longleftrightarrow> i = j"
  by (simp add: result_key_def)

lemma result_later [simp]:
  assumes "result_wf c v"
  shows "result_wf c (later t v)" "result_map c (later t v) = result_map c v"
  using assms by (auto simp: result_wf_def result_map_def fun_eq_iff)

lemma result_set:
  assumes "result_wf c v"
  shows "result_wf c (set_effect (result_key c j) b v)"
    "result_map c (set_effect (result_key c j) b v) = (result_map c v)(j \<mapsto> b)"
  using assms by (auto simp: result_wf_def result_map_def set_effect_def fun_eq_iff)

context redis_deployment
begin

lemma redis_store_result_spec:
  assumes wf: "result_wf c (rd_view R s)" and run: "redis_store_result R W c j r s = (res, s')"
  shows "result_wf c (rd_view R s') \<and>
    (result_map c (rd_view R s') = (result_map c (rd_view R s))(j \<mapsto> encode_result W r)
     \<or> \<not> is_ok res \<and> result_map c (rd_view R s') = result_map c (rd_view R s))"
proof -
  obtain cr s1 where conn: "connect R s = (cr, s1)" by fastforce
  have s1: "result_wf c (rd_view R s1)" "result_map c (rd_view R s1) = result_map c (rd_view R s)"
    using connect_view [OF redis, of s] wf conn by auto
  let ?cmd = "rd_set R (result_key c j) (encode_result W r)"
  have cmd: "rd_view R (snd (?cmd s)) = set_effect (result_key c j) (encode_result W r) (rd_view R s)" for s
    using set_reply [OF redis, of "result_key c j" "encode_result W r" s] by fastforce
  show ?thesis
  proof (cases cr)
    case (Inl x)
    with conn run s1 show ?thesis by (auto simp: redis_store_result_def)
  next
    case (Inr u)
    obtain rr s2 where req: "request R ?cmd s1 = (rr, s2)" by fastforce
    have out: "s' = s2" "is_ok res = is_ok rr"
      using run conn Inr req by (cases rr; auto simp add: redis_store_result_def)+
    from request_cases [OF redis req] show ?thesis
    proof cases
      case (1 t sa)
      with cmd [of sa] s1 out show ?thesis by (simp add: result_set)
    next
      case (2 t x)
      with s1 out show ?thesis by simp
    next
      case (3 t sa x)
      with cmd [of sa] s1 out show ?thesis by (simp add: result_set)
    qed
  qed
qed

end

sublocale redis_deployment \<subseteq> rbe: result_backend "redis_result_backend R W c"
    "\<lambda>s. result_map c (rd_view R s)" "\<lambda>s. result_wf c (rd_view R s)" "encode_result W"
  for c
proof (unfold_locales, unfold redis_result_backend_def BackendResult.select_convs, goal_cases)
  case (1 w j r w')
  then show ?case using redis_store_result_spec [of c w j r "Ok ()" w'] by simp
next
  case (2 w j r e w')
  then show ?case using redis_store_result_spec [of c w j r "Err e" w'] by auto
next
  case (3 w j r)
  then show ?case
    using redis_store_result_spec [of c w j r "fst (redis_store_result R W c j r w)"
        "snd (redis_store_result R W c j r w)"] by simp
qed

context reliable_deployment
begin

lemma reliable_store_result: "is_ok (fst (redis_store_result R W c j r s))"
proof -
  obtain t s1 where 1: "connect R s = (Ok (), s1)"
    using reliable_connect [OF redis reliable] by blast
  let ?cmd = "rd_set R (result_key c j) (encode_result W r)"
  obtain s2 where 2: "request R ?cmd s1 = ?cmd s2"
    using reliable_request [OF redis reliable] by blast
  obtain s3 where "?cmd s2 = (Ok (), s3)"
    using set_reply [OF redis, of "result_key c j" "encode_result W r" s2] by blast
  with 1 2 show ?thesis by (simp add: redis_store_result_def)
qed

end

end
