(* ===== verification/Control_Plane.thy ===== *)
theory Control_Plane
  imports Scheduler Worker_Membership Result_Backend
begin

text \<open>
  The services the control plane shares: one world in which the broker, the result backend, the worker
  registry and the execution store keep their contracts and do not disturb one another. The scheduler's
  guarantees are proved once, in the locale \<open>control_plane\<close>.
\<close>

section \<open>The services together\<close>

definition shrinks :: "('k \<rightharpoonup> 'v) \<Rightarrow> ('k \<rightharpoonup> 'v) \<Rightarrow> bool" where
  "shrinks m m' \<longleftrightarrow> (\<exists>E. m' = forget E m)"

lemma shrinks_refl [simp]: "shrinks m m"
  unfolding shrinks_def by (metis forget_empty)

lemma shrinks_trans: "shrinks m m' \<Longrightarrow> shrinks m' m'' \<Longrightarrow> shrinks m m''"
  unfolding shrinks_def by (metis forget_forget)

lemma shrinks_Some: "shrinks m m' \<Longrightarrow> m' i = Some r \<Longrightarrow> m i = Some r"
  by (auto simp: shrinks_def forget_apply split: if_splits)

text \<open>The calls the other parties make on the services while the scheduler runs.\<close>

datatype service_call =
    CallPublish BrokerEnvelope | CallConsume string
  | CallGet string | CallUpdate system_time string ExecutionState | CallResult string JobResult
  | CallRegister clock WorkerRegistration | CallHeartbeat clock string string | CallList clock

fun call_service ::
  "'w Broker \<Rightarrow> 'w ExecutionStore \<Rightarrow> 'w WorkerRegistry \<Rightarrow> 'w BackendResult \<Rightarrow> service_call \<Rightarrow> 'w \<Rightarrow> 'w" where
  "call_service B S G P (CallPublish e) w = snd (broker_publish B e w)"
| "call_service B S G P (CallConsume d) w = (case broker_consume B d w of None \<Rightarrow> w | Some (_, w') \<Rightarrow> w')"
| "call_service B S G P (CallGet i) w = snd (store_get S i w)"
| "call_service B S G P (CallUpdate t i st) w = snd (store_update_state S t i st w)"
| "call_service B S G P (CallResult j r) w = snd (store_result P j r w)"
| "call_service B S G P (CallRegister clk r) w = snd (reg_register G clk r w)"
| "call_service B S G P (CallHeartbeat clk i g) w = snd (reg_heartbeat G clk i g w)"
| "call_service B S G P (CallList clk) w = (case dir_available_workers G clk w of None \<Rightarrow> w | Some (_, w') \<Rightarrow> w')"

text \<open>Only the scheduler publishes to workers; everyone else publishes to other destinations.\<close>

fun client_call :: "(string \<Rightarrow> bool) \<Rightarrow> service_call \<Rightarrow> bool" where
  "client_call valid (CallPublish e) \<longleftrightarrow> valid (be_destination e) \<and> (\<forall>i. be_destination e \<noteq> worker_destination i)"
| "client_call valid (CallConsume d) \<longleftrightarrow> valid d"
| "client_call valid _ \<longleftrightarrow> True"

locale control_plane =
  brk: broker B queue invar valid +
  exec: execution_store S recs invar stored stamp +
  reg: worker_registry G members invar +
  res: result_backend P results invar enc
  for B :: "'w Broker" and queue and invar and valid
    and S :: "'w ExecutionStore" and recs and stored and stamp
    and G :: "'w WorkerRegistry" and members
    and P :: "'w BackendResult" and results and enc +
  assumes worker_valid: "valid (worker_destination i)"
    and publish_frame: "invar w \<Longrightarrow> valid (be_destination e) \<Longrightarrow> broker_publish B e w = (x1, w') \<Longrightarrow>
      recs w' = recs w \<and> results w' = results w \<and> shrinks (members w) (members w')"
    and consume_frame: "invar w \<Longrightarrow> valid d \<Longrightarrow> broker_consume B d w = Some (x2, w') \<Longrightarrow>
      recs w' = recs w \<and> results w' = results w \<and> shrinks (members w) (members w')"
    and create_frame: "invar w \<Longrightarrow> store_create S r w = (x3, w') \<Longrightarrow>
      queue w' = queue w \<and> results w' = results w \<and> shrinks (members w) (members w')"
    and get_frame: "invar w \<Longrightarrow> store_get S i w = (x4, w') \<Longrightarrow>
      queue w' = queue w \<and> results w' = results w \<and> shrinks (members w) (members w')"
    and update_frame: "invar w \<Longrightarrow> store_update_state S t i st w = (x5, w') \<Longrightarrow>
      queue w' = queue w \<and> results w' = results w \<and> shrinks (members w) (members w')"
    and result_frame: "invar w \<Longrightarrow> store_result P j jr w = (x6, w') \<Longrightarrow>
      queue w' = queue w \<and> recs w' = recs w \<and> shrinks (members w) (members w')"
    and register_frame: "invar w \<Longrightarrow> reg_register G clk wr w = (x7, w') \<Longrightarrow>
      queue w' = queue w \<and> recs w' = recs w \<and> results w' = results w"
    and heartbeat_frame: "invar w \<Longrightarrow> reg_heartbeat G clk i g w = (x8, w') \<Longrightarrow>
      queue w' = queue w \<and> recs w' = recs w \<and> results w' = results w"
    and listing_frame: "invar w \<Longrightarrow> dir_available_workers G clk w = Some (x9, w') \<Longrightarrow>
      queue w' = queue w \<and> recs w' = recs w \<and> results w' = results w"
begin

section \<open>A scheduling step\<close>

abbreviation the_scheduler :: "string \<Rightarrow> 'w Scheduler" where
  "the_scheduler d \<equiv> scheduler_new B d (WorkerDirectory.truncate G) S"

lemma scheduler_fields [simp]:
  "sch_broker (the_scheduler d) = B" "sch_task_destination (the_scheduler d) = d"
  "sch_execution_store (the_scheduler d) = S"
  "dir_available_workers (sch_worker_directory (the_scheduler d)) = dir_available_workers G"
  by (simp_all add: scheduler_new_def WorkerDirectory.defs)

lemma listing_shrinks:
  "invar w \<Longrightarrow> dir_available_workers G clk w = Some (x, w') \<Longrightarrow> shrinks (members w) (members w')"
  using reg.listing_forgets unfolding shrinks_def by blast

text \<open>A task queue that is no worker's queue.\<close>

definition task_queue :: "string \<Rightarrow> bool" where
  "task_queue d \<longleftrightarrow> valid d \<and> (\<forall>i. d \<noteq> worker_destination i)"

text \<open>The job a consumed task belongs to.\<close>

abbreviation job_of :: "fresh \<Rightarrow> BrokerEnvelope \<Rightarrow> string" where
  "job_of fr submitted \<equiv> (case be_correlation_id submitted of Some i \<Rightarrow> i | None \<Rightarrow> fr_job_id fr)"

lemma step_cases:
  assumes inv: "invar w" and d: "valid d" and run: "schedule_one W (the_scheduler d) fr w = Some (res, w')"
  obtains (no_listing) e where "dir_available_workers G (fr_clock fr) w = Some (Err e, w')"
      "res = Err ''worker directory is unavailable''"
  | (deferred) "dir_available_workers G (fr_clock fr) w = Some (Ok [], w')" "res = Ok (Deferred NoWorkerAvailable)"
  | (no_task) i ids w1 e where "dir_available_workers G (fr_clock fr) w = Some (Ok (i # ids), w1)"
      "broker_consume B d w1 = Some (Err e, w')" "res = Err e"
  | (placed) i ids w1 submitted w2 where "dir_available_workers G (fr_clock fr) w = Some (Ok (i # ids), w1)"
      "broker_consume B d w1 = Some (Ok submitted, w2)" "place W (the_scheduler d) fr i submitted w2 = (res, w')"
  using run
  by (auto simp: schedule_one_def split: option.splits prod.splits sum.splits list.splits)

lemma place_assigned:
  assumes inv: "invar w"
    and run: "place W (the_scheduler d) fr i submitted w = (Ok (AssignedDecision j a), w')"
  shows "j = i" "\<exists>req. decode_submit W (be_payload submitted) = Ok req \<and> a = build_assignment fr (job_of fr submitted) req"
    "recs w (aer_execution_id a) = None"
    "recs w' = (recs w)(aer_execution_id a \<mapsto> stored (build_execution fr i a))"
    "queue w' = (queue w)(worker_destination i := queue w (worker_destination i) @ [build_envelope W fr i submitted a])"
    "results w' = results w" "invar w'" "shrinks (members w) (members w')"
proof -
  from run show "j = i" by (rule place_cases) (auto split: sum.splits)
  from run obtain req w1 where r: "decode_submit W (be_payload submitted) = Ok req"
      "a = build_assignment fr (job_of fr submitted) req"
      "store_create S (build_execution fr i a) w = (Ok (), w1)"
      "broker_publish B (build_envelope W fr i submitted a) w1 = (Ok (), w')"
    by (rule place_cases) (auto split: sum.splits)
  let ?e = "build_envelope W fr i submitted a"
  have inv1: "invar w1" using exec.invar_create [OF inv, of "build_execution fr i a"] r(3) by simp
  have v: "valid (be_destination ?e)" by (simp add: build_envelope_def worker_valid)
  have dest: "be_destination ?e = worker_destination i" by (simp add: build_envelope_def)
  have xid: "xr_execution_id (build_execution fr i a) = aer_execution_id a" by (simp add: build_execution_def)
  note c = exec.create_ok [OF inv r(3), unfolded xid] create_frame [OF inv r(3)]
  note p = brk.publish_ok [OF inv1 v r(4), unfolded dest] publish_frame [OF inv1 v r(4)]
  show "\<exists>req. decode_submit W (be_payload submitted) = Ok req \<and> a = build_assignment fr (job_of fr submitted) req"
    using r by blast
  show "recs w (aer_execution_id a) = None" using c by simp
  show "recs w' = (recs w)(aer_execution_id a \<mapsto> stored (build_execution fr i a))" using c p by simp
  show "queue w' = (queue w)(worker_destination i := queue w (worker_destination i) @ [?e])" using c p by simp
  show "results w' = results w" using c p by simp
  show "invar w'" using brk.invar_publish [OF inv1 v] r(4) by simp
  show "shrinks (members w) (members w')" using c p shrinks_trans by blast
qed

lemma assigned_step:
  assumes inv: "invar w" and d: "task_queue d"
    and run: "schedule_one W (the_scheduler d) fr w = Some (Ok (AssignedDecision i a), w')"
  shows "\<exists>submitted req rest. queue w d = submitted # rest \<and> decode_submit W (be_payload submitted) = Ok req
    \<and> a = build_assignment fr (job_of fr submitted) req
    \<and> members w i \<noteq> None \<and> (\<forall>j. members w' j \<noteq> None \<longrightarrow> i \<le> j)
    \<and> recs w (aer_execution_id a) = None
    \<and> recs w' = (recs w)(aer_execution_id a \<mapsto> stored (build_execution fr i a))
    \<and> queue w' = (queue w)(d := rest, worker_destination i :=
        queue w (worker_destination i) @ [build_envelope W fr i submitted a])
    \<and> results w' = results w"
proof -
  from d have v: "valid d" and nd: "d \<noteq> worker_destination i" by (simp_all add: task_queue_def)
  from inv v run show ?thesis
  proof (cases rule: step_cases)
    case (placed i' ids w1 submitted w2)
    note l = reg.listing_ok [OF inv placed(1)] listing_frame [OF inv placed(1)]
    have inv1: "invar w1" by (rule reg.invar_listing [OF inv placed(1)])
    note c = brk.consume_ok [OF inv1 v placed(2)] consume_frame [OF inv1 v placed(2)]
    have inv2: "invar w2" by (rule brk.invar_consume [OF inv1 v placed(2)])
    note p = place_assigned [OF inv2 placed(3)]
    from p(1) have i': "i' = i" by simp
    have q: "queue w2 k = queue w k" if "k \<noteq> d" for k using l c that by simp
    have "i \<le> j" if "members w' j \<noteq> None" for j
    proof -
      from that obtain r where "members w' j = Some r" by blast
      moreover have "shrinks (members w1) (members w2)" using c by simp
      ultimately have "members w1 j = Some r" using shrinks_Some [OF shrinks_trans [OF _ p(8)]] by simp
      then have "j \<in> dom (members w1)" by blast
      then have "j \<in> set (i # ids)" using l(1) i' by (simp add: subset_iff)
      moreover have "sorted (i # ids)" using l(1) i' by simp
      ultimately show ?thesis by auto
    qed
    moreover have "members w i \<noteq> None" using l(1) i' by (simp add: dom_def)
    moreover have "queue w d = submitted # queue w2 d" using l c by simp
    moreover have "queue w' = (queue w)(d := queue w2 d, worker_destination i :=
        queue w (worker_destination i) @ [build_envelope W fr i submitted a])"
      unfolding p(5) i' by (rule ext) (use nd q in auto)
    moreover have "recs w2 = recs w" "results w2 = results w" using l c by simp_all
    moreover obtain req where "decode_submit W (be_payload submitted) = Ok req"
        "a = build_assignment fr (job_of fr submitted) req" using p(2) by blast
    moreover have "recs w (aer_execution_id a) = None"
        "recs w' = (recs w)(aer_execution_id a \<mapsto> stored (build_execution fr i a))" "results w' = results w"
      using p(3,4,6) i' calculation by simp_all
    ultimately show ?thesis
      by (intro exI [of _ submitted] exI [of _ req] exI [of _ "queue w2 d"] conjI) auto
  qed simp_all
qed

lemma place_invar: "invar w \<Longrightarrow> place W (the_scheduler d) fr i submitted w = (res, w') \<Longrightarrow> invar w'"
proof (erule place_cases)
  fix req a w1 q
  assume inv: "invar w" and c: "store_create (sch_execution_store (the_scheduler d)) (build_execution fr i a) w = (Ok (), w1)"
    and pub: "broker_publish (sch_broker (the_scheduler d)) (build_envelope W fr i submitted a) w1 = (q, w')"
  have "invar w1" using exec.invar_create [OF inv, of "build_execution fr i a"] c by simp
  moreover have "valid (be_destination (build_envelope W fr i submitted a))"
    by (simp add: build_envelope_def worker_valid)
  ultimately show "invar w'" using brk.invar_publish [of w1 "build_envelope W fr i submitted a"] pub by simp
next
  fix req e
  assume inv: "invar w" and c: "store_create (sch_execution_store (the_scheduler d)) (build_execution fr i
    (build_assignment fr (job_of fr submitted) req)) w = (Err e, w')"
  from exec.invar_create [OF inv, of "build_execution fr i (build_assignment fr (job_of fr submitted) req)"] c
  show "invar w'" by simp
qed simp

lemma step_invar:
  assumes inv: "invar w" and d: "valid d" and run: "schedule_one W (the_scheduler d) fr w = Some (res, w')"
  shows "invar w'"
  using assms
proof (cases rule: step_cases)
  case (placed i ids w1 submitted w2)
  have "invar w2" using brk.invar_consume [OF reg.invar_listing [OF inv placed(1)] d placed(2)] .
  from place_invar [OF this placed(3)] show ?thesis .
next
  case (no_task i ids w1 e)
  then show ?thesis using brk.invar_consume [OF reg.invar_listing [OF inv no_task(1)] d] by blast
qed (use reg.invar_listing [OF inv] in blast)+

text \<open>A deferral changes nothing but the membership, and leaves no worker.\<close>

lemma deferred_step:
  assumes inv: "invar w" and d: "valid d"
    and run: "schedule_one W (the_scheduler d) fr w = Some (Ok (Deferred reason), w')"
  shows "queue w' = queue w \<and> recs w' = recs w \<and> results w' = results w \<and> members w' = Map.empty"
  using inv d run
proof (cases rule: step_cases)
  case deferred
  from reg.listing_ok [OF inv deferred(1)] listing_frame [OF inv deferred(1)] show ?thesis by simp
next
  case (placed i ids w1 submitted w2)
  from placed(3) show ?thesis by (rule place_cases) (simp_all split: sum.splits)
qed simp_all

section \<open>Every dispatched assignment is recorded\<close>

definition recorded_for :: "'w \<Rightarrow> string \<Rightarrow> AssignExecutionRequest \<Rightarrow> bool" where
  "recorded_for w i a \<longleftrightarrow> (\<exists>r. recs w (aer_execution_id a) = Some r \<and> xr_worker_id r = i
     \<and> xr_assignment_id r = aer_assignment_id a \<and> xr_job_id r = aer_job_id a)"

definition dispatched_recorded :: "wire \<Rightarrow> 'w \<Rightarrow> bool" where
  "dispatched_recorded W w \<longleftrightarrow> (\<forall>i e a. e \<in> set (queue w (worker_destination i)) \<longrightarrow>
     decode_assign W (be_payload e) = Ok a \<longrightarrow> recorded_for w i a)"

lemma recorded_for_mono:
  assumes "recorded_for w i a"
    and "\<And>r. recs w (aer_execution_id a) = Some r \<Longrightarrow> \<exists>r'. recs w' (aer_execution_id a) = Some r'
      \<and> xr_worker_id r' = xr_worker_id r \<and> xr_assignment_id r' = xr_assignment_id r \<and> xr_job_id r' = xr_job_id r"
  shows "recorded_for w' i a"
  using assms unfolding recorded_for_def by metis

lemma dispatched_recorded_mono:
  assumes "dispatched_recorded W w"
    and "\<And>i. set (queue w' (worker_destination i)) \<subseteq> set (queue w (worker_destination i))"
    and "\<And>k r. recs w k = Some r \<Longrightarrow> \<exists>r'. recs w' k = Some r'
      \<and> xr_worker_id r' = xr_worker_id r \<and> xr_assignment_id r' = xr_assignment_id r \<and> xr_job_id r' = xr_job_id r"
  shows "dispatched_recorded W w'"
  using assms(1,2) recorded_for_mono [OF _ assms(3)] unfolding dispatched_recorded_def by blast

section \<open>What the other calls can do\<close>

definition keeps_ids :: "'w \<Rightarrow> 'w \<Rightarrow> bool" where
  "keeps_ids w w' \<longleftrightarrow> (\<forall>k r. recs w k = Some r \<longrightarrow> (\<exists>r'. recs w' k = Some r' \<and> xr_worker_id r' = xr_worker_id r
     \<and> xr_assignment_id r' = xr_assignment_id r \<and> xr_job_id r' = xr_job_id r))"

lemma keeps_ids_same: "recs w' = recs w \<Longrightarrow> keeps_ids w w'"
  by (simp add: keeps_ids_def)

lemma keeps_ids_new: "recs w k = None \<Longrightarrow> recs w' = (recs w)(k \<mapsto> r) \<Longrightarrow> keeps_ids w w'"
  by (auto simp: keeps_ids_def)

lemma keeps_ids_trans: "keeps_ids w w1 \<Longrightarrow> keeps_ids w1 w2 \<Longrightarrow> keeps_ids w w2"
  unfolding keeps_ids_def by metis

text \<open>The executions of a job, and the tasks of a job that wait at a destination.\<close>

definition executions :: "'w \<Rightarrow> string \<Rightarrow> string set" where
  "executions w j = {k. \<exists>r. recs w k = Some r \<and> xr_job_id r = j}"

text \<open>A call creates no execution, and adds to no queue but the one it publishes to.\<close>

definition quiet :: "'w \<Rightarrow> 'w \<Rightarrow> bool" where
  "quiet w w' \<longleftrightarrow> invar w' \<and> keeps_ids w w' \<and> (\<forall>j. executions w' j = executions w j)
     \<and> (\<forall>k. subseq (queue w' k) (queue w k))"

lemma quiet_same: "invar w' \<Longrightarrow> recs w' = recs w \<Longrightarrow> queue w' = queue w \<Longrightarrow> quiet w w'"
  by (simp add: quiet_def keeps_ids_same executions_def)

lemma quiet_refl: "invar w \<Longrightarrow> quiet w w"
  by (rule quiet_same) simp_all

lemma consume_quiet:
  assumes "invar w" and "valid d" and "broker_consume B d w = Some (x, w')"
  shows "quiet w w'"
proof -
  have "queue w' = queue w \<or> (\<exists>e. queue w d = e # queue w' d) \<and> (\<forall>d'. d' \<noteq> d \<longrightarrow> queue w' d' = queue w d')"
    using brk.consume_ok [OF assms(1,2), of _ w'] brk.consume_err [OF assms(1,2), of _ w'] assms(3)
    by (cases x) blast+
  then have "subseq (queue w' k) (queue w k)" for k by (cases "k = d") auto
  moreover have "recs w' = recs w" using consume_frame [OF assms] by simp
  ultimately show ?thesis
    using brk.invar_consume [OF assms] by (simp add: quiet_def keeps_ids_same executions_def)
qed

lemma update_quiet:
  assumes "invar w" and "store_update_state S t i st w = (x, w')"
  shows "quiet w w'"
proof -
  have recs: "recs w' = recs w \<or> (\<exists>r. recs w i = Some r \<and> recs w' = (recs w)(i \<mapsto> put_state st (stamp t) r))"
    using exec.update_recs [OF assms(1), of t i st] assms(2) by simp
  then have "keeps_ids w w'" by (auto simp: keeps_ids_def put_state_def)
  moreover have "executions w' j = executions w j" for j
    using recs by (auto simp: executions_def put_state_def split: if_splits)
  ultimately show ?thesis
    using update_frame [OF assms] exec.invar_update [OF assms(1), of t i st] assms(2) by (simp add: quiet_def)
qed

lemma call_effect:
  assumes inv: "invar w" and c: "client_call valid c"
  obtains (published) e where "c = CallPublish e" "invar (call_service B S G P c w)"
      "recs (call_service B S G P c w) = recs w"
      "queue (call_service B S G P c w) = (queue w)(be_destination e := queue w (be_destination e) @ [e])"
  | (quiet) "quiet w (call_service B S G P c w)"
proof (cases c)
  case (CallPublish e)
  with c have v: "valid (be_destination e)" by simp
  obtain x w' where run: "broker_publish B e w = (x, w')" by fastforce
  have "invar w'" using brk.invar_publish [OF inv v] run by simp
  moreover have "recs w' = recs w" using publish_frame [OF inv v run] by simp
  moreover have "queue w' = queue w \<or> queue w' = (queue w)(be_destination e := queue w (be_destination e) @ [e])"
    using brk.publish_queue [OF inv v] run by auto
  ultimately show thesis using published [OF CallPublish] quiet quiet_same [of w' w] run CallPublish by auto
next
  case (CallConsume d)
  with c consume_quiet [OF inv, of d] quiet_refl [OF inv] show thesis
    by (intro quiet) (auto split: option.split)
next
  case (CallGet i)
  obtain x w' where run: "store_get S i w = (x, w')" by fastforce
  with get_frame [OF inv run] exec.invar_get [OF inv, of i] exec.get_recs [OF inv, of i] CallGet
  show thesis by (intro quiet quiet_same) simp_all
next
  case (CallUpdate t i st)
  then show thesis using update_quiet [OF inv prod.collapse [symmetric]] by (intro quiet) simp
next
  case (CallResult j jr)
  obtain x w' where run: "store_result P j jr w = (x, w')" by fastforce
  with result_frame [OF inv run] res.invar_store [OF inv, of j jr] CallResult
  show thesis by (intro quiet quiet_same) simp_all
next
  case (CallRegister clk r)
  obtain x w' where run: "reg_register G clk r w = (x, w')" by fastforce
  with register_frame [OF inv run] reg.invar_register [OF inv, of clk r] CallRegister
  show thesis by (intro quiet quiet_same) simp_all
next
  case (CallHeartbeat clk i g)
  obtain x w' where run: "reg_heartbeat G clk i g w = (x, w')" by fastforce
  with heartbeat_frame [OF inv run] reg.invar_heartbeat [OF inv, of clk i g] CallHeartbeat
  show thesis by (intro quiet quiet_same) simp_all
next
  case (CallList clk)
  show thesis
  proof (cases "dir_available_workers G clk w")
    case None
    with CallList quiet_refl [OF inv] show thesis by (intro quiet) simp
  next
    case (Some y)
    obtain x w' where run: "dir_available_workers G clk w = Some (x, w')" using Some by (cases y) auto
    with listing_frame [OF inv run] reg.invar_listing [OF inv run] CallList
    show thesis by (intro quiet quiet_same) simp_all
  qed
qed

lemma keeps_recorded: "keeps_ids w w' \<Longrightarrow> recorded_for w i a \<Longrightarrow> recorded_for w' i a"
  unfolding keeps_ids_def by (erule recorded_for_mono) blast

lemma quiet_dispatched:
  assumes "quiet w w'" and "dispatched_recorded W w"
  shows "dispatched_recorded W w'"
proof (rule dispatched_recorded_mono [OF assms(2)])
  show "set (queue w' (worker_destination i)) \<subseteq> set (queue w (worker_destination i))" for i
  proof
    have "subseq (queue w' (worker_destination i)) (queue w (worker_destination i))"
      using assms(1) by (simp add: quiet_def)
    then show "x \<in> set (queue w (worker_destination i))" if "x \<in> set (queue w' (worker_destination i))" for x
      using that by (elim list_emb_set; blast)
  qed
qed (use assms(1) in \<open>auto simp: quiet_def keeps_ids_def\<close>)

text \<open>The calls of the other parties keep the invariant.\<close>

lemma call_recorded:
  assumes inv: "invar w" and rec: "dispatched_recorded W w" and c: "client_call valid c"
  shows "invar (call_service B S G P c w) \<and> dispatched_recorded W (call_service B S G P c w)"
  using inv c
proof (cases rule: call_effect)
  case (published e)
  then have "worker_destination i \<noteq> be_destination e" for i using c by (metis client_call.simps(1))
  with published dispatched_recorded_mono [OF rec, of "call_service B S G P c w"] show ?thesis by simp
next
  case quiet
  with quiet_dispatched [OF quiet rec] show ?thesis by (simp add: quiet_def)
qed

end

section \<open>Services that do not fail\<close>

locale reliable_control_plane = control_plane +
  assumes publish_succeeds: "invar w \<Longrightarrow> valid (be_destination e) \<Longrightarrow> is_ok (fst (broker_publish B e w))"
    and consume_succeeds: "invar w \<Longrightarrow> valid d \<Longrightarrow> broker_consume B d w = Some (xc, w') \<Longrightarrow> is_ok xc"
    and create_succeeds: "invar w \<Longrightarrow> recs w (xr_execution_id r) = None \<Longrightarrow> is_ok (fst (store_create S r w))"
    and update_succeeds: "invar w \<Longrightarrow> recs w i \<noteq> None \<Longrightarrow> is_ok (fst (store_update_state S t i st w))"
    and get_succeeds: "invar w \<Longrightarrow> is_ok (fst (store_get S i w))"
    and result_succeeds: "invar w \<Longrightarrow> is_ok (fst (store_result P j jr w))"
    and listing_succeeds: "invar w \<Longrightarrow> dir_available_workers G clk w = Some (xl, w') \<Longrightarrow> is_ok xl"
begin

lemma place_succeeds:
  assumes inv: "invar w" and req: "decode_submit W (be_payload submitted) = Ok req"
    and new: "recs w (fr_execution_id fr) = None"
  shows "\<exists>a w'. place W (the_scheduler d) fr i submitted w = (Ok (AssignedDecision i a), w')"
proof -
  obtain res w' where run: "place W (the_scheduler d) fr i submitted w = (res, w')" by fastforce
  from run show ?thesis
  proof (cases rule: place_cases)
    case (undecodable e)
    with req show ?thesis by simp
  next
    case (not_created req' e)
    moreover have "xr_execution_id (build_execution fr i (build_assignment fr j req')) = fr_execution_id fr" for j
      by (simp add: build_execution_def build_assignment_def)
    ultimately show ?thesis using create_succeeds [OF inv] new by (metis fst_conv is_ok_simps(2) scheduler_fields(3))
  next
    case (created req' a w1 p)
    have "invar w1" using exec.invar_create [OF inv, of "build_execution fr i a"] created(3) by simp
    with publish_succeeds [of w1 "build_envelope W fr i submitted a"] created(4) worker_valid
    have "is_ok p" by (simp add: build_envelope_def)
    with created(5) run show ?thesis by (cases p) auto
  qed
qed

text \<open>A task that waits is assigned, unless no worker is left.\<close>

lemma schedule_progress:
  assumes inv: "invar w" and d: "valid d" and waiting: "queue w d = submitted # rest"
    and req: "decode_submit W (be_payload submitted) = Ok req" and new: "recs w (fr_execution_id fr) = None"
  shows "\<exists>ids w1 dec w'. dir_available_workers G (fr_clock fr) w = Some (Ok ids, w1)
    \<and> schedule_one W (the_scheduler d) fr w = Some (Ok dec, w')
    \<and> (case ids of [] \<Rightarrow> dec = Deferred NoWorkerAvailable \<and> members w' = Map.empty
        | i # _ \<Rightarrow> (\<exists>a. dec = AssignedDecision i a))"
proof -
  obtain x w1 where l: "dir_available_workers G (fr_clock fr) w = Some (x, w1)"
    using reg.listing_returns [OF inv] by fastforce
  then obtain ids where x: "x = Ok ids" using listing_succeeds [OF inv l] by (cases x) auto
  have inv1: "invar w1" by (rule reg.invar_listing [OF inv l])
  note frame = listing_frame [OF inv l]
  show ?thesis
  proof (cases ids)
    case Nil
    with l x have "schedule_one W (the_scheduler d) fr w = Some (Ok (Deferred NoWorkerAvailable), w1)"
      by (simp add: schedule_one_def)
    with deferred_step [OF inv d this] Nil l x show ?thesis by simp
  next
    case (Cons i others)
    obtain y w2 where c: "broker_consume B d w1 = Some (y, w2)"
      using brk.consume_waits [OF inv1 d] waiting frame by (cases "broker_consume B d w1") auto
    then obtain e where y: "y = Ok e" using consume_succeeds [OF inv1 d c] by (cases y) auto
    have inv2: "invar w2" by (rule brk.invar_consume [OF inv1 d c])
    have "e = submitted" using brk.consume_ok [OF inv1 d c [unfolded y]] waiting frame by simp
    moreover have "recs w2 (fr_execution_id fr) = None" using consume_frame [OF inv1 d c] frame new by simp
    ultimately obtain a w' where "place W (the_scheduler d) fr i e w2 = (Ok (AssignedDecision i a), w')"
      using place_succeeds [OF inv2 req] by blast
    with l x Cons c y show ?thesis by (simp add: schedule_one_def)
  qed
qed

text \<open>A task that does not decode is lost, and ends the scheduler.\<close>

lemma undecodable_stops:
  assumes inv: "invar w" and d: "valid d" and waiting: "queue w d = submitted # rest"
    and bad: "decode_submit W (be_payload submitted) = Err e"
    and listed: "dir_available_workers G (fr_clock fr) w = Some (Ok (i # ids), w1)"
  shows "\<exists>w'. scheduler_run W (the_scheduler d) ((fr, \<lambda>w. w) # steps) w
      = (Stopped (''invalid SubmitTaskRequest: '' @ e), [], w')
    \<and> queue w' = (queue w)(d := rest) \<and> recs w' = recs w"
proof -
  note frame = listing_frame [OF inv listed]
  have inv1: "invar w1" by (rule reg.invar_listing [OF inv listed])
  obtain y w2 where c: "broker_consume B d w1 = Some (y, w2)"
    using brk.consume_waits [OF inv1 d] waiting frame by (cases "broker_consume B d w1") auto
  then obtain x where y: "y = Ok x" using consume_succeeds [OF inv1 d c] by (cases y) auto
  note consumed = brk.consume_ok [OF inv1 d c [unfolded y]] consume_frame [OF inv1 d c]
  have "schedule_one W (the_scheduler d) fr w = Some (Err (''invalid SubmitTaskRequest: '' @ e), w2)"
    using listed c y consumed waiting frame bad by (simp add: schedule_one_def place_def)
  moreover have "queue w2 = (queue w)(d := rest)" using consumed waiting frame by (auto simp: fun_eq_iff)
  ultimately show ?thesis using consumed frame by simp
qed

end

end
