(* ===== verification/Execution_Store_Redis.thy ===== *)
theory Execution_Store_Redis
  imports Execution_Store Wire_Instance
begin

text \<open>
  The Redis store of \<^verbatim>\<open>src/src/execution_store.rs\<close> satisfies the contract of \<open>ExecutionStore\<close> over any
  Redis and any wire format that behave as documented: the hash a record becomes is read back as the
  same record, up to times rounded to milliseconds, and the two Lua scripts have the effect of the
  operations in memory. Lost requests and lost replies are covered.
\<close>

section \<open>Times and records survive the round trip\<close>

lemma unix_millis_less: "unix_millis t < 2 ^ 64"
  by (simp add: unix_millis_def)

lemma unix_millis_system_time: "m < 2 ^ 64 \<Longrightarrow> unix_millis (system_time m) = m"
  by (simp add: unix_millis_def system_time_def)

definition to_millis :: "system_time \<Rightarrow> system_time" where
  "to_millis t = system_time (unix_millis t)"

lemma to_millis_idem [simp]: "to_millis (to_millis t) = to_millis t"
  by (simp add: to_millis_def unix_millis_system_time [OF unix_millis_less])

lemma unix_millis_to_millis [simp]: "unix_millis (to_millis t) = unix_millis t"
  by (simp add: to_millis_def unix_millis_system_time [OF unix_millis_less])

definition in_millis :: "ExecutionRecord \<Rightarrow> ExecutionRecord" where
  "in_millis r = r\<lparr>xr_created_at := to_millis (xr_created_at r), xr_updated_at := to_millis (xr_updated_at r)\<rparr>"

lemma in_millis_simps [simp]:
  "xr_execution_id (in_millis r) = xr_execution_id r" "xr_job_id (in_millis r) = xr_job_id r"
  "xr_assignment_id (in_millis r) = xr_assignment_id r" "xr_worker_id (in_millis r) = xr_worker_id r"
  "xr_state (in_millis r) = xr_state r"
  by (simp_all add: in_millis_def)

lemma in_millis_put_state: "in_millis (put_state st t r) = put_state st (to_millis t) (in_millis r)"
  by (simp add: in_millis_def put_state_def)

abbreviation hash_of :: "wire \<Rightarrow> ExecutionRecord \<Rightarrow> string \<rightharpoonup> bytes" where
  "hash_of W r \<equiv> map_of (execution_hash W r)"

lemma hash_values:
  "map (hash_of W r) execution_fields =
     map Some [xr_execution_id r, xr_job_id r, xr_assignment_id r, xr_worker_id r,
      show_int (state_code W (xr_state r)), show_nat (unix_millis (xr_created_at r)),
      show_nat (unix_millis (xr_updated_at r))]"
  by (simp add: execution_hash_def execution_fields_def)

lemma parse_state_code:
  "wire_ok W \<Longrightarrow> parse_signed 32 (show_int (state_code W s)) = Some (state_code W s)"
  using wire_okD(6,7) [of W s] by (intro parse_signed_show_int) simp_all

lemma parse_execution_hash:
  assumes "wire_ok W"
  shows "parse_execution W (map (hash_of W r) execution_fields) = Ok (Some (in_millis r))"
  by (simp add: hash_values parse_execution_def field_def parse_state_code [OF assms]
      wire_okD [OF assms] parse_unsigned_show_nat [OF unix_millis_less] in_millis_def to_millis_def)

lemma parse_execution_absent: "parse_execution W (map (\<lambda>_. None) execution_fields) = Ok None"
  by (simp add: parse_execution_def execution_fields_def)

lemma hset_new: "Map.empty ++ map_of (rev (execution_hash W r)) = hash_of W r"
  by (simp add: execution_hash_def execution_fields_def fun_eq_iff)

lemma hset_state:
  "hash_of W r ++ map_of (rev [(''state'', show_int (state_code W st)),
     (''updated_at_ms'', show_nat (unix_millis t))]) = hash_of W (put_state st t r)"
  by (simp add: execution_hash_def execution_fields_def put_state_def fun_eq_iff)

section \<open>The map a keyspace represents\<close>

definition exec_recs :: "wire \<Rightarrow> RedisExecutionStore \<Rightarrow> keyspace \<Rightarrow> string \<rightharpoonup> ExecutionRecord" where
  "exec_recs W c v i =
     (case ks_value v (execution_key c i) of
        Some (RHash h) \<Rightarrow> (case parse_execution W (map h execution_fields) of Ok x \<Rightarrow> x | Err _ \<Rightarrow> None)
      | _ \<Rightarrow> None)"

text \<open>Every key of the store is absent or holds the hash of a record of that identifier, and none
  expires.\<close>

definition exec_wf :: "wire \<Rightarrow> RedisExecutionStore \<Rightarrow> keyspace \<Rightarrow> bool" where
  "exec_wf W c v \<longleftrightarrow> (\<forall>i. ks_deadline v (execution_key c i) = None
     \<and> (ks_value v (execution_key c i) = None
        \<or> (\<exists>r. xr_execution_id r = i \<and> ks_value v (execution_key c i) = Some (RHash (hash_of W r)))))"

lemma execution_key_inj [simp]: "execution_key c i = execution_key c j \<longleftrightarrow> i = j"
  by (simp add: execution_key_def)

lemma exec_wf_cases:
  assumes "wire_ok W" and "exec_wf W c v"
  obtains "ks_value v (execution_key c i) = None" "exec_recs W c v i = None"
  | r where "xr_execution_id r = i" "ks_value v (execution_key c i) = Some (RHash (hash_of W r))"
      "exec_recs W c v i = Some (in_millis r)"
proof (cases "ks_value v (execution_key c i)")
  case None
  with that(1) show thesis by (simp add: exec_recs_def)
next
  case (Some x)
  with assms(2) obtain r where "xr_execution_id r = i"
      "ks_value v (execution_key c i) = Some (RHash (hash_of W r))"
    unfolding exec_wf_def by (metis option.distinct(1))
  with that(2) show thesis by (simp add: exec_recs_def parse_execution_hash [OF assms(1)])
qed

lemma exec_later [simp]:
  assumes "exec_wf W c v"
  shows "exec_wf W c (later t v)" "exec_recs W c (later t v) = exec_recs W c v"
  using assms by (auto simp: exec_wf_def exec_recs_def fun_eq_iff)

lemma exec_put:
  assumes "wire_ok W" and "exec_wf W c v" and "xr_execution_id r = i"
    and "v' = v\<lparr>ks_value := (ks_value v)(execution_key c i \<mapsto> RHash (hash_of W r))\<rparr>"
  shows "exec_wf W c v'" "exec_recs W c v' = (exec_recs W c v)(i \<mapsto> in_millis r)"
  using assms by (auto simp: exec_wf_def exec_recs_def parse_execution_hash fun_eq_iff)

lemma hset_effect_new:
  "ks_value v k = None \<Longrightarrow>
   hset_effect k (execution_hash W r) v = v\<lparr>ks_value := (ks_value v)(k \<mapsto> RHash (hash_of W r))\<rparr>"
  using hset_new [of W r] by (simp add: hset_effect_def)

lemma hset_effect_state:
  "ks_value v k = Some (RHash (hash_of W r)) \<Longrightarrow>
   hset_effect k [(''state'', show_int (state_code W st)), (''updated_at_ms'', show_nat (unix_millis t))] v
     = v\<lparr>ks_value := (ks_value v)(k \<mapsto> RHash (hash_of W (put_state st t r)))\<rparr>"
  using hset_state [of W r st t] by (simp add: hset_effect_def)

section \<open>The scripts\<close>

lemma create_script_effect:
  assumes ok: "redis_ok R" "wire_ok W" and wf: "exec_wf W c (rd_view R s)"
    and i: "xr_execution_id r = i"
    and run: "create_script R (execution_key c i) (execution_hash W r) s = (res, s')"
  shows "exec_wf W c (rd_view R s')"
    and "if exec_recs W c (rd_view R s) i = None
      then res = Ok 1 \<and> exec_recs W c (rd_view R s') = (exec_recs W c (rd_view R s))(i \<mapsto> in_millis r)
      else res = Ok 0 \<and> exec_recs W c (rd_view R s') = exec_recs W c (rd_view R s)"
proof -
  let ?k = "execution_key c i"
  obtain s1 where s1: "rd_exists R ?k s = (Ok (if ks_value (rd_view R s) ?k = None then 0 else 1), s1)"
      "rd_view R s1 = rd_view R s"
    using exists_reply [OF ok(1)] by blast
  have "exec_wf W c (rd_view R s') \<and> (if exec_recs W c (rd_view R s) i = None
      then res = Ok 1 \<and> exec_recs W c (rd_view R s') = (exec_recs W c (rd_view R s))(i \<mapsto> in_millis r)
      else res = Ok 0 \<and> exec_recs W c (rd_view R s') = exec_recs W c (rd_view R s))"
  proof (cases rule: exec_wf_cases [OF ok(2) wf, of i])
    case 1
    then have "as_hash (ks_value (rd_view R s1) ?k) = Some Map.empty" using s1 by simp
    then obtain n s2 where "rd_hset R ?k (execution_hash W r) s1 = (Ok n, s2)"
        "rd_view R s2 = hset_effect ?k (execution_hash W r) (rd_view R s1)"
      using hset_reply [OF ok(1)] by blast
    with 1 s1 run show ?thesis
      using exec_put [OF ok(2) wf i] by (auto simp: create_script_def hset_effect_new)
  next
    case (2 r0)
    with s1 run wf show ?thesis by (auto simp: create_script_def)
  qed
  then show "exec_wf W c (rd_view R s')"
    and "if exec_recs W c (rd_view R s) i = None
      then res = Ok 1 \<and> exec_recs W c (rd_view R s') = (exec_recs W c (rd_view R s))(i \<mapsto> in_millis r)
      else res = Ok 0 \<and> exec_recs W c (rd_view R s') = exec_recs W c (rd_view R s)"
    by blast+
qed

lemma update_script_effect:
  assumes ok: "redis_ok R" "wire_ok W" and wf: "exec_wf W c (rd_view R s)"
    and run: "update_script R (execution_key c i) (show_int (state_code W st))
      (show_nat (unix_millis t)) s = (res, s')"
  shows "exec_wf W c (rd_view R s')"
    and "case exec_recs W c (rd_view R s) i of
      None \<Rightarrow> res = Ok 0 \<and> exec_recs W c (rd_view R s') = exec_recs W c (rd_view R s)
    | Some r \<Rightarrow> res = Ok 1 \<and> exec_recs W c (rd_view R s')
        = (exec_recs W c (rd_view R s))(i \<mapsto> put_state st (to_millis t) r)"
proof -
  let ?k = "execution_key c i"
  obtain s1 where s1: "rd_exists R ?k s = (Ok (if ks_value (rd_view R s) ?k = None then 0 else 1), s1)"
      "rd_view R s1 = rd_view R s"
    using exists_reply [OF ok(1)] by blast
  have "exec_wf W c (rd_view R s') \<and> (case exec_recs W c (rd_view R s) i of
      None \<Rightarrow> res = Ok 0 \<and> exec_recs W c (rd_view R s') = exec_recs W c (rd_view R s)
    | Some r \<Rightarrow> res = Ok 1 \<and> exec_recs W c (rd_view R s')
        = (exec_recs W c (rd_view R s))(i \<mapsto> put_state st (to_millis t) r))"
  proof (cases rule: exec_wf_cases [OF ok(2) wf, of i])
    case 1
    with s1 run wf show ?thesis by (auto simp: update_script_def)
  next
    case (2 r)
    let ?fvs = "[(''state'', show_int (state_code W st)), (''updated_at_ms'', show_nat (unix_millis t))]"
    from 2 s1 have "as_hash (ks_value (rd_view R s1) ?k) = Some (hash_of W r)" by simp
    then obtain n s2 where "rd_hset R ?k ?fvs s1 = (Ok n, s2)"
        "rd_view R s2 = hset_effect ?k ?fvs (rd_view R s1)"
      using hset_reply [OF ok(1)] by blast
    with 2 s1 run show ?thesis
      using exec_put [OF ok(2) wf, of "put_state st t r" i]
      by (auto simp: update_script_def hset_effect_state in_millis_put_state)
  qed
  then show "exec_wf W c (rd_view R s')"
    and "case exec_recs W c (rd_view R s) i of
      None \<Rightarrow> res = Ok 0 \<and> exec_recs W c (rd_view R s') = exec_recs W c (rd_view R s)
    | Some r \<Rightarrow> res = Ok 1 \<and> exec_recs W c (rd_view R s')
        = (exec_recs W c (rd_view R s))(i \<mapsto> put_state st (to_millis t) r)"
    by blast+
qed

section \<open>The operations\<close>

context redis_deployment
begin

abbreviation recs_in :: "RedisExecutionStore \<Rightarrow> 'd \<Rightarrow> string \<rightharpoonup> ExecutionRecord" where
  "recs_in c s \<equiv> exec_recs W c (rd_view R s)"

abbreviation wf_in :: "RedisExecutionStore \<Rightarrow> 'd \<Rightarrow> bool" where
  "wf_in c s \<equiv> exec_wf W c (rd_view R s)"

lemma connect_recs:
  assumes "wf_in c s"
  shows "wf_in c (snd (connect R s))" "recs_in c (snd (connect R s)) = recs_in c s"
  using connect_view [OF redis, of s] assms by auto

lemma redis_create_spec:
  assumes wf: "wf_in c s" and run: "redis_create R W c r s = (res, s')"
  shows "wf_in c s' \<and> (if is_ok res
    then recs_in c s (xr_execution_id r) = None
       \<and> recs_in c s' = (recs_in c s)(xr_execution_id r \<mapsto> in_millis r)
    else recs_in c s' = recs_in c s \<or> recs_in c s (xr_execution_id r) = None
       \<and> recs_in c s' = (recs_in c s)(xr_execution_id r \<mapsto> in_millis r))"
proof -
  obtain cr s1 where conn: "connect R s = (cr, s1)" by fastforce
  note s1 = connect_recs [OF wf, unfolded conn snd_conv]
  show ?thesis
  proof (cases cr)
    case (Inl e)
    with conn run s1 show ?thesis by (auto simp: redis_create_def)
  next
    case (Inr u)
    let ?script = "create_script R (execution_key c (xr_execution_id r)) (execution_hash W r)"
    obtain rr s2 where req: "request R ?script s1 = (rr, s2)" by fastforce
    have out: "s' = s2" "res = (case rr of Err e \<Rightarrow> Err (''cannot create execution: '' @ e)
        | Ok n \<Rightarrow> if n = 1 then Ok () else Err ''execution already exists'')"
      using run conn Inr req by (cases rr; simp add: redis_create_def split: if_splits)+
    note effect = create_script_effect [OF redis wire _ refl]
    from request_cases [OF redis req] show ?thesis
    proof cases
      case (1 t sa)
      then have "wf_in c sa" "recs_in c sa = recs_in c s" using s1 by simp_all
      with effect [OF this(1) 1(3)] show ?thesis using out by (auto split: if_splits)
    next
      case (2 t e)
      with s1 out show ?thesis by simp
    next
      case (3 t sa e)
      then have sa: "wf_in c sa" "recs_in c sa = recs_in c s" using s1 by simp_all
      obtain res3 s3 where run3: "?script sa = (res3, s3)" by fastforce
      from effect [OF sa(1) run3] show ?thesis using 3 sa out run3 by (auto split: if_splits)
    qed
  qed
qed

lemma redis_update_spec:
  assumes wf: "wf_in c s" and run: "redis_update_state R W c t i st s = (res, s')"
  shows "wf_in c s' \<and> (if is_ok res
    then (\<exists>r. recs_in c s i = Some r \<and> recs_in c s' = (recs_in c s)(i \<mapsto> put_state st (to_millis t) r))
    else recs_in c s' = recs_in c s
      \<or> (\<exists>r. recs_in c s i = Some r \<and> recs_in c s' = (recs_in c s)(i \<mapsto> put_state st (to_millis t) r)))"
proof -
  obtain cr s1 where conn: "connect R s = (cr, s1)" by fastforce
  note s1 = connect_recs [OF wf, unfolded conn snd_conv]
  show ?thesis
  proof (cases cr)
    case (Inl e)
    with conn run s1 show ?thesis by (auto simp: redis_update_state_def)
  next
    case (Inr u)
    let ?script = "update_script R (execution_key c i) (show_int (state_code W st))
      (show_nat (unix_millis t))"
    obtain rr s2 where req: "request R ?script s1 = (rr, s2)" by fastforce
    have out: "s' = s2" "res = (case rr of Err e \<Rightarrow> Err (''cannot update execution: '' @ e)
        | Ok n \<Rightarrow> if n = 1 then Ok () else Err ''execution not found'')"
      using run conn Inr req by (cases rr; simp add: redis_update_state_def split: if_splits)+
    note effect = update_script_effect [OF redis wire]
    from request_cases [OF redis req] show ?thesis
    proof cases
      case (1 t' sa)
      then have "wf_in c sa" "recs_in c sa = recs_in c s" using s1 by simp_all
      with effect [OF this(1) 1(3)] show ?thesis using out by (auto split: option.splits)
    next
      case (2 t' e)
      with s1 out show ?thesis by simp
    next
      case (3 t' sa e)
      then have sa: "wf_in c sa" "recs_in c sa = recs_in c s" using s1 by simp_all
      obtain res3 s3 where run3: "?script sa = (res3, s3)" by fastforce
      from effect [OF sa(1) run3] show ?thesis using 3 sa out run3 by (auto split: option.splits)
    qed
  qed
qed

lemma hmget_recs:
  assumes "wf_in c s" and "rd_hmget R (execution_key c i) execution_fields s = (res, s')"
  shows "wf_in c s'" "recs_in c s' = recs_in c s"
    "\<exists>vs. res = Ok vs \<and> parse_execution W vs = Ok (recs_in c s i)"
proof -
  obtain h where h: "as_hash (ks_value (rd_view R s) (execution_key c i)) = Some h"
      "parse_execution W (map h execution_fields) = Ok (recs_in c s i)"
    by (cases rule: exec_wf_cases [OF wire assms(1), of i])
      (use parse_execution_hash [OF wire] parse_execution_absent in auto)
  then obtain s1 where "rd_hmget R (execution_key c i) execution_fields s
      = (Ok (map h execution_fields), s1)" "rd_view R s1 = rd_view R s"
    using hmget_reply [OF redis] by blast
  with assms h show "wf_in c s'" "recs_in c s' = recs_in c s"
    "\<exists>vs. res = Ok vs \<and> parse_execution W vs = Ok (recs_in c s i)" by auto
qed

lemma redis_get_spec:
  assumes wf: "wf_in c s" and run: "redis_get R W c i s = (res, s')"
  shows "wf_in c s' \<and> recs_in c s' = recs_in c s \<and> (\<forall>x. res = Ok x \<longrightarrow> x = recs_in c s i)"
proof -
  obtain cr s1 where conn: "connect R s = (cr, s1)" by fastforce
  note s1 = connect_recs [OF wf, unfolded conn snd_conv]
  show ?thesis
  proof (cases cr)
    case (Inl e)
    with conn run s1 show ?thesis by (auto simp: redis_get_def)
  next
    case (Inr u)
    let ?cmd = "rd_hmget R (execution_key c i) execution_fields"
    obtain rr s2 where req: "request R ?cmd s1 = (rr, s2)" by fastforce
    have out: "s' = s2" "res = (case rr of Err e \<Rightarrow> Err (''cannot read execution: '' @ e)
        | Ok vs \<Rightarrow> parse_execution W vs)"
      using run conn Inr req by (cases rr; simp add: redis_get_def)+
    from request_cases [OF redis req] show ?thesis
    proof cases
      case (1 t sa)
      then have "wf_in c sa" "recs_in c sa = recs_in c s" using s1 by simp_all
      with hmget_recs [OF this(1) 1(3)] show ?thesis using out by auto
    next
      case (2 t e)
      with s1 out show ?thesis by simp
    next
      case (3 t sa e)
      then have sa: "wf_in c sa" "recs_in c sa = recs_in c s" using s1 by simp_all
      obtain res3 s3 where run3: "?cmd sa = (res3, s3)" by fastforce
      from hmget_recs [OF sa(1) run3] show ?thesis using 3 sa out run3 by auto
    qed
  qed
qed

end

sublocale redis_deployment \<subseteq> exec: execution_store "redis_execution_store R W c"
    "\<lambda>s. exec_recs W c (rd_view R s)" "\<lambda>s. exec_wf W c (rd_view R s)" in_millis to_millis
  for c
proof (unfold_locales, unfold redis_execution_store_def ExecutionStore.select_convs, goal_cases)
  case (1 w r w')
  then show ?case using redis_create_spec [of c w r "Ok ()" w'] by simp
next
  case (2 w r e w')
  then show ?case using redis_create_spec [of c w r "Err e" w'] by simp
next
  case (3 w i x w')
  then show ?case using redis_get_spec [of c w i "Ok x" w'] by simp
next
  case (4 w i)
  then show ?case using redis_get_spec [OF 4 prod.collapse [symmetric]] by blast
next
  case (5 w t i st w')
  then show ?case using redis_update_spec [of c w t i st "Ok ()" w'] by simp
next
  case (6 w t i st e w')
  then show ?case using redis_update_spec [of c w t i st "Err e" w'] by simp
next
  case (7 w r)
  then show ?case using redis_create_spec [OF 7 prod.collapse [symmetric]] by blast
next
  case (8 w i)
  then show ?case using redis_get_spec [OF 8 prod.collapse [symmetric]] by blast
next
  case (9 w t i st)
  then show ?case using redis_update_spec [OF 9 prod.collapse [symmetric]] by blast
qed simp_all

section \<open>Refinement of the store in memory\<close>

definition reply_millis :: "store_reply \<Rightarrow> store_reply" where
  "reply_millis x = (case x of Got (Ok r) \<Rightarrow> Got (Ok (map_option in_millis r)) | _ \<Rightarrow> x)"

text \<open>The keyspace holds the records of the store in memory, with times in milliseconds.\<close>

definition store_rel ::
  "'d redis \<Rightarrow> wire \<Rightarrow> RedisExecutionStore \<Rightarrow> 'd \<Rightarrow> MemoryExecutionStore \<Rightarrow> bool" where
  "store_rel R W c s m \<longleftrightarrow> exec_wf W c (rd_view R s) \<and> \<not> mes_poisoned m
     \<and> (\<forall>i. exec_recs W c (rd_view R s) i = map_option in_millis (mes_executions m i))"

context redis_deployment
begin

text \<open>Over a reliable connection an operation is its script, run in a state with the same records.\<close>

lemma reliable_steps:
  assumes "reliable R" and "wf_in c s"
  obtains s1 s2 where "connect R s = (Ok (), s1)" "request R cmd s1 = cmd s2"
    "wf_in c s2" "recs_in c s2 = recs_in c s"
proof -
  obtain t s1 where 1: "rd_view R s1 = later t (rd_view R s)" "connect R s = (Ok (), s1)"
    using reliable_connect [OF redis assms(1)] by blast
  obtain t' s2 where 2: "rd_view R s2 = later t' (rd_view R s1)" "request R cmd s1 = cmd s2"
    using reliable_request [OF redis assms(1)] by blast
  from 1(1) assms(2) have w1: "wf_in c s1" "recs_in c s1 = recs_in c s" by simp_all
  with 2(1) have "wf_in c s2" "recs_in c s2 = recs_in c s" by simp_all
  with 1 2 that show thesis by blast
qed

lemma create_refines:
  assumes "reliable R" and "store_rel R W c s m"
  shows "fst (redis_create R W c r s) = fst (memory_create r m)
    \<and> store_rel R W c (snd (redis_create R W c r s)) (snd (memory_create r m))"
proof -
  let ?script = "create_script R (execution_key c (xr_execution_id r)) (execution_hash W r)"
  from assms(2) have wf: "wf_in c s" by (simp add: store_rel_def)
  obtain s1 s2 where s: "connect R s = (Ok (), s1)" "request R ?script s1 = ?script s2"
      "wf_in c s2" "recs_in c s2 = recs_in c s"
    by (rule reliable_steps [OF assms(1) wf])
  obtain res s3 where run: "?script s2 = (res, s3)" by fastforce
  from create_script_effect [OF redis wire s(3) refl run] s assms(2) run show ?thesis
    by (auto simp: redis_create_def memory_create_def store_rel_def split: if_splits)
qed

lemma update_refines:
  assumes "reliable R" and "store_rel R W c s m"
  shows "fst (redis_update_state R W c t i st s) = fst (memory_update_state t i st m)
    \<and> store_rel R W c (snd (redis_update_state R W c t i st s)) (snd (memory_update_state t i st m))"
proof -
  let ?script = "update_script R (execution_key c i) (show_int (state_code W st))
      (show_nat (unix_millis t))"
  from assms(2) have wf: "wf_in c s" by (simp add: store_rel_def)
  obtain s1 s2 where s: "connect R s = (Ok (), s1)" "request R ?script s1 = ?script s2"
      "wf_in c s2" "recs_in c s2 = recs_in c s"
    by (rule reliable_steps [OF assms(1) wf])
  obtain res s3 where run: "?script s2 = (res, s3)" by fastforce
  have "in_millis (r\<lparr>xr_state := st, xr_updated_at := t\<rparr>) = put_state st (to_millis t) (in_millis r)" for r
    using in_millis_put_state [of st t r] by (simp add: put_state_def)
  with update_script_effect [OF redis wire s(3) run] s assms(2) run show ?thesis
    by (auto simp: redis_update_state_def memory_update_state_def store_rel_def split: option.splits)
qed

lemma get_refines:
  assumes "reliable R" and "store_rel R W c s m"
  shows "Got (fst (redis_get R W c i s)) = reply_millis (Got (fst (memory_get i m)))
    \<and> store_rel R W c (snd (redis_get R W c i s)) (snd (memory_get i m))"
proof -
  let ?cmd = "rd_hmget R (execution_key c i) execution_fields"
  from assms(2) have wf: "wf_in c s" by (simp add: store_rel_def)
  obtain s1 s2 where s: "connect R s = (Ok (), s1)" "request R ?cmd s1 = ?cmd s2"
      "wf_in c s2" "recs_in c s2 = recs_in c s"
    by (rule reliable_steps [OF assms(1) wf])
  obtain res s3 where run: "?cmd s2 = (res, s3)" by fastforce
  from hmget_recs [OF s(3) run] s assms(2) run show ?thesis
    by (auto simp: redis_get_def memory_get_def store_rel_def reply_millis_def)
qed

lemma replies_refine:
  "reliable R \<Longrightarrow> store_rel R W c s m \<Longrightarrow>
   store_replies (redis_execution_store R W c) cs s
     = map reply_millis (store_replies memory_execution_store cs m)"
proof (induction cs arbitrary: s m)
  case (Cons x cs)
  show ?case
  proof (cases x)
    case (Create r)
    with Cons.IH [OF Cons.prems(1)] create_refines [OF Cons.prems, of r] show ?thesis
      by (auto simp: redis_execution_store_def memory_execution_store_def reply_millis_def
          split: prod.split)
  next
    case (Get i)
    with Cons.IH [OF Cons.prems(1)] get_refines [OF Cons.prems, of i] show ?thesis
      by (auto simp: redis_execution_store_def memory_execution_store_def split: prod.split)
  next
    case (Update t i st)
    with Cons.IH [OF Cons.prems(1)] update_refines [OF Cons.prems, of t i st] show ?thesis
      by (auto simp: redis_execution_store_def memory_execution_store_def reply_millis_def
          split: prod.split)
  qed
qed simp

end

context reliable_deployment
begin

lemma reliable_create:
  assumes "wf_in c s" and "recs_in c s (xr_execution_id r) = None"
  shows "is_ok (fst (redis_create R W c r s))"
proof -
  let ?script = "create_script R (execution_key c (xr_execution_id r)) (execution_hash W r)"
  obtain s1 s2 where s: "connect R s = (Ok (), s1)" "request R ?script s1 = ?script s2"
      "wf_in c s2" "recs_in c s2 = recs_in c s"
    by (rule reliable_steps [OF reliable assms(1)])
  obtain res s3 where run: "?script s2 = (res, s3)" by fastforce
  from create_script_effect(2) [OF redis wire s(3) refl run] s assms(2) run show ?thesis
    by (simp add: redis_create_def)
qed

lemma reliable_update:
  assumes "wf_in c s" and "recs_in c s i \<noteq> None"
  shows "is_ok (fst (redis_update_state R W c t i st s))"
proof -
  let ?script = "update_script R (execution_key c i) (show_int (state_code W st))
      (show_nat (unix_millis t))"
  obtain s1 s2 where s: "connect R s = (Ok (), s1)" "request R ?script s1 = ?script s2"
      "wf_in c s2" "recs_in c s2 = recs_in c s"
    by (rule reliable_steps [OF reliable assms(1)])
  obtain res s3 where run: "?script s2 = (res, s3)" by fastforce
  from update_script_effect(2) [OF redis wire s(3) run] s assms(2) run show ?thesis
    by (auto simp: redis_update_state_def)
qed

lemma reliable_get:
  assumes "wf_in c s"
  shows "is_ok (fst (redis_get R W c i s))"
proof -
  let ?cmd = "rd_hmget R (execution_key c i) execution_fields"
  obtain s1 s2 where s: "connect R s = (Ok (), s1)" "request R ?cmd s1 = ?cmd s2"
      "wf_in c s2" "recs_in c s2 = recs_in c s"
    by (rule reliable_steps [OF reliable assms(1)])
  obtain res s3 where run: "?cmd s2 = (res, s3)" by fastforce
  from hmget_recs(3) [OF s(3) run] s run show ?thesis by (auto simp: redis_get_def)
qed

end

context redis_deployment
begin

lemmas redis_created_once = exec.create_once [unfolded redis_execution_store_def ExecutionStore.select_convs,
  folded redis_execution_store_def]

lemmas redis_created_read_back = exec.created_read_back
  [unfolded redis_execution_store_def ExecutionStore.select_convs, folded redis_execution_store_def]

end

section \<open>Properties\<close>

definition sample_execution :: ExecutionRecord where
  "sample_execution = \<lparr>xr_execution_id = ''e1'', xr_job_id = ''j1'', xr_assignment_id = ''a1'',
     xr_worker_id = ''w1'', xr_state = Assigned, xr_created_at = 5000000, xr_updated_at = 5000000\<rparr>"

text \<open>An empty Redis; the second request that follows the first two loses its reply.\<close>

definition sample_redis :: reference_state where
  "sample_redis = \<lparr>ref_view = empty_keyspace,
     ref_future = [(1, Delivered), (1, Delivered), (3, Delivered), (1, ReplyLost ''timeout'')]\<rparr>"

definition sample_store :: RedisExecutionStore where
  "sample_store = \<lparr>res_key_prefix = ''threadweave:executions''\<rparr>"

lemma exec_wf_empty: "exec_wf W c empty_keyspace"
  by (simp add: exec_wf_def empty_keyspace_def)

lemma sample_create_ok:
  "fst (redis_create reference_redis unary_wire sample_store sample_execution sample_redis) = Ok ()"
  by (simp add: redis_create_def connect_def request_def create_script_def reference_redis_def
      sample_redis_def sample_store_def sample_execution_def empty_keyspace_def later_def Let_def
      execution_key_def on_hash_def put_view_def)

text \<open>C11. The Redis execution store answers exactly as the store in memory: over a connection that
  loses nothing, every sequence of create, get and update calls gives the same replies, errors
  included, with the times of the records rounded to milliseconds.\<close>

theorem redis_store_refines_memory:
  assumes "redis_ok R" and "wire_ok W" and "reliable R" and "store_rel R W c s m"
  shows "store_replies (redis_execution_store R W c) cs s
    = map reply_millis (store_replies memory_execution_store cs m)"
  using redis_deployment.replies_refine [OF redis_deployment.intro [OF assms(1,2)] assms(3,4)] .

theorem redis_store_refines_memory_witness:
  "store_replies (redis_execution_store calm_redis unary_wire sample_store)
     [Create sample_execution, Create sample_execution, Update 7000001 ''e1'' Running, Get ''e1'']
     \<lparr>ref_view = empty_keyspace, ref_future = []\<rparr>
   = [Done (Ok ()), Done (Err ''execution already exists''), Done (Ok ()),
      Got (Ok (Some (sample_execution\<lparr>xr_state := Running, xr_updated_at := 7000000\<rparr>)))]"
proof -
  have "store_rel calm_redis unary_wire sample_store \<lparr>ref_view = empty_keyspace, ref_future = []\<rparr>
      \<lparr>mes_executions = Map.empty, mes_poisoned = False\<rparr>"
    by (simp add: store_rel_def exec_wf_empty calm_redis_fields reference_redis_def exec_recs_def)
      (simp add: empty_keyspace_def)
  note refines = redis_store_refines_memory [OF calm_redis_ok unary_wire_ok calm_redis_reliable this]
  show ?thesis
    unfolding refines
    by (simp add: memory_store_defs sample_execution_def reply_millis_def in_millis_def to_millis_def
        unix_millis_def system_time_def)
qed

text \<open>An execution identifier is created once in Redis: after a create that succeeded, whatever
  calls follow and whatever requests or replies are lost, no create of the same identifier succeeds
  again.\<close>

lemma redis_execution_created_once:
  assumes "redis_ok R" and "wire_ok W" and "exec_wf W c (rd_view R s)"
    and "redis_create R W c r s = (Ok (), s1)" and "xr_execution_id r' = xr_execution_id r"
  shows "\<not> is_ok (fst (redis_create R W c r' (store_calls (redis_execution_store R W c) cs s1)))"
  using redis_deployment.redis_created_once [OF redis_deployment.intro [OF assms(1,2)] assms(3-)] .

text \<open>Once an execution is created in Redis, every later read that answers, after any calls and any
  lost requests, finds it, with the job, assignment and worker it was created with.\<close>

lemma redis_execution_identity_kept:
  assumes "redis_ok R" and "wire_ok W" and "exec_wf W c (rd_view R s)"
    and "redis_create R W c r s = (Ok (), s1)"
    and "fst (redis_get R W c (xr_execution_id r) (store_calls (redis_execution_store R W c) cs s1)) = Ok x"
  shows "\<exists>r'. x = Some r' \<and> xr_execution_id r' = xr_execution_id r \<and> xr_job_id r' = xr_job_id r
    \<and> xr_assignment_id r' = xr_assignment_id r \<and> xr_worker_id r' = xr_worker_id r"
  using redis_deployment.redis_created_read_back [OF redis_deployment.intro [OF assms(1,2)] assms(3-)] .

end
