(* ===== verification/Redis_Frames.thy ===== *)
theory Redis_Frames
  imports Worker_Membership_Redis Execution_Store_Redis Broker Result_Backend
begin

text \<open>
  Which keys each Redis operation touches. The broker, the result backend, the worker registry and the
  execution store share one Redis; an operation of one touches its own key only, so that, apart from
  keys that expire, the others do not notice.
\<close>

section \<open>Touched keys\<close>

definition touches :: "string set \<Rightarrow> keyspace \<Rightarrow> keyspace \<Rightarrow> bool" where
  "touches K v v' \<longleftrightarrow> (\<forall>k. k \<notin> K \<longrightarrow>
     ks_value v' k = ks_value v k \<and> ks_deadline v' k = ks_deadline v k
     \<or> ks_deadline v k \<noteq> None \<and> ks_value v' k = None \<and> ks_deadline v' k = None)"

lemma touches_refl [simp]: "touches K v v"
  by (simp add: touches_def)

lemma touches_trans: "touches K v v' \<Longrightarrow> touches K v' v'' \<Longrightarrow> touches K v v''"
  unfolding touches_def by metis

lemma touches_mono: "touches K v v' \<Longrightarrow> K \<subseteq> K' \<Longrightarrow> touches K' v v'"
  unfolding touches_def by blast

lemma touches_later [simp]: "touches K v (later t v)"
  by (auto simp: touches_def later_def Let_def)

lemma touches_effects:
  "touches {k} v (hset_effect k fvs v)" "touches {k} v (rpush_effect k b v)"
  "touches {k} v (set_effect k b v)" "touches {k} v (pexpire_effect k ms v)" "touches {k} v (lpop_effect k v)"
  by (auto simp: touches_def hset_effect_def rpush_effect_def set_effect_def pexpire_effect_def lpop_effect_def
      split: option.splits rvalue.splits list.splits)

lemma touches_persistent:
  assumes "touches K v v'" and "k \<notin> K" and "ks_deadline v k = None"
  shows "ks_value v' k = ks_value v k" "ks_deadline v' k = None"
  using assms unfolding touches_def by metis+

text \<open>A command that touches only \<open>K\<close>.\<close>

definition within :: "'d redis \<Rightarrow> string set \<Rightarrow> ('d \<Rightarrow> 'x \<times> 'd) \<Rightarrow> bool" where
  "within R K f \<longleftrightarrow> (\<forall>s. touches K (rd_view R s) (rd_view R (snd (f s))))"

lemma withinD: "within R K f \<Longrightarrow> f s = (x, s') \<Longrightarrow> touches K (rd_view R s) (rd_view R s')"
  unfolding within_def by (metis snd_conv)

lemma within_return [simp]: "within R K (\<lambda>s. (f s, s))"
  by (simp add: within_def)

lemma within_try_call:
  assumes "within R K f" and "\<And>v. within R K (k v)"
  shows "within R K (\<lambda>s. try_call g (f s) k)"
  unfolding within_def
proof
  fix s
  obtain x s1 where f: "f s = (x, s1)" by fastforce
  from withinD [OF assms(1) f] have t: "touches K (rd_view R s) (rd_view R s1)" .
  show "touches K (rd_view R s) (rd_view R (snd (try_call g (f s) k)))"
  proof (cases x)
    case (Inl e)
    with f t show ?thesis by simp
  next
    case (Inr v)
    with f touches_trans [OF t] assms(2) [of v] show ?thesis by (simp add: within_def)
  qed
qed

lemma within_if: "within R K f \<Longrightarrow> within R K g \<Longrightarrow> within R K (\<lambda>s. if b then f s else g s)"
  by (cases b) simp_all

section \<open>Commands\<close>

lemma within_replies:
  assumes "\<And>s. refuses R (f s) s \<or> (\<exists>x v. replies R (f s) x v \<and> touches K (rd_view R s) v)"
  shows "within R K f"
  unfolding within_def
proof
  fix s
  show "touches K (rd_view R s) (rd_view R (snd (f s)))"
    using assms [of s] by (auto simp: refuses_def replies_def)
qed

lemma within_commands:
  assumes "redis_ok R"
  shows "within R {k} (rd_set R k b)" "within R {k} (rd_rpush R k b)" "within R {k} (rd_lpop R k)"
    "within R {k} (rd_exists R k)" "within R {k} (rd_hget R k f)" "within R {k} (rd_hmget R k fs)"
    "within R {k} (rd_hset R k fvs)" "within R {k} (rd_pexpire R k ms)"
proof -
  note ok = redis_okD [OF assms, unfolded strings_ok_def lists_ok_def hashes_ok_def keys_ok_def]
  show "within R {k} (rd_set R k b)"
    using ok(2) touches_effects(3) by (intro within_replies) blast
  show "within R {k} (rd_exists R k)"
    using ok(5) by (intro within_replies) (blast intro: touches_refl)
  show "within R {k} (rd_rpush R k b)"
  proof (rule within_replies)
    fix s
    from ok(3) have "case as_list (ks_value (rd_view R s) k) of
        None \<Rightarrow> refuses R (rd_rpush R k b s) s
      | Some l \<Rightarrow> replies R (rd_rpush R k b s) (Suc (length l)) (rpush_effect k b (rd_view R s))" by blast
    then show "refuses R (rd_rpush R k b s) s
        \<or> (\<exists>x v. replies R (rd_rpush R k b s) x v \<and> touches {k} (rd_view R s) v)"
      by (cases "as_list (ks_value (rd_view R s) k)") (simp_all, blast intro: touches_effects)
  qed
  show "within R {k} (rd_lpop R k)"
  proof (rule within_replies)
    fix s
    from ok(3) have "case as_list (ks_value (rd_view R s) k) of
        None \<Rightarrow> refuses R (rd_lpop R k s) s
      | Some [] \<Rightarrow> replies R (rd_lpop R k s) None (rd_view R s)
      | Some (x # _) \<Rightarrow> replies R (rd_lpop R k s) (Some x) (lpop_effect k (rd_view R s))" by blast
    then show "refuses R (rd_lpop R k s) s
        \<or> (\<exists>x v. replies R (rd_lpop R k s) x v \<and> touches {k} (rd_view R s) v)"
      by (cases "as_list (ks_value (rd_view R s) k)"; cases "the (as_list (ks_value (rd_view R s) k))")
        (simp_all, (blast intro: touches_effects touches_refl)+)
  qed
  show "within R {k} (rd_hget R k f)"
  proof (rule within_replies)
    fix s
    from ok(4) have "case as_hash (ks_value (rd_view R s) k) of
        None \<Rightarrow> refuses R (rd_hget R k f s) s
      | Some h \<Rightarrow> replies R (rd_hget R k f s) (h f) (rd_view R s)" by blast
    then show "refuses R (rd_hget R k f s) s
        \<or> (\<exists>x v. replies R (rd_hget R k f s) x v \<and> touches {k} (rd_view R s) v)"
      by (cases "as_hash (ks_value (rd_view R s) k)") (simp_all, blast intro: touches_refl)
  qed
  show "within R {k} (rd_hmget R k fs)"
  proof (rule within_replies)
    fix s
    from ok(4) have "case as_hash (ks_value (rd_view R s) k) of
        None \<Rightarrow> refuses R (rd_hmget R k fs s) s
      | Some h \<Rightarrow> replies R (rd_hmget R k fs s) (map h fs) (rd_view R s)" by blast
    then show "refuses R (rd_hmget R k fs s) s
        \<or> (\<exists>x v. replies R (rd_hmget R k fs s) x v \<and> touches {k} (rd_view R s) v)"
      by (cases "as_hash (ks_value (rd_view R s) k)") (simp_all, blast intro: touches_refl)
  qed
  show "within R {k} (rd_hset R k fvs)"
  proof (rule within_replies)
    fix s
    from ok(4) have "case as_hash (ks_value (rd_view R s) k) of
        None \<Rightarrow> refuses R (rd_hset R k fvs s) s
      | Some h \<Rightarrow> (\<exists>n. replies R (rd_hset R k fvs s) n (hset_effect k fvs (rd_view R s)))" by blast
    then show "refuses R (rd_hset R k fvs s) s
        \<or> (\<exists>x v. replies R (rd_hset R k fvs s) x v \<and> touches {k} (rd_view R s) v)"
      by (cases "as_hash (ks_value (rd_view R s) k)") (simp_all, blast intro: touches_effects)
  qed
  show "within R {k} (rd_pexpire R k ms)"
  proof (rule within_replies)
    fix s
    from ok(5) have "if ks_clock (rd_view R s) + ms < 2 ^ 63
        then (\<exists>n. replies R (rd_pexpire R k ms s) n (pexpire_effect k ms (rd_view R s)))
        else refuses R (rd_pexpire R k ms s) s" by blast
    then show "refuses R (rd_pexpire R k ms s) s
        \<or> (\<exists>x v. replies R (rd_pexpire R k ms s) x v \<and> touches {k} (rd_view R s) v)"
      by (simp only: split: if_splits) (blast intro: touches_effects)+
  qed
qed

lemma within_request:
  assumes "redis_ok R" and "within R K cmd"
  shows "within R K (request R cmd)"
  unfolding within_def
proof
  fix s
  obtain res s' where req: "request R cmd s = (res, s')" by fastforce
  from request_cases [OF assms(1) req] have "touches K (rd_view R s) (rd_view R s')"
  proof cases
    case (1 t s1)
    from withinD [OF assms(2) 1(3)] 1(2) show ?thesis using touches_trans touches_later by metis
  next
    case (2 t e)
    then show ?thesis by simp
  next
    case (3 t s1 e)
    obtain x s2 where "cmd s1 = (x, s2)" by fastforce
    with withinD [OF assms(2) this] 3(2,4) show ?thesis using touches_trans touches_later by (metis snd_conv)
  qed
  with req show "touches K (rd_view R s) (rd_view R (snd (request R cmd s)))" by simp
qed

lemma within_connect: "redis_ok R \<Longrightarrow> within R K (connect R)"
  unfolding connect_def by (rule within_request) simp_all

section \<open>Operations\<close>

lemmas within_rules = within_try_call within_if within_request within_connect within_commands

lemma within_operations:
  assumes "redis_ok R"
  shows "within R {execution_key c (xr_execution_id r)} (redis_create R W c r)"
    and "within R {execution_key c i} (redis_get R W c i)"
    and "within R {execution_key c i} (redis_update_state R W c t i st)"
    and "within R {broker_key b (be_destination e)} (redis_publish R W b e)"
    and "within R {result_key p j} (redis_store_result R W p j res)"
    and "within R {worker_key g (wr_worker_id w)} (redis_register R W g clk w)"
    and "within R {worker_key g i} (redis_heartbeat R W g clk i n)"
  unfolding redis_create_def create_script_def redis_get_def redis_update_state_def update_script_def
    redis_publish_def redis_store_result_def redis_register_def register_script_def redis_heartbeat_def
    heartbeat_script_def
  by (intro within_rules assms within_return; simp)+

lemma within_reads:
  assumes "redis_ok R"
  shows "within R K (rd_hget R k f)" "within R K (rd_scan R cur p n)"
proof -
  note ok = redis_okD [OF assms, unfolded hashes_ok_def scan_ok_def]
  show "within R K (rd_hget R k f)"
  proof (rule within_replies)
    fix s
    from ok(4) have "case as_hash (ks_value (rd_view R s) k) of
        None \<Rightarrow> refuses R (rd_hget R k f s) s
      | Some h \<Rightarrow> replies R (rd_hget R k f s) (h f) (rd_view R s)" by blast
    then show "refuses R (rd_hget R k f s) s
        \<or> (\<exists>x v. replies R (rd_hget R k f s) x v \<and> touches K (rd_view R s) v)"
      by (cases "as_hash (ks_value (rd_view R s) k)") (simp_all, blast intro: touches_refl)
  qed
  show "within R K (rd_scan R cur p n)"
    unfolding within_def
  proof
    fix s
    from ok(7) have "\<exists>c' ks s'. rd_scan R cur p n s = (Ok (c', ks), s') \<and> rd_view R s' = rd_view R s" by meson
    then show "touches K (rd_view R s) (rd_view R (snd (rd_scan R cur p n s)))" by auto
  qed
qed

text \<open>The two operations that may wait.\<close>

lemma consume_touches:
  assumes "redis_ok R" and "redis_consume R W b d s = Some (x, s')"
  shows "touches {broker_key b d} (rd_view R s) (rd_view R s')"
proof -
  let ?K = "{broker_key b d}"
  obtain cr s1 where c: "connect R s = (cr, s1)" by fastforce
  obtain y s2 where r: "request R (rd_lpop R (broker_key b d)) s1 = (y, s2)" by fastforce
  have t: "touches ?K (rd_view R s) (rd_view R s1)" "touches ?K (rd_view R s1) (rd_view R s2)"
    using withinD [OF within_connect [OF assms(1)] c]
      withinD [OF within_request [OF assms(1) within_commands(3) [OF assms(1)]] r] by simp_all
  have "s' = s1 \<or> s' = s2"
    using assms(2) c r by (auto simp: redis_consume_def blpop_def split: sum.splits option.splits)
  with t touches_trans show ?thesis by blast
qed

lemma within_read_workers: "redis_ok R \<Longrightarrow> within R {} (read_workers R W keys ids)"
proof (induction keys arbitrary: ids)
  case Nil
  then show ?case by (simp add: within_def)
next
  case (Cons k keys)
  have "within R {} (\<lambda>s. case payload of
        None \<Rightarrow> read_workers R W keys ids s
      | Some b \<Rightarrow> (case decode_registration W b of
           Inl e \<Rightarrow> (Err (''invalid worker registration in Redis: '' @ e), s)
         | Inr r \<Rightarrow> read_workers R W keys (ids @ [wr_worker_id r]) s))" for payload
    using Cons by (cases payload; cases "decode_registration W (the payload)") simp_all
  with Cons.prems show ?case
    by (simp, intro within_try_call within_request within_reads) simp_all
qed

lemma scan_workers_touches:
  fixes R :: "'d redis"
  assumes "redis_ok R" and "scan_workers R W p cur ids s = Some (x, s')"
  shows "touches {} (rd_view R s) (rd_view R s')"
proof -
  let ?P = "\<lambda>(R :: 'd redis) (W :: wire) (p :: string) (cur :: nat) (ids :: string list) s y.
      redis_ok R \<longrightarrow> touches {} (rd_view R s) (rd_view R (snd (y :: (WorkerDirectoryError + string list) \<times> 'd)))"
  have "?P R W p cur ids s (x, s')"
  proof (rule scan_workers.raw_induct [where P = ?P, rotated, OF assms(2)])
    fix f R W p cur ids s y
    assume IH: "\<And>R W p cur ids s y. f R W p cur ids s = Some y \<Longrightarrow> ?P R W p cur ids s y"
      and body: "(case request R (rd_scan R cur p 100) s of
          (Inl e, s) \<Rightarrow> Some (Err (''cannot list workers: '' @ e), s)
        | (Inr (next, keys), s) \<Rightarrow> (case read_workers R W keys ids s of
             (Inl e, s) \<Rightarrow> Some (Err e, s)
           | (Inr ids, s) \<Rightarrow> if next = 0 then Some (Ok (dedup (sort ids)), s) else f R W p next ids s)) = Some y"
    show "?P R W p cur ids s y"
    proof
      assume ok: "redis_ok R"
      obtain z s1 where z: "request R (rd_scan R cur p 100) s = (z, s1)" by fastforce
      note t1 = withinD [OF within_request [OF ok within_reads(2) [OF ok]] z, where K = "{}"]
      show "touches {} (rd_view R s) (rd_view R (snd y))"
      proof (cases z)
        case (Inl e)
        with z body t1 show ?thesis by auto
      next
        case (Inr nk)
        obtain nxt keys where nk: "nk = (nxt, keys)" by fastforce
        obtain v s2 where v: "read_workers R W keys ids s1 = (v, s2)" by fastforce
        note t2 = touches_trans [OF t1 withinD [OF within_read_workers [OF ok] v]]
        show ?thesis
        proof (cases v)
          case (Inl e)
          with z body Inr nk v t2 show ?thesis by auto
        next
          case (Inr ids')
          show ?thesis
          proof (cases "nxt = 0")
            case True
            with z body \<open>z = Inr nk\<close> nk v Inr t2 show ?thesis by auto
          next
            case False
            with z body \<open>z = Inr nk\<close> nk v Inr have "f R W p nxt ids' s2 = Some y" by simp
            from IH [OF this] ok t2 touches_trans show ?thesis by blast
          qed
        qed
      qed
    qed
  qed
  with assms(1) show ?thesis by simp
qed

lemma listing_touches:
  assumes "redis_ok R" and "redis_available_workers R W c clk s = Some (x, s')"
  shows "touches {} (rd_view R s) (rd_view R s')"
proof -
  obtain cr s1 where c: "connect R s = (cr, s1)" by fastforce
  note t = withinD [OF within_connect [OF assms(1)] c, where K = "{}"]
  show ?thesis
  proof (cases cr)
    case (Inl e)
    with c assms(2) t show ?thesis by (auto simp: redis_available_workers_def)
  next
    case (Inr u)
    with c assms(2) have "scan_workers R W (worker_pattern c) 0 [] s1 = Some (x, s')"
      by (simp add: redis_available_workers_def)
    from touches_trans [OF t scan_workers_touches [OF assms(1) this]] show ?thesis .
  qed
qed

section \<open>Frames\<close>

lemma exec_frame:
  assumes "touches K v v'" and "\<And>i. execution_key c i \<notin> K" and "exec_wf W c v"
  shows "exec_wf W c v'" "exec_recs W c v' = exec_recs W c v"
proof -
  have same: "ks_value v' (execution_key c i) = ks_value v (execution_key c i)"
    "ks_deadline v' (execution_key c i) = None" for i
    using touches_persistent [OF assms(1,2)] assms(3) by (simp_all add: exec_wf_def)
  with assms(3) show "exec_wf W c v'" "exec_recs W c v' = exec_recs W c v"
    by (simp_all add: exec_wf_def exec_recs_def fun_eq_iff)
qed

lemma broker_touch:
  assumes "touches K v v'" and "\<And>d. D d \<Longrightarrow> broker_key c d \<notin> K" and "broker_wf W c D v"
  shows "broker_wf W c D v'" "broker_queue W c D v' = broker_queue W c D v"
proof -
  have "D d \<Longrightarrow> ks_value v' (broker_key c d) = ks_value v (broker_key c d)"
    "D d \<Longrightarrow> ks_deadline v' (broker_key c d) = ks_deadline v (broker_key c d)" for d
    using touches_persistent [OF assms(1,2), of d] assms(3) by (simp_all add: broker_wf_def)
  from broker_frame [OF this] assms(3)
  show "broker_wf W c D v'" "broker_queue W c D v' = broker_queue W c D v" by auto
qed

lemma result_touch:
  assumes "touches K v v'" and "\<And>j. result_key c j \<notin> K" and "result_wf c v"
  shows "result_wf c v'" "result_map c v' = result_map c v"
proof -
  have "ks_value v' (result_key c j) = ks_value v (result_key c j)"
    "ks_deadline v' (result_key c j) = None" for j
    using touches_persistent [OF assms(1,2)] assms(3) by (simp_all add: result_wf_def)
  then show "result_wf c v'" "result_map c v' = result_map c v"
    by (simp_all add: result_wf_def result_map_def fun_eq_iff)
qed

lemma registry_touch:
  assumes "touches K v v'" and "finite K" and "\<And>i. worker_key c i \<notin> K" and "registry_wf W c v"
  shows "registry_wf W c v'" "\<exists>E. registry_members W c v' = forget E (registry_members W c v)"
proof -
  have sub: "k \<notin> K \<Longrightarrow> ks_value v' k = None \<or> ks_value v' k = ks_value v k" for k
    using assms(1) unfolding touches_def by metis
  then have "dom (ks_value v') \<subseteq> K \<union> dom (ks_value v)" by force
  then have "finite (dom (ks_value v'))"
    using assms(2,4) finite_subset by (fastforce simp: registry_wf_def)
  moreover have "ks_value v' (worker_key c i) = None
      \<or> (\<exists>h r. ks_value v' (worker_key c i) = Some (RHash h) \<and> worker_hash W r h \<and> wr_worker_id r = i)" for i
    using sub [OF assms(3), of i] assms(4) unfolding registry_wf_def by metis
  ultimately show "registry_wf W c v'" using assms(4) by (simp add: registry_wf_def)
  have "registry_members W c v'
      = forget {i. ks_value v' (worker_key c i) = None} (registry_members W c v)"
  proof
    fix i
    show "registry_members W c v' i
        = forget {i. ks_value v' (worker_key c i) = None} (registry_members W c v) i"
      using sub [OF assms(3), of i] by (auto simp: forget_apply registry_members_def)
  qed
  then show "\<exists>E. registry_members W c v' = forget E (registry_members W c v)" ..
qed

end
