(* ===== verification/Control_Plane_Redis.thy ===== *)
theory Control_Plane_Redis
  imports Control_Plane Redis_Frames
begin

text \<open>
  The control plane over one Redis, with the key prefixes \<^verbatim>\<open>serve\<close> of \<^verbatim>\<open>src/src/api/grpc.rs\<close> gives the
  four components: their keys do not collide for any destination that does not itself start with one of
  the reserved words, so the four contracts hold together and the scheduler's guarantees follow.
\<close>

section \<open>The components of one control plane\<close>

definition plane_broker :: "string \<Rightarrow> RedisBroker" where
  "plane_broker p = \<lparr>rb_key_prefix = p\<rparr>"

definition plane_results :: "string \<Rightarrow> RedisResultBackend" where
  "plane_results p = \<lparr>rrb_key_prefix = p @ '':results''\<rparr>"

definition plane_registry :: "string \<Rightarrow> duration \<Rightarrow> RedisWorkerRegistry" where
  "plane_registry p ttl = \<lparr>rwg_key_prefix = p @ '':workers'', rwg_membership_ttl = ttl\<rparr>"

definition plane_store :: "string \<Rightarrow> RedisExecutionStore" where
  "plane_store p = \<lparr>res_key_prefix = p @ '':executions''\<rparr>"

definition free_destination :: "string \<Rightarrow> bool" where
  "free_destination d \<longleftrightarrow>
     \<not> prefix ''results:'' d \<and> \<not> prefix ''executions:'' d \<and> \<not> prefix ''workers:worker:'' d"

lemma free_destination_append:
  "free_destination d \<Longrightarrow> d \<noteq> ''results:'' @ x" "free_destination d \<Longrightarrow> d \<noteq> ''executions:'' @ x"
  "free_destination d \<Longrightarrow> d \<noteq> ''workers:worker:'' @ x"
  unfolding free_destination_def by (auto simp: prefix_def)

lemma worker_destination_free: "free_destination (worker_destination i)"
  by (simp add: free_destination_def worker_destination_def prefix_def)

lemma plane_keys:
  "broker_key (plane_broker p) d = p @ '':'' @ d"
  "result_key (plane_results p) j = p @ '':'' @ ''results:'' @ j"
  "worker_key (plane_registry p ttl) i = p @ '':'' @ ''workers:worker:'' @ i"
  "execution_key (plane_store p) x = p @ '':'' @ ''executions:'' @ x"
  by (simp_all add: broker_key_def plane_broker_def result_key_def plane_results_def worker_key_def
      plane_registry_def execution_key_def plane_store_def)

text \<open>The keys of the components are pairwise different.\<close>

lemma plane_keys_apart:
  "execution_key (plane_store p) x \<noteq> result_key (plane_results p) j"
  "execution_key (plane_store p) x \<noteq> worker_key (plane_registry p ttl) i"
  "result_key (plane_results p) j \<noteq> worker_key (plane_registry p ttl) i"
  "free_destination d \<Longrightarrow> broker_key (plane_broker p) d \<noteq> execution_key (plane_store p) x"
  "free_destination d \<Longrightarrow> broker_key (plane_broker p) d \<noteq> result_key (plane_results p) j"
  "free_destination d \<Longrightarrow> broker_key (plane_broker p) d \<noteq> worker_key (plane_registry p ttl) i"
proof -
  show "execution_key (plane_store p) x \<noteq> result_key (plane_results p) j"
    "execution_key (plane_store p) x \<noteq> worker_key (plane_registry p ttl) i"
    "result_key (plane_results p) j \<noteq> worker_key (plane_registry p ttl) i"
    unfolding plane_keys by simp_all
  assume "free_destination d"
  from free_destination_append [OF this]
  show "broker_key (plane_broker p) d \<noteq> execution_key (plane_store p) x"
    "broker_key (plane_broker p) d \<noteq> result_key (plane_results p) j"
    "broker_key (plane_broker p) d \<noteq> worker_key (plane_registry p ttl) i"
    unfolding plane_keys by (metis same_append_eq)+
qed

section \<open>The invariant\<close>

definition plane_inv :: "wire \<Rightarrow> string \<Rightarrow> duration \<Rightarrow> keyspace \<Rightarrow> bool" where
  "plane_inv W p ttl v \<longleftrightarrow> broker_wf W (plane_broker p) free_destination v \<and> exec_wf W (plane_store p) v
     \<and> registry_wf W (plane_registry p ttl) v \<and> result_wf (plane_results p) v"

abbreviation plane_queue :: "wire \<Rightarrow> string \<Rightarrow> keyspace \<Rightarrow> string \<Rightarrow> BrokerEnvelope list" where
  "plane_queue W p \<equiv> broker_queue W (plane_broker p) free_destination"

text \<open>What the other components see of an operation on one key.\<close>

lemma plane_others:
  assumes t: "touches {k} v v'" and inv: "plane_inv W p ttl v"
  shows "(\<And>d. free_destination d \<Longrightarrow> k \<noteq> broker_key (plane_broker p) d) \<Longrightarrow>
      broker_wf W (plane_broker p) free_destination v' \<and> plane_queue W p v' = plane_queue W p v"
    and "(\<And>i. k \<noteq> execution_key (plane_store p) i) \<Longrightarrow>
      exec_wf W (plane_store p) v' \<and> exec_recs W (plane_store p) v' = exec_recs W (plane_store p) v"
    and "(\<And>i. k \<noteq> worker_key (plane_registry p ttl) i) \<Longrightarrow> registry_wf W (plane_registry p ttl) v'
      \<and> shrinks (registry_members W (plane_registry p ttl) v) (registry_members W (plane_registry p ttl) v')"
    and "(\<And>j. k \<noteq> result_key (plane_results p) j) \<Longrightarrow>
      result_wf (plane_results p) v' \<and> result_map (plane_results p) v' = result_map (plane_results p) v"
proof -
  from inv have wf: "broker_wf W (plane_broker p) free_destination v" "exec_wf W (plane_store p) v"
      "registry_wf W (plane_registry p ttl) v" "result_wf (plane_results p) v"
    by (simp_all add: plane_inv_def)
  show "broker_wf W (plane_broker p) free_destination v' \<and> plane_queue W p v' = plane_queue W p v"
    if "\<And>d. free_destination d \<Longrightarrow> k \<noteq> broker_key (plane_broker p) d"
    using broker_touch [where D = free_destination, OF t _ wf(1)] that by blast
  show "exec_wf W (plane_store p) v' \<and> exec_recs W (plane_store p) v' = exec_recs W (plane_store p) v"
    if "\<And>i. k \<noteq> execution_key (plane_store p) i"
    using exec_frame [OF t _ wf(2)] that by blast
  show "registry_wf W (plane_registry p ttl) v'
      \<and> shrinks (registry_members W (plane_registry p ttl) v) (registry_members W (plane_registry p ttl) v')"
    if "\<And>i. k \<noteq> worker_key (plane_registry p ttl) i"
    using registry_touch [OF t _ _ wf(3)] that unfolding shrinks_def by blast
  show "result_wf (plane_results p) v' \<and> result_map (plane_results p) v' = result_map (plane_results p) v"
    if "\<And>j. k \<noteq> result_key (plane_results p) j"
    using result_touch [OF t _ wf(4)] that by blast
qed

section \<open>The operations\<close>

context redis_deployment
begin

abbreviation inv_in :: "string \<Rightarrow> duration \<Rightarrow> 'd \<Rightarrow> bool" where
  "inv_in p ttl s \<equiv> plane_inv W p ttl (rd_view R s)"

lemma plane_publish:
  assumes inv: "inv_in p ttl s" and d: "free_destination (be_destination e)"
    and run: "redis_publish R W (plane_broker p) e s = (x, s')"
  shows "inv_in p ttl s' \<and> recs_in (plane_store p) s' = recs_in (plane_store p) s
    \<and> result_map (plane_results p) (rd_view R s') = result_map (plane_results p) (rd_view R s)
    \<and> shrinks (members_in (plane_registry p ttl) s) (members_in (plane_registry p ttl) s')"
proof -
  note t = withinD [OF within_operations(4) [OF redis] run]
  have "bwf_in (plane_broker p) free_destination s'"
    using redis_publish_spec [where D = free_destination, OF _ d run] inv by (simp add: plane_inv_def)
  with plane_others(2-4) [OF t inv] plane_keys_apart(4-6) [OF d] show ?thesis
    by (simp add: plane_inv_def)
qed

lemma plane_consume:
  assumes inv: "inv_in p ttl s" and d: "free_destination d"
    and run: "redis_consume R W (plane_broker p) d s = Some (x, s')"
  shows "inv_in p ttl s' \<and> recs_in (plane_store p) s' = recs_in (plane_store p) s
    \<and> result_map (plane_results p) (rd_view R s') = result_map (plane_results p) (rd_view R s)
    \<and> shrinks (members_in (plane_registry p ttl) s) (members_in (plane_registry p ttl) s')"
proof -
  note t = consume_touches [OF redis run]
  have "bwf_in (plane_broker p) free_destination s'"
    using redis_consume_spec [of "plane_broker p" free_destination s d] inv d run
    by (auto simp: plane_inv_def split: sum.splits)
  with plane_others(2-4) [OF t inv] plane_keys_apart(4-6) [OF d] show ?thesis
    by (simp add: plane_inv_def)
qed

text \<open>An operation on the key of one execution.\<close>

lemma plane_store_op:
  assumes inv: "inv_in p ttl s" and t: "touches {execution_key (plane_store p) i} (rd_view R s) (rd_view R s')"
    and wf: "wf_in (plane_store p) s'"
  shows "inv_in p ttl s' \<and> queue_in (plane_broker p) free_destination s' = queue_in (plane_broker p) free_destination s
    \<and> result_map (plane_results p) (rd_view R s') = result_map (plane_results p) (rd_view R s)
    \<and> shrinks (members_in (plane_registry p ttl) s) (members_in (plane_registry p ttl) s')"
  using plane_others(1,3,4) [OF t inv] plane_keys_apart(1,2,4) wf by (metis plane_inv_def)

lemma plane_create:
  assumes inv: "inv_in p ttl s" and run: "redis_create R W (plane_store p) r s = (x, s')"
  shows "inv_in p ttl s' \<and> queue_in (plane_broker p) free_destination s' = queue_in (plane_broker p) free_destination s
    \<and> result_map (plane_results p) (rd_view R s') = result_map (plane_results p) (rd_view R s)
    \<and> shrinks (members_in (plane_registry p ttl) s) (members_in (plane_registry p ttl) s')"
  using plane_store_op [OF inv withinD [OF within_operations(1) [OF redis] run]]
    redis_create_spec [OF _ run] inv by (simp add: plane_inv_def)

lemma plane_get:
  assumes inv: "inv_in p ttl s" and run: "redis_get R W (plane_store p) i s = (x, s')"
  shows "inv_in p ttl s' \<and> queue_in (plane_broker p) free_destination s' = queue_in (plane_broker p) free_destination s
    \<and> result_map (plane_results p) (rd_view R s') = result_map (plane_results p) (rd_view R s)
    \<and> shrinks (members_in (plane_registry p ttl) s) (members_in (plane_registry p ttl) s')"
  using plane_store_op [OF inv withinD [OF within_operations(2) [OF redis] run]]
    redis_get_spec [OF _ run] inv by (simp add: plane_inv_def)

lemma plane_update:
  assumes inv: "inv_in p ttl s" and run: "redis_update_state R W (plane_store p) t i st s = (x, s')"
  shows "inv_in p ttl s' \<and> queue_in (plane_broker p) free_destination s' = queue_in (plane_broker p) free_destination s
    \<and> result_map (plane_results p) (rd_view R s') = result_map (plane_results p) (rd_view R s)
    \<and> shrinks (members_in (plane_registry p ttl) s) (members_in (plane_registry p ttl) s')"
  using plane_store_op [OF inv withinD [OF within_operations(3) [OF redis] run]]
    redis_update_spec [OF _ run] inv by (simp add: plane_inv_def)

lemma plane_result:
  assumes inv: "inv_in p ttl s" and run: "redis_store_result R W (plane_results p) j jr s = (x, s')"
  shows "inv_in p ttl s' \<and> queue_in (plane_broker p) free_destination s' = queue_in (plane_broker p) free_destination s
    \<and> recs_in (plane_store p) s' = recs_in (plane_store p) s
    \<and> shrinks (members_in (plane_registry p ttl) s) (members_in (plane_registry p ttl) s')"
proof -
  note t = withinD [OF within_operations(5) [OF redis] run]
  have "result_wf (plane_results p) (rd_view R s')"
    using redis_store_result_spec [OF _ run] inv by (simp add: plane_inv_def)
  with plane_others(1-3) [OF t inv] plane_keys_apart(1,3,5) show ?thesis by (metis plane_inv_def)
qed

text \<open>An operation on the key of one worker, or on none.\<close>

lemma plane_registry_op:
  assumes inv: "inv_in p ttl s" and t: "touches {worker_key (plane_registry p ttl) i} (rd_view R s) (rd_view R s')"
    and wf: "rwf_in (plane_registry p ttl) s'"
  shows "inv_in p ttl s' \<and> queue_in (plane_broker p) free_destination s' = queue_in (plane_broker p) free_destination s
    \<and> recs_in (plane_store p) s' = recs_in (plane_store p) s
    \<and> result_map (plane_results p) (rd_view R s') = result_map (plane_results p) (rd_view R s)"
  using plane_others(1,2,4) [OF t inv] plane_keys_apart(2,3,6) wf by (metis plane_inv_def)

lemma plane_register:
  assumes inv: "inv_in p ttl s" and run: "redis_register R W (plane_registry p ttl) clk r s = (x, s')"
  shows "inv_in p ttl s' \<and> queue_in (plane_broker p) free_destination s' = queue_in (plane_broker p) free_destination s
    \<and> recs_in (plane_store p) s' = recs_in (plane_store p) s
    \<and> result_map (plane_results p) (rd_view R s') = result_map (plane_results p) (rd_view R s)"
  using plane_registry_op [OF inv withinD [OF within_operations(6) [OF redis] run]]
    redis_register_spec [OF _ run] inv by (auto simp: plane_inv_def)

lemma plane_heartbeat:
  assumes inv: "inv_in p ttl s" and run: "redis_heartbeat R W (plane_registry p ttl) clk i g s = (x, s')"
  shows "inv_in p ttl s' \<and> queue_in (plane_broker p) free_destination s' = queue_in (plane_broker p) free_destination s
    \<and> recs_in (plane_store p) s' = recs_in (plane_store p) s
    \<and> result_map (plane_results p) (rd_view R s') = result_map (plane_results p) (rd_view R s)"
  using plane_registry_op [OF inv withinD [OF within_operations(7) [OF redis] run]]
    redis_heartbeat_spec [OF _ run] inv by (simp add: plane_inv_def aged_def)

lemma plane_listing:
  assumes inv: "inv_in p ttl s" and run: "redis_available_workers R W (plane_registry p ttl) clk s = Some (x, s')"
  shows "inv_in p ttl s' \<and> queue_in (plane_broker p) free_destination s' = queue_in (plane_broker p) free_destination s
    \<and> recs_in (plane_store p) s' = recs_in (plane_store p) s
    \<and> result_map (plane_results p) (rd_view R s') = result_map (plane_results p) (rd_view R s)"
proof -
  have "touches {worker_key (plane_registry p ttl) []} (rd_view R s) (rd_view R s')"
    using touches_mono [OF listing_touches [OF redis run]] by simp
  moreover have "rwf_in (plane_registry p ttl) s'"
    using redis_listing_spec [of "plane_registry p ttl" s clk] inv run
    by (auto simp: plane_inv_def listed_def aged_def)
  ultimately show ?thesis by (rule plane_registry_op [OF inv])
qed

lemma plane_invD:
  assumes "inv_in p ttl s"
  shows "bwf_in (plane_broker p) free_destination s" "wf_in (plane_store p) s"
    "rwf_in (plane_registry p ttl) s" "result_wf (plane_results p) (rd_view R s)"
  using assms by (simp_all add: plane_inv_def)

end

section \<open>The contracts hold together\<close>

context redis_deployment
begin

lemma plane_brokers:
  "broker (redis_broker R W (plane_broker p)) (\<lambda>s. plane_queue W p (rd_view R s))
    (\<lambda>s. plane_inv W p ttl (rd_view R s)) free_destination"
proof (unfold_locales, goal_cases)
  case (1 w e w')
  then show ?case using brk.publish_ok plane_invD(1) by blast
next
  case (2 w e x w')
  then show ?case using brk.publish_err plane_invD(1) by blast
next
  case (3 w d e w')
  then show ?case using brk.consume_ok plane_invD(1) by blast
next
  case (4 w d x w')
  then show ?case using brk.consume_err plane_invD(1) by blast
next
  case (5 w d)
  then show ?case using brk.consume_waits plane_invD(1) by blast
next
  case (6 w e)
  then show ?case using plane_publish [OF 6(1,2) prod.collapse [symmetric]] by (simp add: redis_broker_def)
next
  case (7 w d r w')
  then show ?case using plane_consume [OF 7(1,2), of r w'] by (simp add: redis_broker_def)
qed

lemma plane_stores:
  "execution_store (redis_execution_store R W (plane_store p))
    (\<lambda>s. exec_recs W (plane_store p) (rd_view R s)) (\<lambda>s. plane_inv W p ttl (rd_view R s)) in_millis to_millis"
proof (unfold_locales, goal_cases)
  case (1 w r w')
  then show ?case using exec.create_ok plane_invD(2) by blast
next
  case (2 w r e w')
  then show ?case using exec.create_err plane_invD(2) by blast
next
  case (3 w i x w')
  then show ?case using exec.get_ok plane_invD(2) by blast
next
  case (4 w i)
  then show ?case using exec.get_recs plane_invD(2) by blast
next
  case (5 w t i st w')
  then show ?case using exec.update_ok plane_invD(2) by blast
next
  case (6 w t i st e w')
  then show ?case using exec.update_err plane_invD(2) by blast
next
  case (7 w r)
  then show ?case using plane_create [OF 7 prod.collapse [symmetric]] by (simp add: redis_execution_store_def)
next
  case (8 w i)
  then show ?case using plane_get [OF 8 prod.collapse [symmetric]] by (simp add: redis_execution_store_def)
next
  case (9 w t i st)
  then show ?case using plane_update [OF 9 prod.collapse [symmetric]] by (simp add: redis_execution_store_def)
qed simp_all

lemma plane_registers:
  "worker_registry (redis_worker_registry R W (plane_registry p ttl))
    (\<lambda>s. registry_members W (plane_registry p ttl) (rd_view R s)) (\<lambda>s. plane_inv W p ttl (rd_view R s))"
proof (unfold_locales, goal_cases)
  case (1 w clk r out w')
  then show ?case using reg.register_ok [OF plane_invD(3)] by blast
next
  case (2 w clk r e w')
  then show ?case using reg.register_err [OF plane_invD(3)] by blast
next
  case (3 w clk i g w')
  then show ?case using reg.heartbeat_ok [OF plane_invD(3)] by blast
next
  case (4 w clk i g he w')
  then show ?case using reg.heartbeat_err [OF plane_invD(3)] by blast
next
  case (5 w clk ids w')
  then show ?case using reg.listing_ok [OF plane_invD(3)] by blast
next
  case (6 w clk e w')
  then show ?case using reg.listing_err [OF plane_invD(3)] by blast
next
  case (7 w clk)
  then show ?case using reg.listing_returns [OF plane_invD(3)] by blast
next
  case (8 w clk r)
  then show ?case using plane_register [OF 8 prod.collapse [symmetric]] by (simp add: redis_worker_registry_def)
next
  case (9 w clk i g)
  then show ?case using plane_heartbeat [OF 9 prod.collapse [symmetric]] by (simp add: redis_worker_registry_def)
next
  case (10 w clk x w')
  then show ?case using plane_listing [OF 10(1), of clk x w'] by (simp add: redis_worker_registry_def)
next
  case (11 w i r)
  then show ?case using reg.members_id [OF plane_invD(3)] by blast
qed

lemma plane_keeps_results:
  "result_backend (redis_result_backend R W (plane_results p)) (\<lambda>s. result_map (plane_results p) (rd_view R s))
    (\<lambda>s. plane_inv W p ttl (rd_view R s)) (encode_result W)"
proof (unfold_locales, goal_cases)
  case (1 w j r w')
  then show ?case using rbe.store_ok [OF plane_invD(4)] by blast
next
  case (2 w j r e w')
  then show ?case using rbe.store_err [OF plane_invD(4)] by blast
next
  case (3 w j r)
  then show ?case using plane_result [OF 3 prod.collapse [symmetric]] by (simp add: redis_result_backend_def)
qed

lemma plane_frames:
  "control_plane_axioms (redis_broker R W (plane_broker p)) (\<lambda>s. plane_queue W p (rd_view R s))
    (\<lambda>s. plane_inv W p ttl (rd_view R s)) free_destination
    (redis_execution_store R W (plane_store p)) (\<lambda>s. exec_recs W (plane_store p) (rd_view R s))
    (redis_worker_registry R W (plane_registry p ttl))
    (\<lambda>s. registry_members W (plane_registry p ttl) (rd_view R s))
    (redis_result_backend R W (plane_results p)) (\<lambda>s. result_map (plane_results p) (rd_view R s))"
proof (unfold_locales, goal_cases)
  case (1 i)
  show ?case by (rule worker_destination_free)
next
  case (2 w e x w')
  then show ?case using plane_publish [of p ttl w e x w'] by (simp add: redis_broker_def)
next
  case (3 w d x w')
  then show ?case using plane_consume [of p ttl w d x w'] by (simp add: redis_broker_def)
next
  case (4 w r x w')
  then show ?case using plane_create [of p ttl w r x w'] by (simp add: redis_execution_store_def)
next
  case (5 w i x w')
  then show ?case using plane_get [of p ttl w i x w'] by (simp add: redis_execution_store_def)
next
  case (6 w t i st x w')
  then show ?case using plane_update [of p ttl w t i st x w'] by (simp add: redis_execution_store_def)
next
  case (7 w j jr x w')
  then show ?case using plane_result [of p ttl w j jr x w'] by (simp add: redis_result_backend_def)
next
  case (8 w clk wr x w')
  then show ?case using plane_register [of p ttl w clk wr x w'] by (simp add: redis_worker_registry_def)
next
  case (9 w clk i g x w')
  then show ?case using plane_heartbeat [of p ttl w clk i g x w'] by (simp add: redis_worker_registry_def)
next
  case (10 w clk x w')
  then show ?case using plane_listing [of p ttl w clk x w'] by (simp add: redis_worker_registry_def)
qed

end

sublocale redis_deployment \<subseteq> plane: control_plane
    "redis_broker R W (plane_broker p)" "\<lambda>s. plane_queue W p (rd_view R s)" "\<lambda>s. plane_inv W p ttl (rd_view R s)"
    free_destination
    "redis_execution_store R W (plane_store p)" "\<lambda>s. exec_recs W (plane_store p) (rd_view R s)" in_millis to_millis
    "redis_worker_registry R W (plane_registry p ttl)"
    "\<lambda>s. registry_members W (plane_registry p ttl) (rd_view R s)"
    "redis_result_backend R W (plane_results p)" "\<lambda>s. result_map (plane_results p) (rd_view R s)"
    "encode_result W"
  for p ttl
  by intro_locales (rule plane_brokers plane_stores plane_registers plane_keeps_results plane_frames)+

section \<open>The services over a reliable connection\<close>

sublocale reliable_deployment \<subseteq> rplane: reliable_control_plane
    "redis_broker R W (plane_broker p)" "\<lambda>s. plane_queue W p (rd_view R s)" "\<lambda>s. plane_inv W p ttl (rd_view R s)"
    free_destination
    "redis_execution_store R W (plane_store p)" "\<lambda>s. exec_recs W (plane_store p) (rd_view R s)" in_millis to_millis
    "redis_worker_registry R W (plane_registry p ttl)"
    "\<lambda>s. registry_members W (plane_registry p ttl) (rd_view R s)"
    "redis_result_backend R W (plane_results p)" "\<lambda>s. result_map (plane_results p) (rd_view R s)"
    "encode_result W"
  for p ttl
proof (unfold_locales, goal_cases)
  case (1 w e)
  then show ?case using reliable_publish [where D = free_destination] plane_invD(1) [of p ttl w]
    by (simp add: redis_broker_def)
next
  case (2 w d xc w')
  then show ?case using reliable_consume [where D = free_destination, OF plane_invD(1) [OF 2(1)] 2(2)]
    by (cases xc) (auto simp: redis_broker_def)
next
  case (3 w r)
  then show ?case using reliable_create [OF plane_invD(2)] by (simp add: redis_execution_store_def)
next
  case (4 w i t st)
  then show ?case using reliable_update [OF plane_invD(2)] by (simp add: redis_execution_store_def)
next
  case (5 w i)
  then show ?case using reliable_get [OF plane_invD(2)] by (simp add: redis_execution_store_def)
next
  case (6 w j jr)
  show ?case using reliable_store_result by (simp add: redis_result_backend_def)
next
  case (7 w clk xl w')
  then show ?case using reliable_listing [OF plane_invD(3) [OF 7(1)], of clk] by (auto simp: redis_worker_registry_def)
qed

end
