(* ===== verification/Scheduling.thy ===== *)
theory Scheduling
  imports Control_Plane_Redis Worker_Leases
begin

text \<open>
  The scheduler over Redis: what a scheduling step does to the task queue, the execution store and the
  worker queues, that a waiting task is assigned as soon as a worker is listed, that nothing is consumed
  while none is, and that a task it cannot decode ends it.
\<close>

section \<open>The scheduler of a control plane\<close>

definition redis_scheduler :: "'d redis \<Rightarrow> wire \<Rightarrow> string \<Rightarrow> duration \<Rightarrow> string \<Rightarrow> 'd Scheduler" where
  "redis_scheduler R W p ttl d =
     scheduler_new (redis_broker R W (plane_broker p)) d
       (WorkerDirectory.truncate (redis_worker_registry R W (plane_registry p ttl)))
       (redis_execution_store R W (plane_store p))"

text \<open>A destination for tasks: it collides with no other key and is no worker's destination.\<close>

definition task_destination :: "string \<Rightarrow> bool" where
  "task_destination d \<longleftrightarrow> free_destination d \<and> (\<forall>i. d \<noteq> worker_destination i)"

definition job_of :: "fresh \<Rightarrow> BrokerEnvelope \<Rightarrow> string" where
  "job_of fr submitted = (case be_correlation_id submitted of Some i \<Rightarrow> i | None \<Rightarrow> fr_job_id fr)"

text \<open>Every assignment that waits for a worker has its execution record, made out to that worker.\<close>

definition assignments_recorded :: "wire \<Rightarrow> string \<Rightarrow> keyspace \<Rightarrow> bool" where
  "assignments_recorded W p v \<longleftrightarrow> (\<forall>i e a. e \<in> set (plane_queue W p v (worker_destination i)) \<longrightarrow>
     decode_assign W (be_payload e) = Ok a \<longrightarrow>
     (\<exists>r. exec_recs W (plane_store p) v (aer_execution_id a) = Some r \<and> xr_worker_id r = i
        \<and> xr_assignment_id r = aer_assignment_id a \<and> xr_job_id r = aer_job_id a))"

context redis_deployment
begin

lemma recorded_iff: "plane.dispatched_recorded p W s = assignments_recorded W p (rd_view R s)"
  by (simp add: plane.dispatched_recorded_def plane.recorded_for_def assignments_recorded_def)

lemma task_queue_iff: "plane.task_queue d = task_destination d"
  by (simp add: plane.task_queue_def task_destination_def)

lemmas redis_assigned = plane.assigned_step
  [folded redis_scheduler_def job_of_def, unfolded task_queue_iff]

lemmas redis_deferred = plane.deferred_step [folded redis_scheduler_def]

end

context reliable_deployment
begin

lemmas redis_progress = rplane.schedule_progress [folded redis_scheduler_def,
  unfolded redis_worker_registry_def WorkerDirectory.select_convs, folded redis_worker_registry_def]

lemmas redis_undecodable = rplane.undecodable_stops [folded redis_scheduler_def,
  unfolded redis_worker_registry_def WorkerDirectory.select_convs, folded redis_worker_registry_def]

end

section \<open>Samples\<close>

definition sample_task :: SubmitTaskRequest where
  "sample_task = \<lparr>str_application_namespace = ''shop'', str_task_name = ''bill'', str_arguments = ''[]'',
     str_serialization_format = ''json'', str_resources = None, str_metadata = None, str_task = None,
     str_parent_execution_id = None\<rparr>"

definition sample_submitted :: BrokerEnvelope where
  "sample_submitted = sample_envelope ''m1'' ''tasks'' \<lparr>be_payload := encode_submit unary_wire sample_task\<rparr>"

definition sample_fresh :: fresh where
  "sample_fresh = \<lparr>fr_job_id = ''j9'', fr_assignment_id = ''a1'', fr_execution_id = ''x1'', fr_message_id = ''m9'',
     fr_clock = sample_clock, fr_now = 5, fr_created_at = 5\<rparr>"

text \<open>A worker is registered, and an envelope waits.\<close>

abbreviation waiting_with :: "BrokerEnvelope \<Rightarrow> reference_state" where
  "waiting_with e \<equiv> snd (redis_publish calm_redis unary_wire (plane_broker ''tw'') e sample_registered)"

abbreviation sample_waiting :: reference_state where
  "sample_waiting \<equiv> waiting_with sample_submitted"

definition sample_ttl :: duration where
  "sample_ttl = 30 * 10 ^ 9"

lemma plane_registry_sample: "plane_registry ''tw'' sample_ttl = sample_registry"
  by (simp add: plane_registry_def sample_registry_def sample_ttl_def)

lemma plane_empty: "0 < ttl_millis (plane_registry p ttl) \<Longrightarrow> plane_inv W p ttl empty_keyspace"
  by (simp add: plane_inv_def broker_empty exec_wf_empty registry_wf_def result_wf_def) (simp add: empty_keyspace_def)

lemma view_calm: "rd_view calm_redis s = ref_view s"
  by (simp add: calm_redis_fields reference_redis_def)

lemma free_tasks: "free_destination ''tasks''" "task_destination ''tasks''"
  by (simp_all add: free_destination_def task_destination_def worker_destination_def)

lemma sample_plane_inv: "plane_inv unary_wire ''tw'' sample_ttl (rd_view calm_redis sample_calm)"
  "plane_queue unary_wire ''tw'' (rd_view calm_redis sample_calm) d = []"
  "exec_recs unary_wire (plane_store ''tw'') (rd_view calm_redis sample_calm) i = None"
proof -
  have "0 < ttl_millis (plane_registry ''tw'' sample_ttl)"
    by (simp add: plane_registry_sample) (simp add: sample_registry_def ttl_millis_def)
  then show "plane_inv unary_wire ''tw'' sample_ttl (rd_view calm_redis sample_calm)"
    "plane_queue unary_wire ''tw'' (rd_view calm_redis sample_calm) d = []"
    "exec_recs unary_wire (plane_store ''tw'') (rd_view calm_redis sample_calm) i = None"
    by (simp_all add: view_calm sample_calm_def plane_empty broker_empty unary_wire_ok)
      (simp add: exec_recs_def empty_keyspace_def)
qed

lemma sample_registered_inv: "plane_inv unary_wire ''tw'' sample_ttl (rd_view calm_redis sample_registered)"
  "plane_queue unary_wire ''tw'' (rd_view calm_redis sample_registered) d = []"
  "exec_recs unary_wire (plane_store ''tw'') (rd_view calm_redis sample_registered) i = None"
  using calm.plane_register [OF sample_plane_inv(1) sample_register_ok [folded plane_registry_sample]]
    sample_plane_inv(2,3) unfolding plane_registry_sample by simp_all

lemma waiting_ok:
  assumes "be_destination e = ''tasks''"
  shows "redis_publish calm_redis unary_wire (plane_broker ''tw'') e sample_registered = (Ok (), waiting_with e)"
  using calm.reliable_publish [OF calm.plane_invD(1) [OF sample_registered_inv(1)], of e] free_tasks assms
  by (cases "redis_publish calm_redis unary_wire (plane_broker ''tw'') e sample_registered";
      cases "fst (redis_publish calm_redis unary_wire (plane_broker ''tw'') e sample_registered)") auto

lemma waiting_inv:
  assumes "be_destination e = ''tasks''"
  shows "plane_inv unary_wire ''tw'' sample_ttl (rd_view calm_redis (waiting_with e))"
    "plane_queue unary_wire ''tw'' (rd_view calm_redis (waiting_with e)) ''tasks'' = [e]"
    "exec_recs unary_wire (plane_store ''tw'') (rd_view calm_redis (waiting_with e)) i = None"
proof -
  note p = calm.plane_publish [OF sample_registered_inv(1) _ waiting_ok [OF assms], unfolded assms, OF free_tasks(1)]
  from p sample_registered_inv(3) show
    "plane_inv unary_wire ''tw'' sample_ttl (rd_view calm_redis (waiting_with e))"
    "exec_recs unary_wire (plane_store ''tw'') (rd_view calm_redis (waiting_with e)) i = None" by simp_all
  have "broker_publish (redis_broker calm_redis unary_wire (plane_broker ''tw'')) e sample_registered
      = (Ok (), waiting_with e)" using waiting_ok [OF assms] by (simp add: redis_broker_def)
  from calm.brk.publish_ok [OF calm.plane_invD(1) [OF sample_registered_inv(1)] _ this, unfolded assms, OF free_tasks(1)]
  show "plane_queue unary_wire ''tw'' (rd_view calm_redis (waiting_with e)) ''tasks'' = [e]"
    using sample_registered_inv(2) by simp
qed

lemma waiting_elsewhere:
  assumes "be_destination e = ''tasks''" and "k \<noteq> ''tasks''"
  shows "plane_queue unary_wire ''tw'' (rd_view calm_redis (waiting_with e)) k = []"
proof -
  have "broker_publish (redis_broker calm_redis unary_wire (plane_broker ''tw'')) e sample_registered
      = (Ok (), waiting_with e)" using waiting_ok [OF assms(1)] by (simp add: redis_broker_def)
  from calm.brk.publish_ok [OF calm.plane_invD(1) [OF sample_registered_inv(1)] _ this, unfolded assms(1), OF free_tasks(1)]
  show ?thesis using sample_registered_inv(2) assms(2) by simp
qed

lemma sample_worker_key: "worker_key sample_registry i = ''tw:workers:worker:'' @ i"
  by (simp add: worker_key_def sample_registry_def)

lemma calm_publish_new:
  assumes "later (ks_clock (ref_view s)) (ref_view s) = ref_view s"
    and "ks_value (ref_view s) (broker_key c (be_destination e)) = None"
  shows "ref_view (snd (redis_publish calm_redis W c e s))
    = rpush_effect (broker_key c (be_destination e)) (encode_envelope W e) (ref_view s)"
  using assms
  by (simp add: redis_publish_def connect_def request_def calm_redis_def reference_redis_def on_list_def put_view_def)

lemma waiting_view:
  assumes "be_destination e = ''tasks''"
  shows "ks_value (ref_view (waiting_with e)) = (ks_value (ref_view sample_registered))(''tw:tasks'' \<mapsto>
      RList [encode_envelope unary_wire e])"
    "ks_deadline (ref_view (waiting_with e)) = ks_deadline (ref_view sample_registered)"
    "ks_clock (ref_view (waiting_with e)) = ks_clock (ref_view sample_registered)"
proof -
  let ?v = "ref_view sample_registered"
  have same: "later (ks_clock ?v) ?v = ?v"
    by (intro keyspace.equality) (auto simp: later_def Let_def sample_registered_view fun_eq_iff)
  have key: "broker_key (plane_broker ''tw'') (be_destination e) = ''tw:tasks''"
    by (simp add: broker_key_def plane_broker_def assms)
  have "ks_value ?v ''tw:tasks'' = None" by (simp add: sample_registered_view sample_worker_key)
  then have "ref_view (waiting_with e) = rpush_effect ''tw:tasks'' (encode_envelope unary_wire e) ?v"
    using calm_publish_new [OF same, of "plane_broker ''tw''" e unary_wire] by (simp add: key)
  with \<open>ks_value ?v ''tw:tasks'' = None\<close> show
    "ks_value (ref_view (waiting_with e)) = (ks_value ?v)(''tw:tasks'' \<mapsto> RList [encode_envelope unary_wire e])"
    "ks_deadline (ref_view (waiting_with e)) = ks_deadline ?v" "ks_clock (ref_view (waiting_with e)) = ks_clock ?v"
    by (simp_all add: rpush_effect_def)
qed

lemma waiting_listing:
  assumes "be_destination e = ''tasks''"
  shows "redis_available_workers calm_redis unary_wire sample_registry sample_clock (waiting_with e)
    = Some (Ok [''w1''], waiting_with e)"
  by (rule calm_listing) (auto simp: waiting_view [OF assms] sample_registered_view sample_worker_key
      split: if_splits)

lemma sample_destination: "be_destination sample_submitted = ''tasks''"
  by (simp add: sample_submitted_def sample_envelope_def)

lemmas sample_waiting_inv = waiting_inv [OF sample_destination]

lemmas sample_waiting_listing = waiting_listing [OF sample_destination]

lemma sample_decodes: "decode_submit unary_wire (be_payload sample_submitted) = Ok sample_task"
  by (simp add: sample_submitted_def wire_okD [OF unary_wire_ok])

lemma sample_assigned:
  "\<exists>a s'. schedule_one unary_wire (redis_scheduler calm_redis unary_wire ''tw'' sample_ttl ''tasks'')
     sample_fresh sample_waiting = Some (Ok (AssignedDecision ''w1'' a), s')"
  using calm.redis_progress [OF sample_waiting_inv(1) free_tasks(1) sample_waiting_inv(2) sample_decodes
      sample_waiting_inv(3) [of "fr_execution_id sample_fresh"]] sample_waiting_listing
  by (auto simp: plane_registry_sample sample_fresh_def split: list.splits)

section \<open>Progress\<close>

text \<open>Over a reliable connection a scheduling step always returns when a decodable task waits: it
  assigns the task to the first worker of its listing, or defers because the listing is empty and no
  worker is a member any more.\<close>

lemma scheduler_progress:
  assumes "redis_ok R" and "wire_ok W" and "reliable R" and "plane_inv W p ttl (rd_view R s)"
    and "free_destination d" and "plane_queue W p (rd_view R s) d = submitted # rest"
    and "decode_submit W (be_payload submitted) = Ok req"
    and "exec_recs W (plane_store p) (rd_view R s) (fr_execution_id fr) = None"
  shows "\<exists>ids s1 dec s'. redis_available_workers R W (plane_registry p ttl) (fr_clock fr) s = Some (Ok ids, s1)
    \<and> schedule_one W (redis_scheduler R W p ttl d) fr s = Some (Ok dec, s')
    \<and> (case ids of
         [] \<Rightarrow> dec = Deferred NoWorkerAvailable
           \<and> registry_members W (plane_registry p ttl) (rd_view R s') = Map.empty
       | i # _ \<Rightarrow> (\<exists>a. dec = AssignedDecision i a))"
proof -
  have "reliable_deployment R W"
    by (intro reliable_deployment.intro redis_deployment.intro reliable_deployment_axioms.intro assms(1-3))
  from reliable_deployment.redis_progress [OF this assms(4-8)] show ?thesis .
qed

lemma scheduler_progress_example:
  "\<exists>a s'. schedule_one unary_wire (redis_scheduler calm_redis unary_wire ''tw'' sample_ttl ''tasks'')
     sample_fresh sample_waiting = Some (Ok (AssignedDecision ''w1'' a), s')"
proof -
  from scheduler_progress [OF calm_redis_ok unary_wire_ok calm_redis_reliable sample_waiting_inv(1)
      free_tasks(1) sample_waiting_inv(2) sample_decodes sample_waiting_inv(3) [of "fr_execution_id sample_fresh"]]
  show ?thesis using sample_waiting_listing
    by (auto simp: plane_registry_sample sample_fresh_def split: list.splits)
qed

section \<open>What a step does\<close>

text \<open>C12. A step that assigns has taken the first task that waited, created its execution record in the
  state Assigned under an unused execution id, and appended one envelope with the assignment to the
  queue of a worker; the worker was a member, and no member of a smaller id is left; every other queue,
  record and result is untouched.\<close>

theorem scheduler_assigns:
  assumes "redis_ok R" and "wire_ok W" and "plane_inv W p ttl (rd_view R s)" and "task_destination d"
    and "schedule_one W (redis_scheduler R W p ttl d) fr s = Some (Ok (AssignedDecision i a), s')"
  shows "\<exists>submitted req rest. plane_queue W p (rd_view R s) d = submitted # rest
    \<and> decode_submit W (be_payload submitted) = Ok req \<and> a = build_assignment fr (job_of fr submitted) req
    \<and> registry_members W (plane_registry p ttl) (rd_view R s) i \<noteq> None
    \<and> (\<forall>j. registry_members W (plane_registry p ttl) (rd_view R s') j \<noteq> None \<longrightarrow> i \<le> j)
    \<and> exec_recs W (plane_store p) (rd_view R s) (aer_execution_id a) = None
    \<and> exec_recs W (plane_store p) (rd_view R s')
      = (exec_recs W (plane_store p) (rd_view R s))(aer_execution_id a \<mapsto> in_millis (build_execution fr i a))
    \<and> plane_queue W p (rd_view R s') = (plane_queue W p (rd_view R s))(d := rest, worker_destination i :=
        plane_queue W p (rd_view R s) (worker_destination i) @ [build_envelope W fr i submitted a])
    \<and> result_map (plane_results p) (rd_view R s') = result_map (plane_results p) (rd_view R s)"
  by (rule redis_deployment.redis_assigned [OF redis_deployment.intro [OF assms(1,2)] assms(3-5)])

theorem scheduler_assigns_witness:
  "\<exists>a s'. schedule_one unary_wire (redis_scheduler calm_redis unary_wire ''tw'' sample_ttl ''tasks'')
      sample_fresh sample_waiting = Some (Ok (AssignedDecision ''w1'' a), s')
    \<and> aer_job_id a = ''j1'' \<and> plane_queue unary_wire ''tw'' (rd_view calm_redis s') ''tasks'' = []
    \<and> exec_recs unary_wire (plane_store ''tw'') (rd_view calm_redis s') ''x1''
      = Some (in_millis (build_execution sample_fresh ''w1'' a))"
proof -
  obtain a s' where run: "schedule_one unary_wire (redis_scheduler calm_redis unary_wire ''tw'' sample_ttl ''tasks'')
      sample_fresh sample_waiting = Some (Ok (AssignedDecision ''w1'' a), s')" using sample_assigned by blast
  have "job_of sample_fresh sample_submitted = ''j1''"
    by (simp add: job_of_def sample_submitted_def sample_envelope_def)
  with scheduler_assigns [OF calm_redis_ok unary_wire_ok sample_waiting_inv(1) free_tasks(2) run]
    sample_waiting_inv(2) run show ?thesis
    by (auto simp: build_assignment_def sample_fresh_def worker_destination_def)
qed

text \<open>A step that defers consumes nothing: every queue, execution record and result is as before,
  and no worker is a member any more.\<close>

lemma scheduler_defers_without_consuming:
  assumes "redis_ok R" and "wire_ok W" and "plane_inv W p ttl (rd_view R s)" and "free_destination d"
    and "schedule_one W (redis_scheduler R W p ttl d) fr s = Some (Ok (Deferred reason), s')"
  shows "plane_queue W p (rd_view R s') = plane_queue W p (rd_view R s)
    \<and> exec_recs W (plane_store p) (rd_view R s') = exec_recs W (plane_store p) (rd_view R s)
    \<and> result_map (plane_results p) (rd_view R s') = result_map (plane_results p) (rd_view R s)
    \<and> registry_members W (plane_registry p ttl) (rd_view R s') = Map.empty"
  by (rule redis_deployment.redis_deferred [OF redis_deployment.intro [OF assms(1,2)] assms(3-5)])

section \<open>Undecodable tasks\<close>

text \<open>C34. A task whose payload does not decode ends the scheduler: over a reliable connection, with a
  worker listed, the step has taken the task from the queue, leaves neither a record nor an assignment
  for it, and \<open>run\<close> stops with the error, whatever tasks still wait.\<close>

theorem undecodable_task_stops_scheduler:
  assumes "redis_ok R" and "wire_ok W" and "reliable R" and "plane_inv W p ttl (rd_view R s)"
    and "free_destination d" and "plane_queue W p (rd_view R s) d = submitted # rest"
    and "decode_submit W (be_payload submitted) = Err e"
    and "redis_available_workers R W (plane_registry p ttl) (fr_clock fr) s = Some (Ok (i # ids), s1)"
  shows "\<exists>s'. scheduler_run W (redis_scheduler R W p ttl d) ((fr, \<lambda>s. s) # steps) s
      = (Stopped (''invalid SubmitTaskRequest: '' @ e), [], s')
    \<and> plane_queue W p (rd_view R s') = (plane_queue W p (rd_view R s))(d := rest)
    \<and> exec_recs W (plane_store p) (rd_view R s') = exec_recs W (plane_store p) (rd_view R s)"
proof -
  have "reliable_deployment R W"
    by (intro reliable_deployment.intro redis_deployment.intro reliable_deployment_axioms.intro assms(1-3))
  from reliable_deployment.redis_undecodable [OF this assms(4-8)] show ?thesis .
qed

theorem undecodable_task_stops_scheduler_witness:
  "\<exists>s'. scheduler_run unary_wire (redis_scheduler calm_redis unary_wire ''tw'' sample_ttl ''tasks'')
      [(sample_fresh, \<lambda>s. s), (sample_fresh, \<lambda>s. s)] (waiting_with (sample_envelope ''m1'' ''tasks''))
    = (Stopped ''invalid SubmitTaskRequest: empty message'', [], s')
    \<and> plane_queue unary_wire ''tw'' (rd_view calm_redis s') ''tasks'' = []"
proof -
  let ?e = "sample_envelope ''m1'' ''tasks''"
  have d: "be_destination ?e = ''tasks''" by (simp add: sample_envelope_def)
  have bad: "decode_submit unary_wire (be_payload ?e) = Err ''empty message''"
    by (simp add: sample_envelope_def unary_wire_def)
  have "fr_clock sample_fresh = sample_clock" by (simp add: sample_fresh_def)
  with waiting_listing [OF d] have l: "redis_available_workers calm_redis unary_wire (plane_registry ''tw'' sample_ttl)
      (fr_clock sample_fresh) (waiting_with ?e) = Some (Ok (''w1'' # []), waiting_with ?e)"
    by (simp add: plane_registry_sample)
  from undecodable_task_stops_scheduler [OF calm_redis_ok unary_wire_ok calm_redis_reliable
      waiting_inv(1) [OF d] free_tasks(1) waiting_inv(2) [OF d] bad l, of "[(sample_fresh, \<lambda>s. s)]"]
  show ?thesis by auto
qed

end
