(* ===== verification/Api.thy ===== *)
theory Api
  imports Scheduler Result_Backend Execution_Store Config
begin

text \<open>
  \<^verbatim>\<open>src/src/api/grpc.rs\<close>: the control plane's service. Its jobs live in memory behind one lock; the
  broker, the result backend, the worker registry and the execution store are the trait objects the code
  holds, acting on the world they share. A handler is interrupted where it awaits: what the rest of the
  system does while a call is awaited, before and after the call takes effect, is an argument.
\<close>

section \<open>State\<close>

record JobRecord =
  jrec_job :: Job
  jrec_result :: "JobResult option"

record 'w CoreExecutionService =
  ces_broker :: "'w Broker"
  ces_result_backend :: "'w BackendResult"
  ces_task_destination :: string
  ces_worker_registry :: "'w WorkerRegistry"
  ces_execution_store :: "'w ExecutionStore"

text \<open>The jobs, whether their lock is poisoned, and the world of the services.\<close>

record 'w core =
  core_jobs :: "string \<rightharpoonup> JobRecord"
  core_poisoned :: bool
  core_world :: 'w

definition with_stores ::
  "'w Broker \<Rightarrow> 'w BackendResult \<Rightarrow> string \<Rightarrow> 'w WorkerRegistry \<Rightarrow> 'w ExecutionStore \<Rightarrow> 'w CoreExecutionService" where
  "with_stores b results task_destination registry store =
     \<lparr>ces_broker = b, ces_result_backend = results, ces_task_destination = task_destination,
      ces_worker_registry = registry, ces_execution_store = store\<rparr>"

text \<open>The state \<open>with_stores\<close> starts from.\<close>

definition core_start :: "'w \<Rightarrow> 'w core" where
  "core_start w = \<lparr>core_jobs = Map.empty, core_poisoned = False, core_world = w\<rparr>"

section \<open>Awaiting a call\<close>

type_synonym 'c others = "('c \<Rightarrow> 'c) \<times> ('c \<Rightarrow> 'c)"

definition alone :: "'c others" where
  "alone = (\<lambda>c. c, \<lambda>c. c)"

definition awaiting :: "'w core others \<Rightarrow> ('w \<Rightarrow> 'x \<times> 'w) \<Rightarrow> 'w core \<Rightarrow> 'x \<times> 'w core" where
  "awaiting oth call c =
     (let c1 = fst oth c in
      case call (core_world c1) of (x, w) \<Rightarrow> (x, snd oth (c1\<lparr>core_world := w\<rparr>)))"

section \<open>The jobs\<close>

definition put_job :: "string \<Rightarrow> JobRecord \<Rightarrow> 'w core \<Rightarrow> 'w core" where
  "put_job i r c = c\<lparr>core_jobs := (core_jobs c)(i \<mapsto> r)\<rparr>"

definition running_record :: "Timestamp \<Rightarrow> JobRecord \<Rightarrow> JobRecord" where
  "running_record now r =
     r\<lparr>jrec_job := (jrec_job r)\<lparr>job_state := JobRunning, job_attempt_number := 1, job_updated_at := Some now\<rparr>\<rparr>"

definition finished_record :: "Timestamp \<Rightarrow> JobResult \<Rightarrow> JobRecord \<Rightarrow> JobRecord" where
  "finished_record now result r =
     r\<lparr>jrec_job := (jrec_job r)
         \<lparr>job_state := (if jr_failure result \<noteq> None then JobFailed else JobSucceeded),
          job_attempt_number := max (job_attempt_number (jrec_job r)) 1,
          job_updated_at := Some now\<rparr>,
       jrec_result := Some result\<rparr>"

definition mark_job_running :: "Timestamp \<Rightarrow> string \<Rightarrow> 'w core \<Rightarrow> (Status + unit) \<times> 'w core" where
  "mark_job_running now job_id c =
     (if core_poisoned c then (Err (Status Internal ''job store lock is poisoned''), c)
      else
        (case core_jobs c job_id of
           None \<Rightarrow> (Err (Status NotFound ''job not found''), c)
         | Some r \<Rightarrow>
             (Ok (), put_job job_id (running_record now r) c)))"

definition store_job_result :: "Timestamp \<Rightarrow> string \<Rightarrow> JobResult \<Rightarrow> 'w core \<Rightarrow> (Status + unit) \<times> 'w core" where
  "store_job_result now job_id result c =
     (if core_poisoned c then (Err (Status Internal ''job store lock is poisoned''), c)
      else
        (case core_jobs c job_id of
           None \<Rightarrow> (Err (Status NotFound ''job not found''), c)
         | Some r \<Rightarrow>
             (Ok (), put_job job_id (finished_record now result r) c)))"

section \<open>Submitting a task\<close>

text \<open>The identifiers a submission draws and its reading of the clock.\<close>

record submission =
  sub_job_id :: string
  sub_message_id :: string
  sub_now :: Timestamp

definition accepted_job :: "submission \<Rightarrow> SubmitTaskRequest \<Rightarrow> Job" where
  "accepted_job sub req =
     \<lparr>job_job_id = sub_job_id sub, job_application_namespace = str_application_namespace req,
      job_task_name = str_task_name req, job_state = JobAccepted, job_created_at = Some (sub_now sub),
      job_updated_at = Some (sub_now sub), job_attempt_number = 0, job_metadata = str_metadata req,
      job_task = str_task req, job_parent_execution_id = str_parent_execution_id req,
      job_root_execution_id = None\<rparr>"

definition task_envelope :: "wire \<Rightarrow> 'w CoreExecutionService \<Rightarrow> submission \<Rightarrow> SubmitTaskRequest \<Rightarrow> BrokerEnvelope" where
  "task_envelope W svc sub req =
     \<lparr>be_message_id = sub_message_id sub,
      be_message_kind = ''threadweave_protocols.execution.v1.SubmitTaskRequest'',
      be_schema_version = ''v1'', be_source = ''threadweave-api'',
      be_destination = ces_task_destination svc, be_created_at = Some (sub_now sub), be_expires_at = None,
      be_payload = encode_submit W req, be_content_type = Some ''application/protobuf'',
      be_correlation_id = Some (sub_job_id sub), be_causation_id = str_parent_execution_id req,
      be_trace_context = None, be_routing_headers = None\<rparr>"

definition accepted_command :: CommandResult where
  "accepted_command = \<lparr>cr_status = CommandAccepted, cr_error = None\<rparr>"

definition accepted_result :: "wire \<Rightarrow> JobResult" where
  "accepted_result W = JobResult_default\<lparr>jr_payload := encode_command W accepted_command,
     jr_serialization_format := ''application/protobuf''\<rparr>"

definition accept ::
  "wire \<Rightarrow> 'w CoreExecutionService \<Rightarrow> 'w core others \<Rightarrow> 'w core others \<Rightarrow> submission \<Rightarrow> SubmitTaskRequest \<Rightarrow> 'w core
   \<Rightarrow> (Status + SubmitTaskResponse) \<times> 'w core" where
  "accept W svc o1 o2 sub req c =
     (if core_poisoned c then (Err (Status Internal ''job store lock is poisoned''), c)
      else
        let c = put_job (sub_job_id sub) \<lparr>jrec_job = accepted_job sub req, jrec_result = None\<rparr> c in
        case awaiting o1 (broker_publish (ces_broker svc) (task_envelope W svc sub req)) c of
          (Err _, c) \<Rightarrow>
            (Err (Status Unavailable ''task broker is unavailable''),
             c\<lparr>core_jobs := (core_jobs c)(sub_job_id sub := None)\<rparr>)
        | (Ok _, c) \<Rightarrow>
            try_call (\<lambda>_. Status Unavailable ''result backend is unavailable'')
              (awaiting o2 (store_result (ces_result_backend svc) (sub_job_id sub) (accepted_result W)) c)
              (\<lambda>_ c. (Ok \<lparr>stres_job = Some (accepted_job sub req), stres_result = Some accepted_command\<rparr>, c)))"

definition submit_task ::
  "wire \<Rightarrow> 'w CoreExecutionService \<Rightarrow> 'w core others \<Rightarrow> 'w core others \<Rightarrow> submission \<Rightarrow> SubmitTaskRequest \<Rightarrow> 'w core
   \<Rightarrow> (Status + SubmitTaskResponse) \<times> 'w core" where
  "submit_task W svc o1 o2 sub req c = accept W svc o1 o2 sub req c"

definition get_job :: "string \<Rightarrow> 'w core \<Rightarrow> Status + GetJobResponse" where
  "get_job job_id c =
     (if core_poisoned c then Err (Status Internal ''job store lock is poisoned'')
      else
        (case core_jobs c job_id of
           None \<Rightarrow> Err (Status NotFound ''job not found'')
         | Some r \<Rightarrow> Ok \<lparr>gjr_job = Some (jrec_job r), gjr_result = jrec_result r\<rparr>))"

section \<open>Reports of workers\<close>

text \<open>The clock readings of a report: in \<open>update_state\<close> and for the job.\<close>

record report_times =
  rt_store :: system_time
  rt_job :: Timestamp

definition finish_report ::
  "'w CoreExecutionService \<Rightarrow> 'w core others \<Rightarrow> 'w core others \<Rightarrow> report_times \<Rightarrow> ReportExecutionRequest
   \<Rightarrow> ExecutionState \<Rightarrow> string \<Rightarrow> JobResult \<Rightarrow> 'w core \<Rightarrow> (Status + unit) \<times> 'w core" where
  "finish_report svc o2 o3 rts report state job_id outcome c =
     (let outcome = outcome\<lparr>jr_execution_id := rer_execution_id report\<rparr> in
      try_call (\<lambda>_. Status Unavailable ''result backend is unavailable'')
        (awaiting o2 (store_result (ces_result_backend svc) job_id outcome) c) (\<lambda>_ c.
      try_call (\<lambda>_. Status Unavailable ''execution store is unavailable'')
        (awaiting o3 (store_update_state (ces_execution_store svc) (rt_store rts) (rer_execution_id report) state) c)
        (\<lambda>_ c. store_job_result (rt_job rts) job_id outcome c)))"

definition report_execution ::
  "wire \<Rightarrow> 'w CoreExecutionService \<Rightarrow> 'w core others \<Rightarrow> 'w core others \<Rightarrow> 'w core others \<Rightarrow> report_times
   \<Rightarrow> ReportExecutionRequest \<Rightarrow> 'w core \<Rightarrow> (Status + ReportExecutionResponse) \<times> 'w core" where
  "report_execution W svc o1 o2 o3 rts report c =
     (case state_of_code W (rer_state report) of
        None \<Rightarrow> (Err (Status InvalidArgument ''unknown execution state''), c)
      | Some state \<Rightarrow>
          try_call (\<lambda>_. Status Unavailable ''execution store is unavailable'')
            (awaiting o1 (store_get (ces_execution_store svc) (rer_execution_id report)) c) (\<lambda>found c.
          case found of
            None \<Rightarrow> (Err (Status NotFound ''execution not found''), c)
          | Some execution \<Rightarrow>
              let job_id = xr_job_id execution in
              try_call (\<lambda>e. e)
                (case state of
                   Running \<Rightarrow>
                     try_call (\<lambda>_. Status Unavailable ''execution store is unavailable'')
                       (awaiting o2 (store_update_state (ces_execution_store svc) (rt_store rts)
                          (rer_execution_id report) state) c)
                       (\<lambda>_ c. mark_job_running (rt_job rts) job_id c)
                 | Succeeded \<Rightarrow>
                     (case rer_outcome report of
                        None \<Rightarrow> (Err (Status InvalidArgument ''terminal report requires an outcome''), c)
                      | Some outcome \<Rightarrow> finish_report svc o2 o3 rts report state job_id outcome c)
                 | Failed \<Rightarrow>
                     (case rer_outcome report of
                        None \<Rightarrow> (Err (Status InvalidArgument ''terminal report requires an outcome''), c)
                      | Some outcome \<Rightarrow>
                          if jr_failure outcome = None then
                            (Err (Status InvalidArgument ''failed report requires failure information''), c)
                          else finish_report svc o2 o3 rts report state job_id outcome c)
                 | _ \<Rightarrow> (Err (Status InvalidArgument ''unsupported execution report state''), c))
                (\<lambda>_ c. (Ok \<lparr>rxr_accepted = True\<rparr>, c))))"

section \<open>Workers\<close>

fun heartbeat_status :: "HeartbeatError \<Rightarrow> Status" where
  "heartbeat_status UnknownWorker = Status NotFound ''worker is not registered''"
| "heartbeat_status StaleGeneration = Status FailedPrecondition ''worker generation is stale''"
| "heartbeat_status RegistryUnavailable = Status Unavailable ''worker registry is unavailable''"

definition report_heartbeat ::
  "'w CoreExecutionService \<Rightarrow> 'w core others \<Rightarrow> clock \<Rightarrow> ReportHeartbeatRequest \<Rightarrow> 'w core
   \<Rightarrow> (Status + ReportHeartbeatResponse) \<times> 'w core" where
  "report_heartbeat svc o1 clk req c =
     (case rhq_heartbeat req of
        None \<Rightarrow> (Err (Status InvalidArgument ''heartbeat is required''), c)
      | Some heartbeat \<Rightarrow>
          (case parse_worker_incarnation_id (rh_runtime_id heartbeat) of
             None \<Rightarrow> (Err (Status InvalidArgument ''heartbeat runtime_id must identify a worker generation''), c)
           | Some (worker_id, generation) \<Rightarrow>
               try_call heartbeat_status
                 (awaiting o1 (reg_heartbeat (ces_worker_registry svc) clk worker_id generation) c)
                 (\<lambda>_ c. (Ok \<lparr>rhr_accepted = True\<rparr>, c))))"

definition register_worker ::
  "'w CoreExecutionService \<Rightarrow> 'w core others \<Rightarrow> clock \<Rightarrow> RegisterWorkerRequest \<Rightarrow> 'w core
   \<Rightarrow> (Status + RegisterWorkerResponse) \<times> 'w core" where
  "register_worker svc o1 clk req c =
     (case rwq_registration req of
        None \<Rightarrow> (Err (Status InvalidArgument ''registration is required''), c)
      | Some r \<Rightarrow>
          if blank (wr_worker_id r) then (Err (Status InvalidArgument ''worker_id is required''), c)
          else if blank (wr_generation r) then (Err (Status InvalidArgument ''generation is required''), c)
          else
            try_call (\<lambda>e. Status Internal e) (awaiting o1 (reg_register (ces_worker_registry svc) clk r) c)
              (\<lambda>_ c. (Ok \<lparr>rwr_accepted = True, rwr_lease_id = None\<rparr>, c)))"

section \<open>Calls that are not offered\<close>

definition core_runtime_session :: "Status + unit" where
  "core_runtime_session = Err (Status Unimplemented ''runtime sessions connect to a Worker'')"

definition core_register_runtime :: "Status + unit" where
  "core_register_runtime = Err (Status Unimplemented ''RegisterRuntime is outside this POC'')"

definition core_assign_execution :: "AssignExecutionRequest \<Rightarrow> Status + unit" where
  "core_assign_execution _ = Err (Status Unimplemented ''push assignment is outside this POC'')"

definition register_task :: "Status + unit" where
  "register_task = Err (Status Unimplemented ''RegisterTask is outside this POC'')"

definition cancel_job :: "Status + unit" where
  "cancel_job = Err (Status Unimplemented ''CancelJob is outside this POC'')"

definition list_executions :: "Status + unit" where
  "list_executions = Err (Status Unimplemented ''ListExecutions is outside this POC'')"

definition get_execution :: "Status + unit" where
  "get_execution = Err (Status Unimplemented ''GetExecution is outside this POC'')"

section \<open>Awaited calls\<close>

lemma awaiting_alone [simp]:
  "awaiting alone call c = (case call (core_world c) of (x, w) \<Rightarrow> (x, c\<lparr>core_world := w\<rparr>))"
  by (simp add: awaiting_def alone_def)

lemma awaiting_Pair:
  "awaiting o1 call c = (x, c') \<longleftrightarrow>
     (\<exists>w. call (core_world (fst o1 c)) = (x, w) \<and> c' = snd o1 ((fst o1 c)\<lparr>core_world := w\<rparr>))"
  by (auto simp: awaiting_def Let_def split: prod.splits)

end
