(* ===== verification/Api_Jobs.thy ===== *)
theory Api_Jobs
  imports Api
begin

text \<open>
  The table of jobs along any interleaving of the handlers: each handler changes it only by the four
  atomic steps below, so the invariant of the table, by rule induction on the steps, holds whatever is
  interleaved.
\<close>

section \<open>Steps of the table\<close>

inductive job_step :: "(string \<rightharpoonup> JobRecord) \<Rightarrow> (string \<rightharpoonup> JobRecord) \<Rightarrow> bool" where
  submitted: "job_step m (m(sub_job_id sub \<mapsto> \<lparr>jrec_job = accepted_job sub req, jrec_result = None\<rparr>))"
| withdrawn: "job_step m (m(i := None))"
| running: "m i = Some r \<Longrightarrow> job_step m (m(i \<mapsto> running_record now r))"
| finished: "m i = Some r \<Longrightarrow> job_step m (m(i \<mapsto> finished_record now result r))"

abbreviation job_steps :: "(string \<rightharpoonup> JobRecord) \<Rightarrow> (string \<rightharpoonup> JobRecord) \<Rightarrow> bool" where
  "job_steps \<equiv> job_step\<^sup>*\<^sup>*"

text \<open>A record says what its state promises.\<close>

definition job_ok :: "string \<Rightarrow> JobRecord \<Rightarrow> bool" where
  "job_ok i r \<longleftrightarrow> job_job_id (jrec_job r) = i \<and>
     (case job_state (jrec_job r) of
        JobAccepted \<Rightarrow> jrec_result r = None \<and> job_attempt_number (jrec_job r) = 0
      | JobRunning \<Rightarrow> job_attempt_number (jrec_job r) = 1
      | JobSucceeded \<Rightarrow> job_attempt_number (jrec_job r) = 1
          \<and> (\<exists>result. jrec_result r = Some result \<and> jr_failure result = None)
      | JobFailed \<Rightarrow> job_attempt_number (jrec_job r) = 1
          \<and> (\<exists>result. jrec_result r = Some result \<and> jr_failure result \<noteq> None))"

definition jobs_inv :: "(string \<rightharpoonup> JobRecord) \<Rightarrow> bool" where
  "jobs_inv m \<longleftrightarrow> (\<forall>i r. m i = Some r \<longrightarrow> job_ok i r)"

lemma jobs_inv_empty [simp]: "jobs_inv Map.empty"
  by (simp add: jobs_inv_def)

lemma job_step_inv: "job_step m m' \<Longrightarrow> jobs_inv m \<Longrightarrow> jobs_inv m'"
proof (induction rule: job_step.induct)
  case (submitted m sub req)
  then show ?case by (auto simp: jobs_inv_def job_ok_def accepted_job_def)
next
  case (withdrawn m i)
  then show ?case by (auto simp: jobs_inv_def)
next
  case (running m i r now)
  then have "job_ok i r" by (simp add: jobs_inv_def)
  then have "job_ok i (running_record now r)" by (simp add: job_ok_def running_record_def)
  with running show ?case by (auto simp: jobs_inv_def)
next
  case (finished m i r now result)
  then have "job_ok i r" by (simp add: jobs_inv_def)
  then have "job_ok i (finished_record now result r)"
    by (auto simp: job_ok_def finished_record_def split: JobState.splits)
  with finished show ?case by (auto simp: jobs_inv_def)
qed

lemma job_steps_inv: "job_steps m m' \<Longrightarrow> jobs_inv m \<Longrightarrow> jobs_inv m'"
  by (induction rule: rtranclp_induct) (auto dest: job_step_inv)

section \<open>Handlers take steps\<close>

text \<open>The rest of the system, too, changes the table only by its steps.\<close>

definition jobs_activity :: "'w core others \<Rightarrow> bool" where
  "jobs_activity oth \<longleftrightarrow>
     (\<forall>c. job_steps (core_jobs c) (core_jobs (fst oth c))) \<and> (\<forall>c. job_steps (core_jobs c) (core_jobs (snd oth c)))"

lemma jobs_activity_alone [simp]: "jobs_activity alone"
  by (simp add: jobs_activity_def alone_def)

lemma awaiting_steps:
  assumes "jobs_activity oth"
  shows "job_steps (core_jobs c) (core_jobs (snd (awaiting oth call c)))"
proof -
  obtain x w where call: "call (core_world (fst oth c)) = (x, w)" by fastforce
  have "job_steps (core_jobs c) (core_jobs (fst oth c))" using assms by (simp add: jobs_activity_def)
  also have "job_steps (core_jobs (fst oth c)) (core_jobs (snd oth ((fst oth c)\<lparr>core_world := w\<rparr>)))"
    using assms unfolding jobs_activity_def
    by (metis (no_types, lifting) core.ext_inject core.surjective core.update_convs(3))
  finally show ?thesis by (simp add: awaiting_def Let_def call)
qed

definition steps_to :: "'w core \<Rightarrow> 'x \<times> 'w core \<Rightarrow> bool" where
  "steps_to c res \<longleftrightarrow> job_steps (core_jobs c) (core_jobs (snd res))"

lemma steps_to_here [simp]: "steps_to c (x, c)"
  by (simp add: steps_to_def)

lemma steps_to_try:
  assumes "jobs_activity oth" and "\<And>v c'. awaiting oth call c = (Ok v, c') \<Longrightarrow> steps_to c' (k v c')"
  shows "steps_to c (try_call f (awaiting oth call c) k)"
proof -
  obtain x c' where a: "awaiting oth call c = (x, c')" by fastforce
  with awaiting_steps [OF assms(1), of c call] have s: "job_steps (core_jobs c) (core_jobs c')" by simp
  show ?thesis
  proof (cases x)
    case (Inl e)
    with a s show ?thesis by (simp add: steps_to_def)
  next
    case (Inr v)
    from assms(2) a Inr have "steps_to c' (k v c')" by simp
    with s a Inr show ?thesis by (simp add: steps_to_def)
  qed
qed

lemma mark_job_running_steps: "steps_to c (mark_job_running now i c)"
  by (auto simp: steps_to_def mark_job_running_def put_job_def intro: job_step.running split: option.splits)

lemma store_job_result_steps: "steps_to c (store_job_result now i result c)"
  by (auto simp: steps_to_def store_job_result_def put_job_def intro: job_step.finished split: option.splits)

lemma finish_report_steps:
  "jobs_activity o2 \<Longrightarrow> jobs_activity o3 \<Longrightarrow> steps_to c (finish_report svc o2 o3 rts report state i outcome c)"
  unfolding finish_report_def Let_def by (intro steps_to_try store_job_result_steps)

lemma steps_to_wrap: "steps_to c r \<Longrightarrow> steps_to c (try_call f r (\<lambda>v c. (k v, c)))"
  by (cases r; cases "fst r") (auto simp: steps_to_def)

lemma report_execution_steps:
  assumes "jobs_activity o1" and "jobs_activity o2" and "jobs_activity o3"
  shows "steps_to c (report_execution W svc o1 o2 o3 rts report c)"
  using finish_report_steps [OF assms(2,3)] unfolding report_execution_def Let_def
  by (auto split: option.split ExecutionState.split
      intro!: steps_to_try assms steps_to_wrap mark_job_running_steps)

lemma accept_steps:
  assumes "jobs_activity o1" and "jobs_activity o2"
  shows "steps_to c (accept W svc o1 o2 sub req c)"
proof (cases "core_poisoned c")
  case True
  then show ?thesis by (simp add: accept_def)
next
  case False
  define c1 where "c1 = put_job (sub_job_id sub) \<lparr>jrec_job = accepted_job sub req, jrec_result = None\<rparr> c"
  have one: "job_steps (core_jobs c) (core_jobs c1)"
    unfolding c1_def put_job_def using job_step.submitted by (simp add: r_into_rtranclp)
  obtain x c2 where p: "awaiting o1 (broker_publish (ces_broker svc) (task_envelope W svc sub req)) c1 = (x, c2)"
    by fastforce
  with awaiting_steps [OF assms(1), of c1] have two: "job_steps (core_jobs c1) (core_jobs c2)"
    by (metis snd_conv)
  have "steps_to c2 (accept W svc o1 o2 sub req c)"
  proof (cases x)
    case (Inl e)
    have "job_steps (core_jobs c2) ((core_jobs c2)(sub_job_id sub := None))"
      using job_step.withdrawn by (simp add: r_into_rtranclp)
    with Inl False p show ?thesis by (simp add: accept_def c1_def [symmetric] steps_to_def)
  next
    case (Inr u)
    have "steps_to c2 (try_call (\<lambda>_. Status Unavailable ''result backend is unavailable'')
        (awaiting o2 (store_result (ces_result_backend svc) (sub_job_id sub) (accepted_result W)) c2)
        (\<lambda>_ c. (Ok \<lparr>stres_job = Some (accepted_job sub req), stres_result = Some accepted_command\<rparr>, c)))"
      by (intro steps_to_try assms(2)) simp
    with Inr False p show ?thesis by (simp add: accept_def c1_def [symmetric])
  qed
  with one two show ?thesis unfolding steps_to_def by (meson rtranclp_trans)
qed

lemma report_heartbeat_steps: "jobs_activity o1 \<Longrightarrow> steps_to c (report_heartbeat svc o1 clk req c)"
  by (auto simp: report_heartbeat_def split: option.split intro: steps_to_try)

lemma register_worker_steps: "jobs_activity o1 \<Longrightarrow> steps_to c (register_worker svc o1 clk req c)"
  by (auto simp: register_worker_def split: option.split intro: steps_to_try)

section \<open>Runs of the service\<close>

datatype 'w api_request =
    ApiSubmit "'w core others" "'w core others" submission SubmitTaskRequest
  | ApiReport "'w core others" "'w core others" "'w core others" report_times ReportExecutionRequest
  | ApiHeartbeat "'w core others" clock ReportHeartbeatRequest
  | ApiRegister "'w core others" clock RegisterWorkerRequest

fun api_call :: "wire \<Rightarrow> 'w CoreExecutionService \<Rightarrow> 'w api_request \<Rightarrow> 'w core \<Rightarrow> 'w core" where
  "api_call W svc (ApiSubmit o1 o2 sub req) c = snd (submit_task W svc o1 o2 sub req c)"
| "api_call W svc (ApiReport o1 o2 o3 rts report) c = snd (report_execution W svc o1 o2 o3 rts report c)"
| "api_call W svc (ApiHeartbeat o1 clk req) c = snd (report_heartbeat svc o1 clk req c)"
| "api_call W svc (ApiRegister o1 clk req) c = snd (register_worker svc o1 clk req c)"

text \<open>The calls interleave with others that, too, only take steps.\<close>

fun interleaved :: "'w api_request \<Rightarrow> bool" where
  "interleaved (ApiSubmit o1 o2 _ _) \<longleftrightarrow> jobs_activity o1 \<and> jobs_activity o2"
| "interleaved (ApiReport o1 o2 o3 _ _) \<longleftrightarrow> jobs_activity o1 \<and> jobs_activity o2 \<and> jobs_activity o3"
| "interleaved (ApiHeartbeat o1 _ _) \<longleftrightarrow> jobs_activity o1"
| "interleaved (ApiRegister o1 _ _) \<longleftrightarrow> jobs_activity o1"

lemma api_call_steps: "interleaved x \<Longrightarrow> job_steps (core_jobs c) (core_jobs (api_call W svc x c))"
  using accept_steps report_execution_steps report_heartbeat_steps register_worker_steps
  by (cases x) (auto simp: steps_to_def submit_task_def)

text \<open>A whole call is itself something others may do while a handler awaits.\<close>

lemma api_call_activity: "interleaved x \<Longrightarrow> jobs_activity (api_call W svc x, \<lambda>c. c)"
  by (simp add: jobs_activity_def api_call_steps)

lemma api_run_inv:
  "\<forall>x \<in> set xs. interleaved x \<Longrightarrow> jobs_inv (core_jobs c) \<Longrightarrow> jobs_inv (core_jobs (fold (api_call W svc) xs c))"
proof (induction xs arbitrary: c)
  case (Cons x xs)
  have "jobs_inv (core_jobs (api_call W svc x c))"
    using job_steps_inv [OF api_call_steps Cons.prems(2)] Cons.prems(1) by simp
  with Cons show ?case by simp
qed simp

section \<open>Properties\<close>

text \<open>C15. The jobs a client sees are always consistent: along any calls of the service, interleaved with
  any others, a job that is found carries its own identifier; while it is accepted it has no result and
  no attempt; once it succeeded or failed it has made its one attempt and has a result, without or with a
  failure as its state says.\<close>

theorem api_jobs_consistent:
  assumes "\<forall>x \<in> set xs. interleaved x"
    and "get_job i (fold (api_call W svc) xs (core_start w)) = Ok resp"
  shows "\<exists>job. gjr_job resp = Some job \<and> job_job_id job = i \<and> job_attempt_number job \<le> 1
    \<and> (job_state job = JobAccepted \<longrightarrow> gjr_result resp = None \<and> job_attempt_number job = 0)
    \<and> (job_state job = JobSucceeded \<longrightarrow> (\<exists>result. gjr_result resp = Some result \<and> jr_failure result = None))
    \<and> (job_state job = JobFailed \<longrightarrow> (\<exists>result. gjr_result resp = Some result \<and> jr_failure result \<noteq> None))"
proof -
  have "jobs_inv (core_jobs (fold (api_call W svc) xs (core_start w)))"
    by (rule api_run_inv [OF assms(1)]) (simp add: core_start_def)
  then have ok: "core_jobs (fold (api_call W svc) xs (core_start w)) i = Some r \<Longrightarrow> job_ok i r" for r
    by (simp add: jobs_inv_def)
  obtain r where r: "core_jobs (fold (api_call W svc) xs (core_start w)) i = Some r"
      "resp = \<lparr>gjr_job = Some (jrec_job r), gjr_result = jrec_result r\<rparr>"
    using assms(2) by (auto simp: get_job_def split: if_splits option.splits)
  from ok [OF r(1)] r(2) show ?thesis
    by (cases "job_state (jrec_job r)") (auto simp: job_ok_def)
qed

text \<open>A service whose parts always answer.\<close>

definition idle_service :: "unit CoreExecutionService" where
  "idle_service = with_stores
     \<lparr>broker_publish = (\<lambda>_ w. (Ok (), w)), broker_consume = (\<lambda>_ _. None)\<rparr>
     \<lparr>store_result = (\<lambda>_ _ w. (Ok (), w))\<rparr> ''tasks''
     \<lparr>dir_available_workers = (\<lambda>_ w. Some (Ok [], w)), reg_register = (\<lambda>_ _ w. (Ok New, w)),
      reg_heartbeat = (\<lambda>_ _ _ w. (Ok (), w))\<rparr>
     \<lparr>store_create = (\<lambda>_ w. (Ok (), w)),
      store_get = (\<lambda>i w. (Ok (Some \<lparr>xr_execution_id = i, xr_job_id = ''j1'', xr_assignment_id = ''a1'',
         xr_worker_id = ''w1'', xr_state = Assigned, xr_created_at = 0, xr_updated_at = 0\<rparr>), w)),
      store_update_state = (\<lambda>_ _ _ w. (Ok (), w))\<rparr>"

definition sample_submission :: "string \<Rightarrow> submission" where
  "sample_submission i = \<lparr>sub_job_id = i, sub_message_id = ''m1'', sub_now = 5\<rparr>"

definition sample_request :: SubmitTaskRequest where
  "sample_request = \<lparr>str_application_namespace = ''shop'', str_task_name = ''bill'', str_arguments = ''[]'',
     str_serialization_format = ''json'', str_resources = None, str_metadata = None, str_task = None,
     str_parent_execution_id = None\<rparr>"

theorem api_jobs_consistent_witness:
  "\<exists>resp job. get_job ''j1'' (fold (api_call unary_wire idle_service)
      [ApiSubmit (api_call unary_wire idle_service
         (ApiSubmit alone alone (sample_submission ''j2'') sample_request), \<lambda>c. c)
       alone (sample_submission ''j1'') sample_request] (core_start ())) = Ok resp
    \<and> gjr_job resp = Some job \<and> job_job_id job = ''j1''"
proof -
  let ?xs = "[ApiSubmit (api_call unary_wire idle_service
      (ApiSubmit alone alone (sample_submission ''j2'') sample_request), \<lambda>c. c)
      alone (sample_submission ''j1'') sample_request]"
  have act: "\<forall>x \<in> set ?xs. interleaved x" by (simp add: api_call_activity)
  have "\<exists>resp. get_job ''j1'' (fold (api_call unary_wire idle_service) ?xs (core_start ())) = Ok resp"
    by (simp add: submit_task_def accept_def core_start_def put_job_def awaiting_def idle_service_def
        with_stores_def alone_def sample_submission_def get_job_def)
  then obtain resp where r: "get_job ''j1'' (fold (api_call unary_wire idle_service) ?xs (core_start ())) = Ok resp"
    by blast
  from api_jobs_consistent [OF act r] r show ?thesis by blast
qed

text \<open>A report that makes sense: running, succeeded with an outcome, or failed with an outcome that carries
  failure information.\<close>

definition sensible_report :: "wire \<Rightarrow> ReportExecutionRequest \<Rightarrow> bool" where
  "sensible_report W report \<longleftrightarrow>
     (case state_of_code W (rer_state report) of
        Some Running \<Rightarrow> True
      | Some Succeeded \<Rightarrow> rer_outcome report \<noteq> None
      | Some Failed \<Rightarrow> (case rer_outcome report of None \<Rightarrow> False | Some outcome \<Rightarrow> jr_failure outcome \<noteq> None)
      | _ \<Rightarrow> False)"

definition sample_report :: "ExecutionState \<Rightarrow> JobResult option \<Rightarrow> ReportExecutionRequest" where
  "sample_report st outcome = \<lparr>rer_report_id = ''r1'', rer_assignment_id = ''a1'', rer_execution_id = ''x1'',
     rer_sequence_number = 1, rer_state = state_code unary_wire st, rer_outcome = outcome, rer_observed_at = None\<rparr>"

end
