(* ===== verification/Api_Plane.thy ===== *)
theory Api_Plane
  imports Api_Jobs Control_Plane
begin

text \<open>
  The handlers of the control plane over services that keep their contracts, proved once in the locale
  \<open>control_plane\<close>: what an accepted and a refused submission leave behind, and what a report changes.
\<close>

context control_plane
begin

abbreviation service :: "string \<Rightarrow> 'w CoreExecutionService" where
  "service d \<equiv> with_stores B P d G S"

lemma service_fields [simp]:
  "ces_broker (service d) = B" "ces_result_backend (service d) = P" "ces_task_destination (service d) = d"
  "ces_worker_registry (service d) = G" "ces_execution_store (service d) = S"
  by (simp_all add: with_stores_def)

lemma envelope_destination [simp]: "be_destination (task_envelope W (service d) sub req) = d"
  by (simp add: task_envelope_def)

section \<open>Submissions\<close>

lemma accept_cases:
  assumes "accept W (service d) alone alone sub req c = (res, c')"
  obtains (poisoned) "core_poisoned c" "res = Err (Status Internal ''job store lock is poisoned'')" "c' = c"
  | (refused) e w where "\<not> core_poisoned c"
      "broker_publish B (task_envelope W (service d) sub req) (core_world c) = (Err e, w)"
      "res = Err (Status Unavailable ''task broker is unavailable'')"
      "c' = c\<lparr>core_world := w, core_jobs := (core_jobs c)(sub_job_id sub := None)\<rparr>"
  | (published) w x w' where "\<not> core_poisoned c"
      "broker_publish B (task_envelope W (service d) sub req) (core_world c) = (Ok (), w)"
      "store_result P (sub_job_id sub) (accepted_result W) w = (x, w')"
      "res = (case x of Err _ \<Rightarrow> Err (Status Unavailable ''result backend is unavailable'')
         | Ok _ \<Rightarrow> Ok \<lparr>stres_job = Some (accepted_job sub req), stres_result = Some accepted_command\<rparr>)"
      "c' = c\<lparr>core_jobs := (core_jobs c)(sub_job_id sub \<mapsto> \<lparr>jrec_job = accepted_job sub req, jrec_result = None\<rparr>),
              core_world := w'\<rparr>"
proof (cases "core_poisoned c")
  case True
  with assms have "res = Err (Status Internal ''job store lock is poisoned'')" "c' = c" by (simp_all add: accept_def)
  from poisoned [OF True this] show thesis .
next
  case False
  obtain y w where p: "broker_publish B (task_envelope W (service d) sub req) (core_world c) = (y, w)" by fastforce
  show thesis
  proof (cases y)
    case (Inl e)
    with assms False p have "res = Err (Status Unavailable ''task broker is unavailable'')"
      "c' = c\<lparr>core_world := w, core_jobs := (core_jobs c)(sub_job_id sub := None)\<rparr>"
      by (auto simp: accept_def put_job_def Let_def)
    from refused [OF False p [unfolded Inl] this] show thesis .
  next
    case (Inr u)
    obtain x w' where s: "store_result P (sub_job_id sub) (accepted_result W) w = (x, w')" by fastforce
    have "res = (case x of Err _ \<Rightarrow> Err (Status Unavailable ''result backend is unavailable'')
         | Ok _ \<Rightarrow> Ok \<lparr>stres_job = Some (accepted_job sub req), stres_result = Some accepted_command\<rparr>)"
      "c' = c\<lparr>core_jobs := (core_jobs c)(sub_job_id sub \<mapsto> \<lparr>jrec_job = accepted_job sub req, jrec_result = None\<rparr>),
              core_world := w'\<rparr>"
      using assms False p Inr s by (cases x; simp add: accept_def put_job_def Let_def)+
    from published [OF False _ s this] p Inr show thesis by simp
  qed
qed

lemma accept_ok:
  assumes inv: "invar (core_world c)" and d: "valid d"
    and run: "accept W (service d) alone alone sub req c = (Ok resp, c')"
  shows "core_jobs c' = (core_jobs c)(sub_job_id sub \<mapsto> \<lparr>jrec_job = accepted_job sub req, jrec_result = None\<rparr>)
    \<and> queue (core_world c') = (queue (core_world c))(d := queue (core_world c) d @ [task_envelope W (service d) sub req])
    \<and> results (core_world c') = (results (core_world c))(sub_job_id sub \<mapsto> enc (accepted_result W))
    \<and> recs (core_world c') = recs (core_world c) \<and> invar (core_world c')
    \<and> shrinks (members (core_world c)) (members (core_world c'))"
  using run
proof (cases rule: accept_cases)
  case (published w x w')
  from published(4) obtain u where x: "x = Ok u" by (cases x) auto
  have v: "valid (be_destination (task_envelope W (service d) sub req))" using d by simp
  have inv1: "invar w" using brk.invar_publish [OF inv v] published(2) by simp
  note p = brk.publish_ok [OF inv v published(2)] publish_frame [OF inv v published(2)]
  have s: "store_result P (sub_job_id sub) (accepted_result W) w = (Ok (), w')" using published(3) x by simp
  note r = res.store_ok [OF inv1 s] result_frame [OF inv1 s]
  have "invar w'" using res.invar_store [OF inv1, of "sub_job_id sub" "accepted_result W"] s by simp
  with p r published(5) shrinks_trans show ?thesis by fastforce
qed simp_all

lemma accept_refused:
  assumes inv: "invar (core_world c)" and d: "valid d"
    and run: "accept W (service d) alone alone sub req c = (Err (Status Unavailable ''task broker is unavailable''), c')"
  shows "core_jobs c' = (core_jobs c)(sub_job_id sub := None)
    \<and> (queue (core_world c') = queue (core_world c)
       \<or> queue (core_world c') = (queue (core_world c))(d := queue (core_world c) d @ [task_envelope W (service d) sub req]))
    \<and> results (core_world c') = results (core_world c) \<and> recs (core_world c') = recs (core_world c)"
  using run
proof (cases rule: accept_cases)
  case (refused e w)
  have v: "valid (be_destination (task_envelope W (service d) sub req))" using d by simp
  from brk.publish_err [OF inv v refused(2)] publish_frame [OF inv v refused(2)] refused(4) show ?thesis by simp
next
  case (published w x w')
  then show ?thesis by (cases x) auto
qed simp

lemma accept_unacknowledged:
  assumes inv: "invar (core_world c)" and d: "valid d"
    and run: "accept W (service d) alone alone sub req c = (Err (Status Unavailable ''result backend is unavailable''), c')"
  shows "core_jobs c' = (core_jobs c)(sub_job_id sub \<mapsto> \<lparr>jrec_job = accepted_job sub req, jrec_result = None\<rparr>)
    \<and> queue (core_world c') = (queue (core_world c))(d := queue (core_world c) d @ [task_envelope W (service d) sub req])"
  using run
proof (cases rule: accept_cases)
  case (published w x w')
  have v: "valid (be_destination (task_envelope W (service d) sub req))" using d by simp
  have "invar w" using brk.invar_publish [OF inv v] published(2) by simp
  with result_frame published(3) brk.publish_ok [OF inv v published(2)] published(5) show ?thesis by simp
qed simp_all

section \<open>Reports\<close>

lemma get_found:
  assumes inv: "invar w" and run: "store_get S i w = (Ok (Some r), w')"
  shows "recs w i = Some r" "recs w' = recs w" "invar w'" "queue w' = queue w" "results w' = results w"
  using exec.get_ok [OF inv run] exec.get_recs [OF inv, of i] exec.invar_get [OF inv, of i]
    get_frame [OF inv run] run by simp_all

lemma report_reads:
  assumes run: "report_execution W (service d) alone alone alone rts report c = (Ok resp, c')"
  obtains st r w where "state_of_code W (rer_state report) = Some st"
    "store_get S (rer_execution_id report) (core_world c) = (Ok (Some r), w)"
proof -
  from run obtain st where st: "state_of_code W (rer_state report) = Some st"
    by (cases "state_of_code W (rer_state report)") (simp_all add: report_execution_def)
  obtain x w where g: "store_get S (rer_execution_id report) (core_world c) = (x, w)" by fastforce
  from run st g obtain f where x: "x = Ok f" by (cases x) (simp_all add: report_execution_def)
  from run st g x obtain r where "f = Some r" by (cases f) (simp_all add: report_execution_def)
  with that st g x show thesis by blast
qed

lemma report_terminal:
  assumes inv: "invar (core_world c)"
    and run: "report_execution W (service d) alone alone alone rts report c = (Ok resp, c')"
    and st: "state_of_code W (rer_state report) = Some st" and "st = Succeeded \<or> st = Failed"
  shows "\<exists>r outcome job. recs (core_world c) (rer_execution_id report) = Some r \<and> rer_outcome report = Some outcome
    \<and> (st = Failed \<longrightarrow> jr_failure outcome \<noteq> None) \<and> core_jobs c (xr_job_id r) = Some job
    \<and> recs (core_world c') = (recs (core_world c))(rer_execution_id report \<mapsto> put_state st (stamp (rt_store rts)) r)
    \<and> results (core_world c') = (results (core_world c))
        (xr_job_id r \<mapsto> enc (outcome\<lparr>jr_execution_id := rer_execution_id report\<rparr>))
    \<and> core_jobs c' = (core_jobs c)(xr_job_id r \<mapsto>
        finished_record (rt_job rts) (outcome\<lparr>jr_execution_id := rer_execution_id report\<rparr>) job)
    \<and> queue (core_world c') = queue (core_world c)"
proof -
  obtain st' r w where st': "state_of_code W (rer_state report) = Some st'"
      and g: "store_get S (rer_execution_id report) (core_world c) = (Ok (Some r), w)"
    by (rule report_reads [OF run])
  note got = get_found [OF inv g]
  let ?finish = "\<lambda>outcome. finish_report (service d) alone alone rts report st (xr_job_id r) outcome (c\<lparr>core_world := w\<rparr>)"
  from run st g assms(4) obtain outcome where o: "rer_outcome report = Some outcome"
      "st = Failed \<longrightarrow> jr_failure outcome \<noteq> None" and fin: "?finish outcome = (Ok (), c')"
    by (auto simp: report_execution_def Let_def try_call_eq_Ok split: option.splits if_splits)
  let ?o = "outcome\<lparr>jr_execution_id := rer_execution_id report\<rparr>"
  from fin obtain w1 w2 job where s: "store_result P (xr_job_id r) ?o w = (Ok (), w1)"
      and u: "store_update_state S (rt_store rts) (rer_execution_id report) st w1 = (Ok (), w2)"
      and j: "core_jobs c (xr_job_id r) = Some job"
        "c' = (c\<lparr>core_world := w2\<rparr>)\<lparr>core_jobs := (core_jobs c)(xr_job_id r \<mapsto> finished_record (rt_job rts) ?o job)\<rparr>"
    by (auto simp: finish_report_def Let_def try_call_eq_Ok store_job_result_def put_job_def
        split: prod.splits if_splits option.splits)
  have inv1: "invar w1" using res.invar_store [OF got(3), of "xr_job_id r" ?o] s by simp
  note f = res.store_ok [OF got(3) s] result_frame [OF got(3) s] update_frame [OF inv1 u]
  obtain r' where "recs w1 (rer_execution_id report) = Some r'"
      "recs w2 = (recs w1)(rer_execution_id report \<mapsto> put_state st (stamp (rt_store rts)) r')"
    using exec.update_ok [OF inv1 u] by blast
  with f got o j show ?thesis by auto
qed

text \<open>A report that is not sensible, or one of an execution without a record, ends after reading the record.\<close>

lemma report_refused:
  assumes inv: "invar (core_world c)"
    and bad: "\<not> (sensible_report W report \<and> recs (core_world c) (rer_execution_id report) \<noteq> None)"
    and run: "report_execution W (service d) alone o2 o3 rts report c = (x, c')"
  shows "\<exists>code message. x = Err (Status code message)
      \<and> (code = Unavailable \<and> \<not> is_ok (fst (store_get S (rer_execution_id report) (core_world c)))
         \<or> code = (if state_of_code W (rer_state report) \<noteq> None \<and> recs (core_world c) (rer_execution_id report) = None
             then NotFound else InvalidArgument))"
    "core_jobs c' = core_jobs c" "core_poisoned c' = core_poisoned c" "recs (core_world c') = recs (core_world c)"
    "queue (core_world c') = queue (core_world c)" "results (core_world c') = results (core_world c)"
    "invar (core_world c')"
proof -
  let ?i = "rer_execution_id report"
  obtain y w where g: "store_get S ?i (core_world c) = (y, w)" by fastforce
  have w: "recs w = recs (core_world c)" "invar w" "queue w = queue (core_world c)" "results w = results (core_world c)"
    using exec.get_recs [OF inv, of ?i] exec.invar_get [OF inv, of ?i] get_frame [OF inv g] g by simp_all
  have found: "recs (core_world c) ?i = f" if "y = Ok f" for f using exec.get_ok [OF inv] g that by simp
  have "c' = c \<or> c' = c\<lparr>core_world := w\<rparr>"
    using run g bad found
    by (auto simp: report_execution_def sensible_report_def Let_def try_call_def
        split: option.splits ExecutionState.splits prod.splits sum.splits if_splits)
  with w inv show "core_jobs c' = core_jobs c" "core_poisoned c' = core_poisoned c"
    "recs (core_world c') = recs (core_world c)" "queue (core_world c') = queue (core_world c)"
    "results (core_world c') = results (core_world c)" "invar (core_world c')" by auto
  show "\<exists>code message. x = Err (Status code message)
      \<and> (code = Unavailable \<and> \<not> is_ok (fst (store_get S ?i (core_world c)))
         \<or> code = (if state_of_code W (rer_state report) \<noteq> None \<and> recs (core_world c) ?i = None
             then NotFound else InvalidArgument))"
    using run g bad found
    by (auto simp: report_execution_def sensible_report_def Let_def try_call_def
        split: option.splits ExecutionState.splits prod.splits sum.splits if_splits)
qed

text \<open>A report of the state running: nothing of the execution's or the job's state is looked at.\<close>

lemma report_running:
  assumes inv: "invar (core_world c)"
    and run: "report_execution W (service d) alone alone alone rts report c = (Ok resp, c')"
    and st: "state_of_code W (rer_state report) = Some Running"
  shows "\<exists>r job. recs (core_world c) (rer_execution_id report) = Some r \<and> core_jobs c (xr_job_id r) = Some job
    \<and> recs (core_world c') = (recs (core_world c))(rer_execution_id report \<mapsto> put_state Running (stamp (rt_store rts)) r)
    \<and> core_jobs c' = (core_jobs c)(xr_job_id r \<mapsto> running_record (rt_job rts) job)"
proof -
  obtain st' r w where st': "state_of_code W (rer_state report) = Some st'"
      and g: "store_get S (rer_execution_id report) (core_world c) = (Ok (Some r), w)"
    by (rule report_reads [OF run])
  note got = get_found [OF inv g]
  from run st g obtain w2 job where u: "store_update_state S (rt_store rts) (rer_execution_id report) Running w = (Ok (), w2)"
      and j: "core_jobs c (xr_job_id r) = Some job"
        "c' = (c\<lparr>core_world := w2\<rparr>)\<lparr>core_jobs := (core_jobs c)(xr_job_id r \<mapsto> running_record (rt_job rts) job)\<rparr>"
    by (auto simp: report_execution_def Let_def try_call_eq_Ok mark_job_running_def put_job_def
        split: prod.splits if_splits option.splits)
  obtain r' where "recs w (rer_execution_id report) = Some r'"
      "recs w2 = (recs w)(rer_execution_id report \<mapsto> put_state Running (stamp (rt_store rts)) r')"
    using exec.update_ok [OF got(3) u] by blast
  with got j show ?thesis by auto
qed

end

context reliable_control_plane
begin

text \<open>Over services that do not fail, a submission and a report succeed.\<close>

lemma accept_succeeds:
  assumes inv: "invar (core_world c)" and d: "valid d" and ok: "\<not> core_poisoned c"
  shows "\<exists>resp c'. accept W (service d) alone alone sub req c = (Ok resp, c')"
proof -
  obtain res c' where run: "accept W (service d) alone alone sub req c = (res, c')" by fastforce
  have v: "valid (be_destination (task_envelope W (service d) sub req))" using d by simp
  from run show ?thesis
  proof (cases rule: accept_cases)
    case (refused e w)
    with publish_succeeds [OF inv v] show ?thesis by simp
  next
    case (published w x w')
    have "invar w" using brk.invar_publish [OF inv v] published(2) by simp
    from result_succeeds [OF this, of "sub_job_id sub" "accepted_result W"] published(3,4) run show ?thesis
      by (cases x) auto
  qed (use ok in simp)
qed

lemma running_report_accepted:
  assumes inv: "invar (core_world c)" and st: "state_of_code W (rer_state report) = Some Running"
    and r: "recs (core_world c) (rer_execution_id report) = Some r" and j: "core_jobs c (xr_job_id r) = Some job"
    and ok: "\<not> core_poisoned c"
  shows "\<exists>resp c'. report_execution W (service d) alone alone alone rts report c = (Ok resp, c')"
proof -
  obtain x w where g: "store_get S (rer_execution_id report) (core_world c) = (x, w)" by fastforce
  then obtain f where x: "x = Ok f" using get_succeeds [OF inv, of "rer_execution_id report"] by (cases x) auto
  have f: "f = Some r" using exec.get_ok [OF inv g [unfolded x]] r by simp
  note got = get_found [OF inv g [unfolded x f]]
  obtain y w2 where u: "store_update_state S (rt_store rts) (rer_execution_id report) Running w = (y, w2)" by fastforce
  then obtain v where "y = Ok v"
    using update_succeeds [OF got(3), of "rer_execution_id report" "rt_store rts" Running] got(2) r by (cases y) auto
  with g x f u st j ok show ?thesis
    by (simp add: report_execution_def Let_def mark_job_running_def)
qed

lemma terminal_report_accepted:
  assumes inv: "invar (core_world c)" and st: "state_of_code W (rer_state report) = Some st"
    and fin: "st = Succeeded \<or> st = Failed" and o: "rer_outcome report = Some outcome"
    and fail: "st = Failed \<longrightarrow> jr_failure outcome \<noteq> None"
    and r: "recs (core_world c) (rer_execution_id report) = Some r" and j: "core_jobs c (xr_job_id r) = Some job"
    and ok: "\<not> core_poisoned c"
  shows "\<exists>resp c'. report_execution W (service d) alone alone alone rts report c = (Ok resp, c')"
proof -
  let ?i = "rer_execution_id report" and ?o = "outcome\<lparr>jr_execution_id := rer_execution_id report\<rparr>"
  obtain x w where g: "store_get S ?i (core_world c) = (x, w)" by fastforce
  then obtain f where x: "x = Ok f" using get_succeeds [OF inv, of ?i] by (cases x) auto
  have f: "f = Some r" using exec.get_ok [OF inv g [unfolded x]] r by simp
  note got = get_found [OF inv g [unfolded x f]]
  obtain y w1 where s: "store_result P (xr_job_id r) ?o w = (y, w1)" by fastforce
  then obtain v where y: "y = Ok v" using result_succeeds [OF got(3), of "xr_job_id r" ?o] by (cases y) auto
  have inv1: "invar w1" using res.invar_store [OF got(3), of "xr_job_id r" ?o] s by simp
  have "recs w1 ?i \<noteq> None" using result_frame [OF got(3) s] got(2) r by simp
  from update_succeeds [OF inv1 this] obtain v' w2 where
    u: "store_update_state S (rt_store rts) ?i st w1 = (Ok v', w2)"
    by (cases "store_update_state S (rt_store rts) ?i st w1";
        cases "fst (store_update_state S (rt_store rts) ?i st w1)") (metis fst_conv is_ok_simps(2))+
  have "finish_report (service d) alone alone rts report st (xr_job_id r) outcome (c\<lparr>core_world := w\<rparr>)
      = store_job_result (rt_job rts) (xr_job_id r) ?o (c\<lparr>core_world := w2\<rparr>)"
    using s y u by (simp add: finish_report_def Let_def)
  with g x f st fin o fail j ok show ?thesis
    by (auto simp: report_execution_def Let_def store_job_result_def)
qed

end

end
