(* ===== verification/Delivery.thy ===== *)
theory Delivery
  imports Api_Plane Worker
begin

text \<open>
  From the submission of a task to the runtime: the control plane, the scheduler and a worker over the
  same services.
\<close>

context reliable_control_plane
begin

text \<open>A worker takes the assignment that waits for it into its table.\<close>

lemma execute_one_delivers:
  assumes inv: "invar w" and wk: "wk_broker wk = B" "wk_destination wk = worker_destination i"
    and waiting: "queue w (worker_destination i) = e # rest" and a: "decode_assign W (be_payload e) = Ok a"
    and ids: "\<not> blank (aer_assignment_id a)" "\<not> blank (aer_execution_id a)"
    and new: "ps_assignments p (aer_assignment_id a) = None"
  shows "\<exists>p' w'. execute_one W wk (p, w) = Some (Ok a, p', w') \<and> ps_queue p' = ps_queue p @ [aer_assignment_id a]
    \<and> ps_assignments p' (aer_assignment_id a) = Some (new_record a) \<and> invar w' \<and> recs w' = recs w"
proof -
  obtain y w' where c: "broker_consume B (worker_destination i) w = Some (y, w')"
    using brk.consume_waits [OF inv worker_valid, of i] waiting
    by (cases "broker_consume B (worker_destination i) w") auto
  then obtain x where y: "y = Ok x" using consume_succeeds [OF inv worker_valid c] by (cases y) auto
  have "invar w'" "recs w' = recs w"
    using brk.invar_consume [OF inv worker_valid c] consume_frame [OF inv worker_valid c] by simp_all
  moreover have "x = e" using brk.consume_ok [OF inv worker_valid c [unfolded y]] waiting by simp
  moreover obtain p' where "enqueue a p = (Ok (), p')" "ps_queue p' = ps_queue p @ [aer_assignment_id a]"
      "ps_assignments p' (aer_assignment_id a) = Some (new_record a)"
    using ids new by (simp add: enqueue_def Let_def)
  ultimately show ?thesis using wk c y a by (simp add: execute_one_def)
qed

lemma task_reaches_runtime:
  assumes inv: "invar (core_world c)" and W: "wire_ok W" and d: "task_queue d" and ok: "\<not> core_poisoned c"
    and idle: "queue (core_world c) d = []" "\<And>i. queue (core_world c) (worker_destination i) = []"
    and new: "recs (core_world c) (fr_execution_id fr) = None"
    and ids: "\<not> blank (fr_assignment_id fr)" "\<not> blank (fr_execution_id fr)"
    and table: "ps_queue p = []" "ps_assignments p (fr_assignment_id fr) = None"
  shows "\<exists>resp c1. accept W (service d) alone alone sub req c = (Ok resp, c1)
    \<and> core_jobs c1 (sub_job_id sub) = Some \<lparr>jrec_job = accepted_job sub req, jrec_result = None\<rparr>
    \<and> \<not> core_poisoned c1
    \<and> (\<forall>i ids w1 wk. dir_available_workers G (fr_clock fr) (core_world c1) = Some (Ok (i # ids), w1) \<longrightarrow>
         wk_broker wk = B \<longrightarrow> wk_destination wk = worker_destination i \<longrightarrow>
         (\<exists>w2 p' w3. let a = build_assignment fr (sub_job_id sub) req in
            schedule_one W (the_scheduler d) fr (core_world c1) = Some (Ok (AssignedDecision i a), w2)
          \<and> execute_one W wk (p, w2) = Some (Ok a, p', w3)
          \<and> ps_queue p' = [fr_assignment_id fr] \<and> ps_assignments p' (fr_assignment_id fr) = Some (new_record a)
          \<and> invar w3 \<and> recs w3 (fr_execution_id fr) = Some (stored (build_execution fr i a))))"
proof -
  from d have v: "valid d" and nd: "\<And>i. d \<noteq> worker_destination i" by (simp_all add: task_queue_def)
  obtain resp c1 where acc: "accept W (service d) alone alone sub req c = (Ok resp, c1)"
    using accept_succeeds [OF inv v ok] by blast
  let ?e = "task_envelope W (service d) sub req" and ?a = "build_assignment fr (sub_job_id sub) req"
  let ?w = "core_world c1"
  note after = accept_ok [OF inv v acc]
  have inv1: "invar ?w" and q: "queue ?w d = [?e]" "\<And>i. queue ?w (worker_destination i) = []"
      and r: "recs ?w (fr_execution_id fr) = None"
    using after idle new nd by auto
  have jobs: "core_jobs c1 (sub_job_id sub) = Some \<lparr>jrec_job = accepted_job sub req, jrec_result = None\<rparr>"
    using after by simp
  have lock: "\<not> core_poisoned c1" using acc by (cases rule: accept_cases) (use ok in auto)
  have dec: "decode_submit W (be_payload ?e) = Ok req" by (simp add: task_envelope_def wire_okD [OF W])
  have job: "job_of fr ?e = sub_job_id sub" by (simp add: task_envelope_def)
  have "\<exists>w2 p' w3. schedule_one W (the_scheduler d) fr ?w = Some (Ok (AssignedDecision i ?a), w2)
      \<and> execute_one W wk (p, w2) = Some (Ok ?a, p', w3)
      \<and> ps_queue p' = [fr_assignment_id fr] \<and> ps_assignments p' (fr_assignment_id fr) = Some (new_record ?a)
      \<and> invar w3 \<and> recs w3 (fr_execution_id fr) = Some (stored (build_execution fr i ?a))"
    if l: "dir_available_workers G (fr_clock fr) ?w = Some (Ok (i # ids), w1)"
      and wk: "wk_broker wk = B" "wk_destination wk = worker_destination i" for i ids w1 wk
  proof -
    from schedule_progress [OF inv1 v q(1) dec r] l obtain b w2 where
      s: "schedule_one W (the_scheduler d) fr ?w = Some (Ok (AssignedDecision i b), w2)" by auto
    from assigned_step [OF inv1 d s] q(1) dec job have b: "b = ?a" by auto
    have r2: "recs w2 (fr_execution_id fr) = Some (stored (build_execution fr i ?a))"
      using assigned_step [OF inv1 d s] b by (auto simp: build_assignment_def)
    have q2: "queue w2 (worker_destination i) = [build_envelope W fr i ?e ?a]"
      using assigned_step [OF inv1 d s] q b by auto
    have inv2: "invar w2" using step_invar [OF inv1 v s] .
    have "decode_assign W (be_payload (build_envelope W fr i ?e ?a)) = Ok ?a"
      by (simp add: build_envelope_def wire_okD [OF W])
    moreover have "aer_assignment_id ?a = fr_assignment_id fr" "aer_execution_id ?a = fr_execution_id fr"
      by (simp_all add: build_assignment_def)
    ultimately obtain p' w3 where e: "execute_one W wk (p, w2) = Some (Ok ?a, p', w3)"
        "ps_queue p' = [fr_assignment_id fr]" "ps_assignments p' (fr_assignment_id fr) = Some (new_record ?a)"
        "invar w3" "recs w3 = recs w2"
      using execute_one_delivers [OF inv2 wk q2, of W ?a p] ids table by auto
    with s b r2 show ?thesis by auto
  qed
  with acc jobs lock show ?thesis by (auto simp: Let_def)
qed

end

end
