(* ===== verification/Core_System.thy ===== *)
theory Core_System
  imports Delivery Scheduling
begin

text \<open>
  The control plane over Redis: what submissions and reports leave in Redis and in the table of jobs,
  and how heartbeats of workers reach the registry.
\<close>

section \<open>The service of a control plane\<close>

definition plane_service :: "'d redis \<Rightarrow> wire \<Rightarrow> string \<Rightarrow> duration \<Rightarrow> string \<Rightarrow> 'd CoreExecutionService" where
  "plane_service R W p ttl d =
     with_stores (redis_broker R W (plane_broker p)) (redis_result_backend R W (plane_results p)) d
       (redis_worker_registry R W (plane_registry p ttl)) (redis_execution_store R W (plane_store p))"

context redis_deployment
begin

lemmas redis_accept_ok = plane.accept_ok [where W = W, folded plane_service_def]
lemmas redis_accept_refused = plane.accept_refused [where W = W, folded plane_service_def]
lemmas redis_accept_unacknowledged = plane.accept_unacknowledged [where W = W, folded plane_service_def]
lemmas redis_report_terminal = plane.report_terminal [where W = W, folded plane_service_def]
lemmas redis_report_running = plane.report_running [where W = W, folded plane_service_def]
lemmas redis_report_refused = plane.report_refused [where W = W, folded plane_service_def]

end

context reliable_deployment
begin

lemmas redis_accept_succeeds = rplane.accept_succeeds [where W = W, folded plane_service_def]
lemmas redis_running_accepted = rplane.running_report_accepted [where W = W, folded plane_service_def]
lemmas redis_get_succeeds = rplane.get_succeeds
lemmas redis_terminal_accepted = rplane.terminal_report_accepted [where W = W, folded plane_service_def]

end

lemma reliable_deploymentI: "redis_ok R \<Longrightarrow> wire_ok W \<Longrightarrow> reliable R \<Longrightarrow> reliable_deployment R W"
  by (intro reliable_deployment.intro redis_deployment.intro reliable_deployment_axioms.intro)

section \<open>Submissions\<close>

text \<open>C6. A submission that is accepted has recorded its job as accepted, put exactly one envelope at the
  end of the task queue, which carries the request and the identifier of the job, and stored the accepted
  command as the job's result; no other job, queue, result or execution is touched.\<close>

theorem accepted_submission:
  assumes "redis_ok R" and "wire_ok W" and "plane_inv W p ttl (rd_view R (core_world c))" and "free_destination d"
    and "submit_task W (plane_service R W p ttl d) alone alone sub req c = (Ok resp, c')"
  shows "core_jobs c' = (core_jobs c)(sub_job_id sub \<mapsto> \<lparr>jrec_job = accepted_job sub req, jrec_result = None\<rparr>)
    \<and> (\<exists>e. plane_queue W p (rd_view R (core_world c'))
          = (plane_queue W p (rd_view R (core_world c)))(d := plane_queue W p (rd_view R (core_world c)) d @ [e])
        \<and> decode_submit W (be_payload e) = Ok req \<and> be_correlation_id e = Some (sub_job_id sub))
    \<and> result_map (plane_results p) (rd_view R (core_world c'))
      = (result_map (plane_results p) (rd_view R (core_world c)))(sub_job_id sub \<mapsto> encode_result W (accepted_result W))
    \<and> exec_recs W (plane_store p) (rd_view R (core_world c')) = exec_recs W (plane_store p) (rd_view R (core_world c))"
proof -
  note a = redis_deployment.redis_accept_ok [OF redis_deployment.intro [OF assms(1,2)] assms(3,4)
      assms(5) [unfolded submit_task_def]]
  let ?e = "task_envelope W (plane_service R W p ttl d) sub req"
  have "decode_submit W (be_payload ?e) = Ok req" "be_correlation_id ?e = Some (sub_job_id sub)"
    by (simp_all add: task_envelope_def wire_okD [OF assms(2)])
  with a show ?thesis by blast
qed

lemma sample_core: "plane_inv unary_wire ''tw'' sample_ttl (rd_view calm_redis (core_world (core_start sample_calm)))"
  using sample_plane_inv(1) by (simp add: core_start_def)

theorem accepted_submission_witness:
  "\<exists>resp c'. submit_task unary_wire (plane_service calm_redis unary_wire ''tw'' sample_ttl ''tasks'') alone alone
      (sample_submission ''j1'') sample_request (core_start sample_calm) = (Ok resp, c')
    \<and> length (plane_queue unary_wire ''tw'' (rd_view calm_redis (core_world c')) ''tasks'') = 1"
proof -
  obtain resp c' where run: "submit_task unary_wire (plane_service calm_redis unary_wire ''tw'' sample_ttl ''tasks'')
      alone alone (sample_submission ''j1'') sample_request (core_start sample_calm) = (Ok resp, c')"
    using calm.redis_accept_succeeds [OF sample_core free_tasks(1), of "sample_submission ''j1''" sample_request]
    unfolding submit_task_def by (auto simp: core_start_def)
  have "plane_queue unary_wire ''tw'' (rd_view calm_redis (core_world (core_start sample_calm))) ''tasks'' = []"
    using sample_plane_inv(2) by (simp add: core_start_def)
  with accepted_submission [OF calm_redis_ok unary_wire_ok sample_core free_tasks(1) run] run show ?thesis by auto
qed

text \<open>C25. A submission that is refused because the broker failed leaves no job behind and no result; but
  the task itself may be in the queue all the same, when only the reply of Redis was lost.\<close>

theorem refused_submission:
  assumes "redis_ok R" and "wire_ok W" and "plane_inv W p ttl (rd_view R (core_world c))" and "free_destination d"
    and "submit_task W (plane_service R W p ttl d) alone alone sub req c
      = (Err (Status Unavailable ''task broker is unavailable''), c')"
  shows "get_job (sub_job_id sub) (c'\<lparr>core_poisoned := False\<rparr>) = Err (Status NotFound ''job not found'')
    \<and> core_jobs c' = (core_jobs c)(sub_job_id sub := None)
    \<and> result_map (plane_results p) (rd_view R (core_world c')) = result_map (plane_results p) (rd_view R (core_world c))
    \<and> (plane_queue W p (rd_view R (core_world c')) = plane_queue W p (rd_view R (core_world c))
       \<or> plane_queue W p (rd_view R (core_world c')) = (plane_queue W p (rd_view R (core_world c)))
          (d := plane_queue W p (rd_view R (core_world c)) d @ [task_envelope W (plane_service R W p ttl d) sub req]))"
  using redis_deployment.redis_accept_refused [OF redis_deployment.intro [OF assms(1,2)] assms(3,4)
      assms(5) [unfolded submit_task_def]]
  by (simp add: get_job_def)

text \<open>A Redis that takes the push and loses its reply.\<close>

definition sample_lossy :: reference_state where
  "sample_lossy = \<lparr>ref_view = empty_keyspace, ref_future = [(0, Delivered), (0, ReplyLost ''timeout'')]\<rparr>"

theorem refused_submission_witness:
  "\<exists>c'. submit_task unary_wire (plane_service reference_redis unary_wire ''tw'' sample_ttl ''tasks'') alone alone
      (sample_submission ''j1'') sample_request (core_start sample_lossy)
      = (Err (Status Unavailable ''task broker is unavailable''), c')
    \<and> core_jobs c' ''j1'' = None"
proof -
  let ?svc = "plane_service reference_redis unary_wire ''tw'' sample_ttl ''tasks''"
  have inv: "plane_inv unary_wire ''tw'' sample_ttl (rd_view reference_redis (core_world (core_start sample_lossy)))"
    using sample_plane_inv(1) by (simp add: core_start_def sample_lossy_def view_calm sample_calm_def reference_redis_def)
  have "broker_publish (ces_broker ?svc) e sample_lossy = (Err ''cannot publish to Redis: timeout'',
      snd (redis_publish reference_redis unary_wire (plane_broker ''tw'') e sample_lossy))" for e
    by (rule prod_eqI) (simp_all add: plane_service_def with_stores_def redis_broker_def redis_publish_def
        connect_def request_def reference_redis_def sample_lossy_def)
  then have "fst (submit_task unary_wire ?svc alone alone (sample_submission ''j1'') sample_request
      (core_start sample_lossy)) = Err (Status Unavailable ''task broker is unavailable'')"
    by (simp add: submit_task_def accept_def core_start_def put_job_def Let_def)
  then obtain c' where run: "submit_task unary_wire ?svc alone alone (sample_submission ''j1'') sample_request
      (core_start sample_lossy) = (Err (Status Unavailable ''task broker is unavailable''), c')"
    by (metis prod.collapse)
  from refused_submission [OF reference_redis_ok unary_wire_ok inv free_tasks(1) run] run show ?thesis
    by (auto simp: sample_submission_def)
qed

text \<open>A submission that fails because its accepted command could not be stored has queued its task all the
  same, and its job is kept.\<close>

lemma unacknowledged_submission:
  assumes "redis_ok R" and "wire_ok W" and "plane_inv W p ttl (rd_view R (core_world c))" and "free_destination d"
    and "submit_task W (plane_service R W p ttl d) alone alone sub req c
      = (Err (Status Unavailable ''result backend is unavailable''), c')"
  shows "core_jobs c' (sub_job_id sub) = Some \<lparr>jrec_job = accepted_job sub req, jrec_result = None\<rparr>
    \<and> plane_queue W p (rd_view R (core_world c')) d
      = plane_queue W p (rd_view R (core_world c)) d @ [task_envelope W (plane_service R W p ttl d) sub req]"
  using redis_deployment.redis_accept_unacknowledged [OF redis_deployment.intro [OF assms(1,2)] assms(3,4)
      assms(5) [unfolded submit_task_def]] by simp

section \<open>Reports\<close>

text \<open>C7. A terminal report that is accepted ends its execution and its job together: the execution the
  report names is recorded with the reported state, the outcome is stored under the execution's job, and
  the job has the outcome as its result and the state the outcome implies; no other execution, job or
  result is touched.\<close>

theorem terminal_report_ends_job:
  assumes "redis_ok R" and "wire_ok W" and "plane_inv W p ttl (rd_view R (core_world c))"
    and "report_execution W (plane_service R W p ttl d) alone alone alone rts report c = (Ok resp, c')"
    and "state_of_code W (rer_state report) = Some st" and "st = Succeeded \<or> st = Failed"
  shows "\<exists>r outcome job. exec_recs W (plane_store p) (rd_view R (core_world c)) (rer_execution_id report) = Some r
    \<and> rer_outcome report = Some outcome \<and> (st = Failed \<longrightarrow> jr_failure outcome \<noteq> None)
    \<and> core_jobs c (xr_job_id r) = Some job
    \<and> exec_recs W (plane_store p) (rd_view R (core_world c'))
      = (exec_recs W (plane_store p) (rd_view R (core_world c)))
          (rer_execution_id report \<mapsto> put_state st (to_millis (rt_store rts)) r)
    \<and> result_map (plane_results p) (rd_view R (core_world c'))
      = (result_map (plane_results p) (rd_view R (core_world c)))
          (xr_job_id r \<mapsto> encode_result W (outcome\<lparr>jr_execution_id := rer_execution_id report\<rparr>))
    \<and> core_jobs c' = (core_jobs c)(xr_job_id r \<mapsto>
        finished_record (rt_job rts) (outcome\<lparr>jr_execution_id := rer_execution_id report\<rparr>) job)
    \<and> plane_queue W p (rd_view R (core_world c')) = plane_queue W p (rd_view R (core_world c))"
  by (rule redis_deployment.redis_report_terminal [OF redis_deployment.intro [OF assms(1,2)] assms(3-6)])

text \<open>The state a report names and the outcome it carries are not compared: an execution that is reported as
  succeeded with a failure in its outcome is recorded as succeeded, and its job as failed.\<close>

lemma succeeded_report_with_failure:
  assumes "redis_ok R" and "wire_ok W" and "plane_inv W p ttl (rd_view R (core_world c))"
    and "report_execution W (plane_service R W p ttl d) alone alone alone rts report c = (Ok resp, c')"
    and "state_of_code W (rer_state report) = Some Succeeded"
    and "rer_outcome report = Some outcome" and "jr_failure outcome \<noteq> None"
  shows "\<exists>r job. exec_recs W (plane_store p) (rd_view R (core_world c')) (rer_execution_id report) = Some r
    \<and> xr_state r = Succeeded \<and> core_jobs c' (xr_job_id r) = Some job \<and> job_state (jrec_job job) = JobFailed"
proof -
  from redis_deployment.redis_report_terminal [OF redis_deployment.intro [OF assms(1,2)] assms(3-5)] assms(6)
  obtain r job where
    "exec_recs W (plane_store p) (rd_view R (core_world c')) (rer_execution_id report)
      = Some (put_state Succeeded (to_millis (rt_store rts)) r)"
    "core_jobs c' (xr_job_id r)
      = Some (finished_record (rt_job rts) (outcome\<lparr>jr_execution_id := rer_execution_id report\<rparr>) job)" by auto
  with assms(7) show ?thesis by (auto simp: put_state_def finished_record_def)
qed

text \<open>A job whose execution is recorded.\<close>

definition sample_placed :: ExecutionRecord where
  "sample_placed = \<lparr>xr_execution_id = ''x1'', xr_job_id = ''j1'', xr_assignment_id = ''a1'', xr_worker_id = ''w1'',
     xr_state = Assigned, xr_created_at = 0, xr_updated_at = 0\<rparr>"

abbreviation sample_executing :: reference_state where
  "sample_executing \<equiv> snd (redis_create calm_redis unary_wire (plane_store ''tw'') sample_placed sample_calm)"

definition sample_job :: "JobState \<Rightarrow> JobRecord" where
  "sample_job st = \<lparr>jrec_job = (accepted_job (sample_submission ''j1'') sample_request)\<lparr>job_state := st\<rparr>, jrec_result = None\<rparr>"

definition sample_running_core :: "JobState \<Rightarrow> reference_state core" where
  "sample_running_core st = \<lparr>core_jobs = [''j1'' \<mapsto> sample_job st], core_poisoned = False, core_world = sample_executing\<rparr>"

lemma sample_executing_inv: "plane_inv unary_wire ''tw'' sample_ttl (rd_view calm_redis sample_executing)"
  "exec_recs unary_wire (plane_store ''tw'') (rd_view calm_redis sample_executing) ''x1'' = Some (in_millis sample_placed)"
proof -
  have "xr_execution_id sample_placed = ''x1''" by (simp add: sample_placed_def)
  moreover have "is_ok (fst (redis_create calm_redis unary_wire (plane_store ''tw'') sample_placed sample_calm))"
    using calm.reliable_create [OF calm.plane_invD(2) [OF sample_plane_inv(1)]] sample_plane_inv(3) by blast
  then have run: "redis_create calm_redis unary_wire (plane_store ''tw'') sample_placed sample_calm = (Ok (), sample_executing)"
    by (cases "redis_create calm_redis unary_wire (plane_store ''tw'') sample_placed sample_calm";
        cases "fst (redis_create calm_redis unary_wire (plane_store ''tw'') sample_placed sample_calm)") auto
  then have "store_create (redis_execution_store calm_redis unary_wire (plane_store ''tw'')) sample_placed sample_calm
      = (Ok (), sample_executing)" by (simp add: redis_execution_store_def)
  from calm.plane_create [OF sample_plane_inv(1) run] calm.exec.create_ok [OF calm.plane_invD(2) [OF sample_plane_inv(1)] this]
    calculation
  show "plane_inv unary_wire ''tw'' sample_ttl (rd_view calm_redis sample_executing)"
    "exec_recs unary_wire (plane_store ''tw'') (rd_view calm_redis sample_executing) ''x1'' = Some (in_millis sample_placed)"
    by simp_all
qed

lemma sample_running_core_fields:
  "core_jobs (sample_running_core st) (xr_job_id (in_millis sample_placed)) = Some (sample_job st)"
  "\<not> core_poisoned (sample_running_core st)" "core_world (sample_running_core st) = sample_executing"
  "rer_execution_id (sample_report x o') = ''x1''" "rer_outcome (sample_report x o') = o'"
  "state_of_code unary_wire (rer_state (sample_report x o')) = Some x"
  by (simp_all add: sample_running_core_def sample_placed_def sample_report_def wire_okD [OF unary_wire_ok])

theorem terminal_report_ends_job_witness:
  "\<exists>resp c'. report_execution unary_wire (plane_service calm_redis unary_wire ''tw'' sample_ttl ''tasks'')
      alone alone alone \<lparr>rt_store = 5, rt_job = 5\<rparr> (sample_report Succeeded (Some JobResult_default))
      (sample_running_core JobRunning) = (Ok resp, c')
    \<and> (\<exists>job. core_jobs c' ''j1'' = Some job \<and> job_state (jrec_job job) = JobSucceeded)"
proof -
  note f = sample_running_core_fields(1-3) [of JobRunning] sample_running_core_fields(4-6) [of Succeeded "Some JobResult_default"]
  have inv: "plane_inv unary_wire ''tw'' sample_ttl (rd_view calm_redis (core_world (sample_running_core JobRunning)))"
    using sample_executing_inv(1) f(3) by simp
  obtain resp c' where run: "report_execution unary_wire (plane_service calm_redis unary_wire ''tw'' sample_ttl ''tasks'')
      alone alone alone \<lparr>rt_store = 5, rt_job = 5\<rparr> (sample_report Succeeded (Some JobResult_default))
      (sample_running_core JobRunning) = (Ok resp, c')"
    using calm.redis_terminal_accepted [OF inv f(6) _ f(5), of "in_millis sample_placed" "sample_job JobRunning" "''tasks''"
        "\<lparr>rt_store = 5, rt_job = 5\<rparr>"] f sample_executing_inv(2)
    by auto
  from terminal_report_ends_job [OF calm_redis_ok unary_wire_ok inv run f(6)] f sample_executing_inv(2)
  have "\<exists>job. core_jobs c' ''j1'' = Some job \<and> job_state (jrec_job job) = JobSucceeded"
    by (auto simp: sample_placed_def finished_record_def JobResult_default_def)
  with run show ?thesis by blast
qed

text \<open>C29. Reports are not ordered: over a reliable connection a report of the state running is accepted
  whatever state the execution and its job are in, so a late one puts a finished execution and its
  finished job back to running, while the job keeps its result.\<close>

theorem late_running_report_reopens_job:
  assumes "redis_ok R" and "wire_ok W" and "reliable R" and "plane_inv W p ttl (rd_view R (core_world c))"
    and "state_of_code W (rer_state report) = Some Running"
    and "exec_recs W (plane_store p) (rd_view R (core_world c)) (rer_execution_id report) = Some r"
    and "core_jobs c (xr_job_id r) = Some job" and "\<not> core_poisoned c"
  shows "\<exists>resp c' r' job'. report_execution W (plane_service R W p ttl d) alone alone alone rts report c = (Ok resp, c')
    \<and> exec_recs W (plane_store p) (rd_view R (core_world c')) (rer_execution_id report) = Some r' \<and> xr_state r' = Running
    \<and> core_jobs c' (xr_job_id r) = Some job' \<and> job_state (jrec_job job') = JobRunning
    \<and> jrec_result job' = jrec_result job"
proof -
  note dep = reliable_deploymentI [OF assms(1-3)]
  from reliable_deployment.redis_running_accepted [OF dep assms(4-8)] obtain resp c' where
    run: "report_execution W (plane_service R W p ttl d) alone alone alone rts report c = (Ok resp, c')" by blast
  from redis_deployment.redis_report_running [OF redis_deployment.intro [OF assms(1,2)] assms(4) run assms(5)]
    assms(6,7)
  have "exec_recs W (plane_store p) (rd_view R (core_world c')) (rer_execution_id report)
      = Some (put_state Running (to_millis (rt_store rts)) r)"
    "core_jobs c' (xr_job_id r) = Some (running_record (rt_job rts) job)" by auto
  with run show ?thesis by (auto simp: put_state_def running_record_def)
qed

theorem late_running_report_reopens_job_witness:
  "\<exists>resp c' job'. report_execution unary_wire (plane_service calm_redis unary_wire ''tw'' sample_ttl ''tasks'')
      alone alone alone \<lparr>rt_store = 5, rt_job = 5\<rparr> (sample_report Running None) (sample_running_core JobSucceeded)
      = (Ok resp, c')
    \<and> core_jobs c' ''j1'' = Some job' \<and> job_state (jrec_job job') = JobRunning"
proof -
  note f = sample_running_core_fields(1-3) [of JobSucceeded] sample_running_core_fields(4-6) [of Running None]
  have inv: "plane_inv unary_wire ''tw'' sample_ttl (rd_view calm_redis (core_world (sample_running_core JobSucceeded)))"
    using sample_executing_inv(1) f(3) by simp
  have r: "exec_recs unary_wire (plane_store ''tw'') (rd_view calm_redis (core_world (sample_running_core JobSucceeded)))
      (rer_execution_id (sample_report Running None)) = Some (in_millis sample_placed)"
    using sample_executing_inv(2) f by simp
  have j: "xr_job_id (in_millis sample_placed) = ''j1''" by (simp add: sample_placed_def)
  from late_running_report_reopens_job [OF calm_redis_ok unary_wire_ok calm_redis_reliable inv f(6) r f(1,2), of "''tasks''"
      "\<lparr>rt_store = 5, rt_job = 5\<rparr>"] j
  show ?thesis by auto
qed

text \<open>C27. A report that makes no sense, or of an execution that has no record, changes nothing: with an
  unknown or unsupported state, a terminal state without an outcome, a failure without failure information,
  or an execution identifier that is not recorded, whatever its state, the call is refused, and no job, no
  execution, no result and no queue is written. An execution without a record is reported as not found and
  everything else as an invalid argument; the one other answer is that the store is unavailable, which
  cannot happen over a reliable connection.\<close>

theorem invalid_report_changes_nothing:
  assumes "redis_ok R" and "wire_ok W" and "plane_inv W p ttl (rd_view R (core_world c))"
    and "\<not> (sensible_report W report
      \<and> exec_recs W (plane_store p) (rd_view R (core_world c)) (rer_execution_id report) \<noteq> None)"
    and "report_execution W (plane_service R W p ttl d) alone o2 o3 rts report c = (x, c')"
  shows "(\<exists>code message. x = Err (Status code message)
      \<and> (code = Unavailable \<and> \<not> reliable R
         \<or> code = (if state_of_code W (rer_state report) \<noteq> None
               \<and> exec_recs W (plane_store p) (rd_view R (core_world c)) (rer_execution_id report) = None
             then NotFound else InvalidArgument)))
    \<and> core_jobs c' = core_jobs c \<and> core_poisoned c' = core_poisoned c
    \<and> exec_recs W (plane_store p) (rd_view R (core_world c')) = exec_recs W (plane_store p) (rd_view R (core_world c))
    \<and> result_map (plane_results p) (rd_view R (core_world c')) = result_map (plane_results p) (rd_view R (core_world c))
    \<and> plane_queue W p (rd_view R (core_world c')) = plane_queue W p (rd_view R (core_world c))"
proof -
  note refused = redis_deployment.redis_report_refused [OF redis_deployment.intro [OF assms(1,2)] assms(3-5)]
  have "is_ok (fst (store_get (redis_execution_store R W (plane_store p)) (rer_execution_id report) (core_world c)))"
    if "reliable R"
    using reliable_deployment.redis_get_succeeds [OF reliable_deploymentI [OF assms(1,2) that] assms(3)] .
  with refused(1) refused(2-6) show ?thesis by blast
qed

theorem invalid_report_changes_nothing_witness:
  "\<exists>message c'. report_execution unary_wire (plane_service calm_redis unary_wire ''tw'' sample_ttl ''tasks'')
      alone alone alone \<lparr>rt_store = 5, rt_job = 5\<rparr> (sample_report Running None) (core_start sample_calm)
      = (Err (Status NotFound message), c')
    \<and> core_jobs c' = Map.empty"
proof -
  let ?r = "sample_report Running None"
  obtain x c' where run: "report_execution unary_wire (plane_service calm_redis unary_wire ''tw'' sample_ttl ''tasks'')
      alone alone alone \<lparr>rt_store = 5, rt_job = 5\<rparr> ?r (core_start sample_calm) = (x, c')" by fastforce
  have none: "exec_recs unary_wire (plane_store ''tw'') (rd_view calm_redis (core_world (core_start sample_calm)))
      (rer_execution_id ?r) = None"
    by (simp add: core_start_def sample_calm_def view_calm exec_recs_def empty_keyspace_def)
  have st: "state_of_code unary_wire (rer_state ?r) = Some Running" by (simp add: sample_report_def wire_okD [OF unary_wire_ok])
  from invalid_report_changes_nothing [OF calm_redis_ok unary_wire_ok sample_core _ run] none st calm_redis_reliable run
  show ?thesis by (auto simp: core_start_def)
qed

section \<open>Heartbeats of workers\<close>

text \<open>C26. Core's answer to a worker's heartbeat tells the truth about its membership: an accepted one
  means that exactly this worker is registered under exactly this generation and its lease was renewed
  to the full time to live; not found means it is no member; a failed precondition means another
  generation of it is the member. Over a reliable connection, while the lease ends within the range of the
  server's clock, nothing else is answered: the heartbeat is accepted if and only if the worker is
  registered under this generation.\<close>

theorem heartbeat_answer_is_membership:
  assumes "redis_ok R" and "wire_ok W" and "plane_inv W p ttl (rd_view R (core_world c))"
    and "wi_worker_id (wk_identity wk) = i" and "wi_generation (wk_identity wk) = g"
    and "i \<noteq> []" and "g \<noteq> []" and "length i < 2 ^ 64" and "is_char_boundary (i @ g) (length i)"
    and "report_heartbeat (plane_service R W p ttl d) alone clk (heartbeat_request wk n now) c = (x, c')"
  shows "let m = registry_members W (plane_registry p ttl) (rd_view R (core_world c')) i in
    (case x of
       Ok _ \<Rightarrow> (\<exists>r. m = Some r \<and> wr_generation r = g)
         \<and> ks_deadline (rd_view R (core_world c')) (worker_key (plane_registry p ttl) i)
           = Some (ks_clock (rd_view R (core_world c')) + ttl_millis (plane_registry p ttl))
     | Err status \<Rightarrow> (status_code status = NotFound \<longrightarrow> m = None)
         \<and> (status_code status = FailedPrecondition \<longrightarrow> (\<exists>r. m = Some r \<and> wr_generation r \<noteq> g)))
    \<and> (reliable R \<longrightarrow> ks_clock (rd_view R (core_world c')) + ttl_millis (plane_registry p ttl) < 2 ^ 63 \<longrightarrow>
        (is_ok x \<longleftrightarrow> (\<exists>r. m = Some r \<and> wr_generation r = g)))"
proof -
  note d = redis_deployment.intro [OF assms(1,2)]
  have wf: "registry_wf W (plane_registry p ttl) (rd_view R (core_world c))"
    using assms(3) by (simp add: plane_inv_def)
  have parsed: "parse_worker_incarnation_id (worker_incarnation_id i g) = Some (i, g)"
    using parse_incarnation assms(6-9) by blast
  obtain y w where h: "redis_heartbeat R W (plane_registry p ttl) clk i g (core_world c) = (y, w)" by fastforce
  have w: "core_world c' = w"
    and x: "x = (case y of Err e \<Rightarrow> Err (heartbeat_status e) | Ok _ \<Rightarrow> Ok \<lparr>rhr_accepted = True\<rparr>)"
    using assms(10) h parsed
    by (cases y; auto simp: report_heartbeat_def heartbeat_request_def assms(4,5) plane_service_def with_stores_def
        redis_worker_registry_def)+
  note spec = redis_deployment.redis_heartbeat_spec [OF d wf h]
  have exact: "is_ok x \<longleftrightarrow> (\<exists>r. registry_members W (plane_registry p ttl) (rd_view R w) i = Some r \<and> wr_generation r = g)"
    if "reliable R" and "ks_clock (rd_view R w) + ttl_millis (plane_registry p ttl) < 2 ^ 63"
    using reliable_deployment.reliable_heartbeat [OF reliable_deploymentI [OF assms(1,2) that(1)] wf h that(2)] x
    by (cases y) simp_all
  show ?thesis
  proof (cases y)
    case (Inr u)
    have "leased W (plane_registry p ttl) i (rd_view R w)"
      using redis_deployment.redis_heartbeat_leased [OF d wf] h Inr by simp
    then have "ks_deadline (rd_view R w) (worker_key (plane_registry p ttl) i)
        = Some (ks_clock (rd_view R w) + ttl_millis (plane_registry p ttl))" by (simp add: leased_def)
    with spec Inr x w exact show ?thesis by auto
  next
    case (Inl e)
    with spec x w exact show ?thesis by (cases e) auto
  qed
qed

definition sample_worker :: "string \<Rightarrow> reference_state Worker" where
  "sample_worker g = with_core_client \<lparr>host_variable = None, host_file = None\<rparr> ''w1'' g
     (redis_broker calm_redis unary_wire (plane_broker ''tw'')) WorkerConfig_default
     \<lparr>cwc_register_worker = (\<lambda>_ w. (Ok \<lparr>rwr_accepted = True, rwr_lease_id = None\<rparr>, w)),
      cwc_report_heartbeat = (\<lambda>_ w. (Ok \<lparr>rhr_accepted = True\<rparr>, w)),
      cwc_report_execution = (\<lambda>_ w. (Ok \<lparr>rxr_accepted = True\<rparr>, w))\<rparr>"

theorem heartbeat_answer_is_membership_witness:
  "\<exists>x c'. report_heartbeat (plane_service calm_redis unary_wire ''tw'' sample_ttl ''tasks'') alone sample_clock
      (heartbeat_request (sample_worker ''two'') 1 5) (core_start sample_registered) = (Ok x, c')
    \<and> (\<exists>r. registry_members unary_wire sample_registry (rd_view calm_redis (core_world c')) ''w1'' = Some r
        \<and> wr_generation r = ''two'')
    \<and> reliable calm_redis
    \<and> ks_clock (rd_view calm_redis (core_world c')) + ttl_millis (plane_registry ''tw'' sample_ttl) < 2 ^ 63"
proof -
  let ?svc = "plane_service calm_redis unary_wire ''tw'' sample_ttl ''tasks''"
  have inv: "plane_inv unary_wire ''tw'' sample_ttl (rd_view calm_redis (core_world (core_start sample_registered)))"
    using sample_registered_inv(1) by (simp add: core_start_def)
  have wid: "wi_worker_id (wk_identity (sample_worker ''two'')) = ''w1''"
    and gen: "wi_generation (wk_identity (sample_worker ''two'')) = ''two''"
    by (simp_all add: sample_worker_def with_core_client_def worker_identity_new_def Let_def)
  have b: "is_char_boundary (''w1'' @ ''two'') (length ''w1'')" by (simp add: is_char_boundary_def byte_def)
  have parsed: "parse_worker_incarnation_id (worker_incarnation_id ''w1'' ''two'') = Some (''w1'', ''two'')"
    using b by (intro parse_incarnation) auto
  define s2 where "s2 = sample_beaten"
  note h = sample_heartbeat_ok [folded s2_def]
  have room: "ks_clock (rd_view calm_redis s2) + ttl_millis (plane_registry ''tw'' sample_ttl) < 2 ^ 63"
    by (simp add: s2_def plane_registry_sample redis_register_def register_script_def redis_heartbeat_def
        heartbeat_script_def calm_eval put_view_def)
  have "core_world (core_start sample_registered) = sample_registered" by (simp add: core_start_def)
  with h parsed have "report_heartbeat ?svc alone sample_clock
      (heartbeat_request (sample_worker ''two'') 1 5) (core_start sample_registered)
      = (Ok \<lparr>rhr_accepted = True\<rparr>, (core_start sample_registered)\<lparr>core_world := s2\<rparr>)"
    by (simp add: report_heartbeat_def heartbeat_request_def wid gen plane_service_def with_stores_def
        redis_worker_registry_def plane_registry_sample)
  then obtain c' where run: "report_heartbeat ?svc alone sample_clock (heartbeat_request (sample_worker ''two'') 1 5)
      (core_start sample_registered) = (Ok \<lparr>rhr_accepted = True\<rparr>, c')"
    and c': "core_world c' = s2" by simp
  from heartbeat_answer_is_membership [OF calm_redis_ok unary_wire_ok inv wid gen _ _ _ b run] run room c' calm_redis_reliable
  show ?thesis by (auto simp: plane_registry_sample Let_def)
qed

end
