(* ===== verification/Task_Lifecycle.thy ===== *)
theory Task_Lifecycle
  imports Core_System
begin

text \<open>
  The whole life of a task: the worker's gRPC client connected to the handlers of the control plane, and
  what becomes of a task from its submission to its result.
\<close>

section \<open>A worker connected to the control plane\<close>

text \<open>What the worker relies on from the gRPC transport: an endpoint that is served connects, and a call
  runs the handler of the service once and returns its answer. The handler reads its clocks when it runs.\<close>

definition serves :: "wire \<Rightarrow> 'w CoreExecutionService \<Rightarrow> 'w core remote \<Rightarrow> string \<Rightarrow> bool" where
  "serves W svc N endpoint \<longleftrightarrow>
     (\<forall>c. rm_connect N endpoint c = (Ok (), c))
   \<and> (\<forall>req c. \<exists>clk. rm_register_worker N endpoint req c = register_worker svc alone clk req c)
   \<and> (\<forall>req c. \<exists>clk. rm_report_heartbeat N endpoint req c = report_heartbeat svc alone clk req c)
   \<and> (\<forall>req c. \<exists>rts. rm_report_execution N endpoint req c = report_execution W svc alone alone alone rts req c)"

abbreviation client_of :: "'w core remote \<Rightarrow> string \<Rightarrow> 'w core CoreWorkerClient" where
  "client_of N endpoint \<equiv> grpc_client N \<lparr>gcc_endpoint = endpoint\<rparr>"

lemma served_report:
  assumes "serves W svc N endpoint"
  obtains rts where "cwc_report_execution (client_of N endpoint) report c
    = report_execution W svc alone alone alone rts report c"
proof -
  from assms obtain rts where "rm_report_execution N endpoint report c
      = report_execution W svc alone alone alone rts report c"
    unfolding serves_def by blast
  moreover have "rm_connect N endpoint c = (Ok (), c)" using assms by (simp add: serves_def)
  ultimately show thesis using that by (simp add: grpc_client_def grpc_report_execution_def)
qed

lemma report_accepted:
  assumes "report_execution W svc o1 o2 o3 rts report c = (Ok resp, c')"
  shows "rxr_accepted resp"
proof -
  from assms obtain st where st: "state_of_code W (rer_state report) = Some st"
    by (cases "state_of_code W (rer_state report)") (simp_all add: report_execution_def)
  obtain x s where g: "awaiting o1 (store_get (ces_execution_store svc) (rer_execution_id report)) c = (x, s)"
    by fastforce
  from assms st g obtain f where x: "x = Ok f" by (cases x) (simp_all add: report_execution_def)
  from assms st g x obtain r where "f = Some r" by (cases f) (simp_all add: report_execution_def)
  with assms st g x show ?thesis by (auto simp: report_execution_def Let_def try_call_eq_Ok)
qed

lemma forward_accepted:
  assumes "cwc_report_execution client report c = report_execution W svc o1 o2 o3 rts report c"
    and "report_execution W svc o1 o2 o3 rts report c = (Ok resp, c')"
  shows "forward client report c = (Ok (), c')"
  using assms report_accepted [OF assms(2)] by (simp add: forward_def)

lemma report_keeps_lock:
  assumes "report_execution W svc alone alone alone rts report c = (x, c')"
  shows "core_poisoned c' = core_poisoned c"
  using assms
  by (auto simp: report_execution_def finish_report_def mark_job_running_def store_job_result_def put_job_def
      Let_def try_call_def split: option.split_asm sum.split_asm prod.split_asm ExecutionState.split_asm if_split_asm)

section \<open>The events of a runtime\<close>

text \<open>A runtime ends an execution with a result or with a failure.\<close>

definition started_event :: "AssignExecutionRequest \<Rightarrow> u64 \<Rightarrow> RuntimeEvent" where
  "started_event a n = Some (Started \<lparr>es_assignment_id = aer_assignment_id a,
     es_execution_id = aer_execution_id a, es_sequence_number = n, es_observed_at = None\<rparr>)"

fun outcome_event :: "AssignExecutionRequest \<Rightarrow> u64 \<Rightarrow> ErrorInfo + JobResult \<Rightarrow> RuntimeEvent" where
  "outcome_event a n (Ok result) = Some (Completed \<lparr>ec_assignment_id = aer_assignment_id a,
     ec_execution_id = aer_execution_id a, ec_sequence_number = n, ec_result = Some result, ec_observed_at = None\<rparr>)"
| "outcome_event a n (Err failure) = Some (FailedEvent \<lparr>ef_assignment_id = aer_assignment_id a,
     ef_execution_id = aer_execution_id a, ef_sequence_number = n, ef_failure = Some failure, ef_observed_at = None\<rparr>)"

fun outcome_result :: "ErrorInfo + JobResult \<Rightarrow> JobResult" where
  "outcome_result (Ok result) = result"
| "outcome_result (Err failure) = JobResult_default\<lparr>jr_failure := Some failure\<rparr>"

fun outcome_state :: "ErrorInfo + JobResult \<Rightarrow> ExecutionState" where
  "outcome_state (Ok result) = Succeeded"
| "outcome_state (Err failure) = Failed"

fun proper_outcome :: "ErrorInfo + JobResult \<Rightarrow> bool" where
  "proper_outcome (Ok result) \<longleftrightarrow> jr_failure result = None"
| "proper_outcome (Err failure) \<longleftrightarrow> True"

lemma outcome_state_final: "outcome_state z = Succeeded \<or> outcome_state z = Failed"
  by (cases z) simp_all

lemma outcome_failure: "outcome_state z = Failed \<longrightarrow> jr_failure (outcome_result z) \<noteq> None"
  by (cases z) simp_all

text \<open>What the events do to the table and which report they make.\<close>

lemma started_event_handled:
  assumes "ps_assignments t (aer_assignment_id a) = Some r" and "ar_state r = AsgAssigned" and "ar_assignment r = a"
    and "ar_last_sequence_number r = None"
    and "forward client (report_for W st (aer_assignment_id a) (aer_execution_id a) n Running None None) c = (Ok (), c')"
  shows "handle_event W client st (started_event a n) (t, c)
    = (Ok (), put_record (aer_assignment_id a) (r\<lparr>ar_state := AsgRunning, ar_last_sequence_number := Some n,
         ar_started_at := Some (ev_instant st)\<rparr>) t, c')"
  using assms by (simp add: handle_event_def started_event_def started_def validate_def stale_def on_table_def)

lemma outcome_event_handled:
  assumes "ps_assignments t (aer_assignment_id a) = Some r" and "ar_state r = AsgRunning" and "ar_assignment r = a"
    and "ar_last_sequence_number r = Some m" and "m < n" and "ar_started_at r \<noteq> None" and "proper_outcome z"
    and "forward client (report_for W st (aer_assignment_id a) (aer_execution_id a) n (outcome_state z)
      (Some (outcome_result z)) None) c = (Ok (), c')"
  shows "\<exists>t' r'. handle_event W client st (outcome_event a n z) (t, c) = (Ok (), t', c')
    \<and> ps_assignments t' (aer_assignment_id a) = Some r' \<and> is_final (ar_state r')"
proof -
  have "\<not> n \<le> m" using assms(5) by simp
  with assms show ?thesis
    by (cases z) (auto simp: handle_event_def completed_def failed_def terminal_def validate_def stale_def
        on_table_def put_record_def is_final_def Let_def)
qed

context control_plane
begin

text \<open>The invariant along the calls of a handler.\<close>

abbreviation core_invar :: "'w core \<Rightarrow> bool" where
  "core_invar c \<equiv> invar (core_world c)"

lemma awaiting_invar:
  "invar (snd (call (core_world c))) \<Longrightarrow> core_invar (snd (awaiting alone call c))"
  by (cases "call (core_world c)") simp

lemma call_invars:
  assumes "core_invar c"
  shows "core_invar (snd (awaiting alone (store_get S i) c))"
    "core_invar (snd (awaiting alone (store_update_state S tm i st) c))"
    "core_invar (snd (awaiting alone (store_result P j jr) c))"
    "core_invar (snd (mark_job_running now j c))" "core_invar (snd (store_job_result now j jr c))"
  using exec.invar_get [OF assms] exec.invar_update [OF assms] res.invar_store [OF assms] assms
  by (simp_all add: awaiting_invar mark_job_running_def store_job_result_def put_job_def split: option.split
      del: awaiting_alone)

lemma finish_invar:
  assumes "core_invar c"
  shows "core_invar (snd (finish_report (service d) alone alone rts report st j jr c))"
  unfolding finish_report_def Let_def service_fields
  by (intro try_call_keeps [where I = core_invar] call_invars assms)

lemma report_invar:
  assumes "core_invar c"
  shows "core_invar (snd (report_execution W (service d) alone alone alone rts report c))"
proof (cases "state_of_code W (rer_state report)")
  case None
  with assms show ?thesis by (simp add: report_execution_def)
next
  case (Some st)
  have branch: "core_invar (snd (case st of
        Running \<Rightarrow> try_call f (awaiting alone (store_update_state S tm i st) c) (\<lambda>_ c. mark_job_running now j c)
      | Succeeded \<Rightarrow> (case z of None \<Rightarrow> (Err e1, c)
          | Some outcome \<Rightarrow> finish_report (service d) alone alone rts report st j outcome c)
      | Failed \<Rightarrow> (case z of None \<Rightarrow> (Err e1, c)
          | Some outcome \<Rightarrow> if jr_failure outcome = None then (Err e2, c)
              else finish_report (service d) alone alone rts report st j outcome c)
      | _ \<Rightarrow> (Err e3, c)))" if "core_invar c" for c z f tm i now j e1 e2 e3
    using that finish_invar [OF that] try_call_keeps [where I = core_invar, OF call_invars(2) [OF that] call_invars(4)]
    by (cases st; cases z) auto
  show ?thesis
    unfolding report_execution_def Some option.case Let_def service_fields
  proof (rule try_call_keeps [where I = core_invar], goal_cases)
    case 1
    show ?case by (rule call_invars(1) [OF assms])
  next
    case (2 found c1)
    show ?case
    proof (cases found)
      case None
      with 2 show ?thesis by simp
    next
      case (Some x)
      show ?thesis unfolding Some option.case
        by (rule try_call_keeps [where I = core_invar, OF branch [OF 2(2)]]) simp
    qed
  qed
qed

end

context reliable_control_plane
begin

text \<open>The control plane takes the report that an execution started, and its outcome.\<close>

lemma started_taken:
  assumes inv: "invar (core_world c)" and W: "wire_ok W" and srv: "serves W (service d) N ep"
    and x: "recs (core_world c) (rer_execution_id report) = Some x" and j: "core_jobs c (xr_job_id x) = Some job"
    and ok: "\<not> core_poisoned c" and st: "rer_state report = state_code W Running"
  shows "\<exists>(rts :: report_times) c'. forward (client_of N ep) report c = (Ok (), c') \<and> invar (core_world c') \<and> \<not> core_poisoned c'
    \<and> recs (core_world c') = (recs (core_world c))(rer_execution_id report \<mapsto> put_state Running (stamp (rt_store rts)) x)
    \<and> core_jobs c' = (core_jobs c)(xr_job_id x \<mapsto> running_record (rt_job rts) job)"
proof -
  obtain rts where rts: "cwc_report_execution (client_of N ep) report c
      = report_execution W (service d) alone alone alone rts report c"
    by (rule served_report [OF srv])
  have code: "state_of_code W (rer_state report) = Some Running" by (simp add: st wire_okD [OF W])
  from running_report_accepted [OF inv code x j ok] obtain resp c' where
    run: "report_execution W (service d) alone alone alone rts report c = (Ok resp, c')" by blast
  from report_running [OF inv run code] x j forward_accepted [OF rts run] report_invar [OF inv, of W d rts report, unfolded run]
    report_keeps_lock [OF run] ok
  show ?thesis by (intro exI [of _ rts] exI [of _ c']) auto
qed

lemma outcome_taken:
  assumes inv: "invar (core_world c)" and W: "wire_ok W" and srv: "serves W (service d) N ep"
    and x: "recs (core_world c) (rer_execution_id report) = Some x" and j: "core_jobs c (xr_job_id x) = Some job"
    and ok: "\<not> core_poisoned c" and st: "rer_state report = state_code W (outcome_state z)"
    and out: "rer_outcome report = Some (outcome_result z)"
  shows "\<exists>(rts :: report_times) c'. forward (client_of N ep) report c = (Ok (), c') \<and> invar (core_world c') \<and> \<not> core_poisoned c'
    \<and> (let outcome = (outcome_result z)\<lparr>jr_execution_id := rer_execution_id report\<rparr> in
      recs (core_world c') = (recs (core_world c))
        (rer_execution_id report \<mapsto> put_state (outcome_state z) (stamp (rt_store rts)) x)
    \<and> results (core_world c') = (results (core_world c))(xr_job_id x \<mapsto> enc outcome)
    \<and> core_jobs c' = (core_jobs c)(xr_job_id x \<mapsto> finished_record (rt_job rts) outcome job))"
proof -
  obtain rts where rts: "cwc_report_execution (client_of N ep) report c
      = report_execution W (service d) alone alone alone rts report c"
    by (rule served_report [OF srv])
  have code: "state_of_code W (rer_state report) = Some (outcome_state z)" by (simp add: st wire_okD [OF W])
  from terminal_report_accepted [OF inv code outcome_state_final out outcome_failure x j ok] obtain resp c' where
    run: "report_execution W (service d) alone alone alone rts report c = (Ok resp, c')" by blast
  from report_terminal [OF inv run code outcome_state_final] x j out
  have "recs (core_world c') = (recs (core_world c))
        (rer_execution_id report \<mapsto> put_state (outcome_state z) (stamp (rt_store rts)) x)"
    "results (core_world c') = (results (core_world c))
        (xr_job_id x \<mapsto> enc ((outcome_result z)\<lparr>jr_execution_id := rer_execution_id report\<rparr>))"
    "core_jobs c' = (core_jobs c)(xr_job_id x \<mapsto>
        finished_record (rt_job rts) ((outcome_result z)\<lparr>jr_execution_id := rer_execution_id report\<rparr>) job)"
    by auto
  with forward_accepted [OF rts run] report_invar [OF inv, of W d rts report, unfolded run] report_keeps_lock [OF run] ok show ?thesis
    by (intro exI [of _ rts] exI [of _ c']) (simp add: Let_def)
qed

text \<open>A runtime that was handed an assignment starts it and ends it: both events are taken, and the job
  has the outcome.\<close>

lemma execution_completes:
  assumes inv: "invar (core_world c)" and W: "wire_ok W" and srv: "serves W (service d) N ep"
    and x: "recs (core_world c) (aer_execution_id a) = Some x" "xr_job_id x = aer_job_id a"
    and j: "core_jobs c (aer_job_id a) = Some job" and ok: "\<not> core_poisoned c"
    and t: "ps_assignments t (aer_assignment_id a) = Some r" "ar_state r = AsgAssigned" "ar_assignment r = a"
      "ar_last_sequence_number r = None"
    and z: "proper_outcome z" and n: "m < n"
  shows "\<exists>t1 c1 t2 c2 r2 x2 job2. handle_event W (client_of N ep) st1 (started_event a m) (t, c) = (Ok (), t1, c1)
    \<and> handle_event W (client_of N ep) st2 (outcome_event a n z) (t1, c1) = (Ok (), t2, c2)
    \<and> ps_assignments t2 (aer_assignment_id a) = Some r2 \<and> is_final (ar_state r2)
    \<and> recs (core_world c2) (aer_execution_id a) = Some x2 \<and> xr_state x2 = outcome_state z
    \<and> results (core_world c2) (aer_job_id a) = Some (enc ((outcome_result z)\<lparr>jr_execution_id := aer_execution_id a\<rparr>))
    \<and> core_jobs c2 (aer_job_id a) = Some job2
    \<and> job_state (jrec_job job2) = (if is_ok z then JobSucceeded else JobFailed)
    \<and> jrec_result job2 = Some ((outcome_result z)\<lparr>jr_execution_id := aer_execution_id a\<rparr>)
    \<and> \<not> core_poisoned c2"
proof -
  let ?rep1 = "report_for W st1 (aer_assignment_id a) (aer_execution_id a) m Running None None"
  let ?rep2 = "report_for W st2 (aer_assignment_id a) (aer_execution_id a) n (outcome_state z)
    (Some (outcome_result z)) None"
  have f1: "rer_execution_id ?rep1 = aer_execution_id a" "rer_state ?rep1 = state_code W Running"
    and f2: "rer_execution_id ?rep2 = aer_execution_id a" "rer_state ?rep2 = state_code W (outcome_state z)"
      "rer_outcome ?rep2 = Some (outcome_result z)"
    by (simp_all add: report_for_def)
  from started_taken [OF inv W srv, of ?rep1 x job] x j ok f1 obtain rts :: report_times and c1 where
    c1: "forward (client_of N ep) ?rep1 c = (Ok (), c1)" "invar (core_world c1)" "\<not> core_poisoned c1"
      "recs (core_world c1) (aer_execution_id a) = Some (put_state Running (stamp (rt_store rts)) x)"
      "core_jobs c1 (aer_job_id a) = Some (running_record (rt_job rts) job)"
    by auto
  let ?x1 = "put_state Running (stamp (rt_store rts)) x"
  let ?r1 = "r\<lparr>ar_state := AsgRunning, ar_last_sequence_number := Some m, ar_started_at := Some (ev_instant st1)\<rparr>"
  define t1 where "t1 = put_record (aer_assignment_id a) ?r1 t"
  have e1: "handle_event W (client_of N ep) st1 (started_event a m) (t, c) = (Ok (), t1, c1)"
    unfolding t1_def by (rule started_event_handled [OF t c1(1)])
  have r1: "ps_assignments t1 (aer_assignment_id a) = Some ?r1" by (simp add: t1_def put_record_def)
  have x1: "xr_job_id ?x1 = aer_job_id a" by (simp add: put_state_def x(2))
  from outcome_taken [OF c1(2) W srv, of ?rep2 ?x1 "running_record (rt_job rts) job" z] c1 f2 x1
  obtain rts2 :: report_times and c2 where
    c2: "forward (client_of N ep) ?rep2 c1 = (Ok (), c2)" "\<not> core_poisoned c2"
      "recs (core_world c2) (aer_execution_id a) = Some (put_state (outcome_state z) (stamp (rt_store rts2)) ?x1)"
      "results (core_world c2) (aer_job_id a) = Some (enc ((outcome_result z)\<lparr>jr_execution_id := aer_execution_id a\<rparr>))"
      "core_jobs c2 (aer_job_id a) = Some (finished_record (rt_job rts2)
         ((outcome_result z)\<lparr>jr_execution_id := aer_execution_id a\<rparr>) (running_record (rt_job rts) job))"
    by (auto simp: Let_def)
  from outcome_event_handled [OF r1 _ _ _ n _ z, of "client_of N ep" W st2 c1 c2] c2(1) t(3) obtain t2 r2 where
    e2: "handle_event W (client_of N ep) st2 (outcome_event a n z) (t1, c1) = (Ok (), t2, c2)"
      "ps_assignments t2 (aer_assignment_id a) = Some r2" "is_final (ar_state r2)"
    by auto
  have "job_state (jrec_job (finished_record (rt_job rts2) ((outcome_result z)\<lparr>jr_execution_id := aer_execution_id a\<rparr>) q))
      = (if is_ok z then JobSucceeded else JobFailed)" for q
    using z by (cases z) (simp_all add: finished_record_def)
  with e1 e2 c2 show ?thesis
    by (intro exI [of _ t1] exI [of _ c1] exI [of _ t2] exI [of _ c2] exI [of _ r2] exI conjI)
      (auto simp: put_state_def finished_record_def)
qed

text \<open>From the submission to the outcome.\<close>

lemma task_completes:
  assumes inv: "invar (core_world c)" and W: "wire_ok W" and d: "task_queue d" and ok: "\<not> core_poisoned c"
    and idle: "\<And>q. queue (core_world c) q = []" and new: "recs (core_world c) (fr_execution_id fr) = None"
    and ids: "\<not> blank (fr_assignment_id fr)" "\<not> blank (fr_execution_id fr)"
    and table: "ps_queue t = []" "ps_assignments t (fr_assignment_id fr) = None"
    and srv: "serves W (service d) N ep" and z: "proper_outcome z" and n: "m < n"
  shows "\<exists>resp c1. accept W (service d) alone alone sub req c = (Ok resp, c1)
    \<and> (\<forall>i ids w1 wk. dir_available_workers G (fr_clock fr) (core_world c1) = Some (Ok (i # ids), w1) \<longrightarrow>
         wk_broker wk = B \<longrightarrow> wk_destination wk = worker_destination i \<longrightarrow>
         (let a = build_assignment fr (sub_job_id sub) req;
              outcome = (outcome_result z)\<lparr>jr_execution_id := fr_execution_id fr\<rparr> in
          \<exists>w2 t1 w3 t2 t3 c3 t4 c4 resp4 job.
            schedule_one W (the_scheduler d) fr (core_world c1) = Some (Ok (AssignedDecision i a), w2)
          \<and> execute_one W wk (t, w2) = Some (Ok a, t1, w3) \<and> next_for session t1 = (Some (Ok a), t2)
          \<and> handle_event W (client_of N ep) st1 (started_event a m) (t2, c1\<lparr>core_world := w3\<rparr>) = (Ok (), t3, c3)
          \<and> handle_event W (client_of N ep) st2 (outcome_event a n z) (t3, c3) = (Ok (), t4, c4)
          \<and> get_job (sub_job_id sub) c4 = Ok resp4 \<and> gjr_job resp4 = Some job
          \<and> job_state job = (if is_ok z then JobSucceeded else JobFailed) \<and> gjr_result resp4 = Some outcome
          \<and> results (core_world c4) (sub_job_id sub) = Some (enc outcome)))"
proof -
  let ?a = "build_assignment fr (sub_job_id sub) req"
  have a: "aer_assignment_id ?a = fr_assignment_id fr" "aer_execution_id ?a = fr_execution_id fr"
      "aer_job_id ?a = sub_job_id sub" by (simp_all add: build_assignment_def)
  from task_reaches_runtime [OF inv W d ok idle idle new ids table, of sub req, unfolded Let_def]
  obtain resp c1 where acc: "accept W (service d) alone alone sub req c = (Ok resp, c1)"
    and jobs: "core_jobs c1 (sub_job_id sub) = Some \<lparr>jrec_job = accepted_job sub req, jrec_result = None\<rparr>"
    and lock: "\<not> core_poisoned c1"
    and rest: "\<And>i ids w1 wk. dir_available_workers G (fr_clock fr) (core_world c1) = Some (Ok (i # ids), w1) \<Longrightarrow>
         wk_broker wk = B \<Longrightarrow> wk_destination wk = worker_destination i \<Longrightarrow>
         \<exists>w2 t1 w3. schedule_one W (the_scheduler d) fr (core_world c1) = Some (Ok (AssignedDecision i ?a), w2)
          \<and> execute_one W wk (t, w2) = Some (Ok ?a, t1, w3) \<and> ps_queue t1 = [fr_assignment_id fr]
          \<and> ps_assignments t1 (fr_assignment_id fr) = Some (new_record ?a)
          \<and> invar w3 \<and> recs w3 (fr_execution_id fr) = Some (stored (build_execution fr i ?a))"
    by blast
  show ?thesis unfolding Let_def
  proof (rule exI, rule exI, rule conjI, rule acc, intro allI impI, goal_cases)
    case (1 i ids w1 wk)
    from rest [OF this] obtain w2 t1 w3 where
      s: "schedule_one W (the_scheduler d) fr (core_world c1) = Some (Ok (AssignedDecision i ?a), w2)"
      and e: "execute_one W wk (t, w2) = Some (Ok ?a, t1, w3)"
      and t1: "ps_queue t1 = [fr_assignment_id fr]" "ps_assignments t1 (fr_assignment_id fr) = Some (new_record ?a)"
      and w3: "invar w3" "recs w3 (fr_execution_id fr) = Some (stored (build_execution fr i ?a))" by blast
    let ?c = "c1\<lparr>core_world := w3\<rparr>" and ?r = "(new_record ?a)\<lparr>ar_state := AsgAssigned, ar_session_id := Some session\<rparr>"
    obtain t2 where t2: "next_for session t1 = (Some (Ok ?a), t2)"
        "ps_assignments t2 (aer_assignment_id ?a) = Some ?r"
      using t1 a by (simp add: next_for_def new_record_def)
    have r: "ar_state ?r = AsgAssigned" "ar_assignment ?r = ?a" "ar_last_sequence_number ?r = None"
      by (simp_all add: new_record_def)
    have x: "recs (core_world ?c) (aer_execution_id ?a) = Some (stored (build_execution fr i ?a))"
        "xr_job_id (stored (build_execution fr i ?a)) = aer_job_id ?a"
      using w3 a by (simp_all add: exec.stored_ids) (simp add: build_execution_def)
    have c: "invar (core_world ?c)" "\<not> core_poisoned ?c"
        "core_jobs ?c (aer_job_id ?a) = Some \<lparr>jrec_job = accepted_job sub req, jrec_result = None\<rparr>"
      using w3 lock jobs a by simp_all
    from execution_completes [OF c(1) W srv x c(3,2) t2(2) r z n, of st1 st2, unfolded a]
    obtain t3 c3 t4 c4 job where
      h: "handle_event W (client_of N ep) st1 (started_event ?a m) (t2, ?c) = (Ok (), t3, c3)"
        "handle_event W (client_of N ep) st2 (outcome_event ?a n z) (t3, c3) = (Ok (), t4, c4)"
      and f: "results (core_world c4) (sub_job_id sub)
          = Some (enc ((outcome_result z)\<lparr>jr_execution_id := fr_execution_id fr\<rparr>))"
        "core_jobs c4 (sub_job_id sub) = Some job" "job_state (jrec_job job) = (if is_ok z then JobSucceeded else JobFailed)"
        "jrec_result job = Some ((outcome_result z)\<lparr>jr_execution_id := fr_execution_id fr\<rparr>)" "\<not> core_poisoned c4"
      by blast
    from f have "get_job (sub_job_id sub) c4 = Ok \<lparr>gjr_job = Some (jrec_job job), gjr_result = jrec_result job\<rparr>"
      by (simp add: get_job_def)
    with s e t2(1) h f show ?case
      by (intro exI [of _ w2] exI [of _ t1] exI [of _ w3] exI [of _ t2] exI [of _ t3] exI [of _ c3] exI [of _ t4]
          exI [of _ c4] exI [of _ "\<lparr>gjr_job = Some (jrec_job job), gjr_result = jrec_result job\<rparr>"]
          exI [of _ "jrec_job job"] conjI) simp_all
  qed
qed

end

section \<open>Over Redis\<close>

context reliable_deployment
begin

lemmas redis_task_completes = rplane.task_completes [where W = W, folded plane_service_def redis_scheduler_def,
  unfolded task_queue_iff redis_worker_registry_def WorkerDirectory.select_convs, folded redis_worker_registry_def]

end

text \<open>C1. A submitted task is carried out and its outcome reaches the client: over a reliable connection,
  with idle queues, the submission is accepted; the next scheduling step that lists a worker assigns the
  task to the first one; that worker takes the assignment into its table; the next runtime session to ask
  is handed it, with the job, the task and the arguments that were submitted; the control plane takes the
  events by which the runtime starts it and ends it, with a result or with a failure; and the client then
  finds the job succeeded or failed with exactly that outcome, which is also what the result backend
  holds.\<close>

theorem submitted_task_completes:
  assumes "redis_ok R" and "wire_ok W" and "reliable R" and "plane_inv W p ttl (rd_view R (core_world c))"
    and "task_destination d" and "\<not> core_poisoned c"
    and "\<And>q. plane_queue W p (rd_view R (core_world c)) q = []"
    and "exec_recs W (plane_store p) (rd_view R (core_world c)) (fr_execution_id fr) = None"
    and "\<not> blank (fr_assignment_id fr)" and "\<not> blank (fr_execution_id fr)"
    and "ps_queue t = []" and "ps_assignments t (fr_assignment_id fr) = None"
    and "serves W (plane_service R W p ttl d) N ep" and "proper_outcome z" and "m < n"
  shows "\<exists>resp c1. submit_task W (plane_service R W p ttl d) alone alone sub req c = (Ok resp, c1)
    \<and> (\<forall>i ids s1 wk.
         redis_available_workers R W (plane_registry p ttl) (fr_clock fr) (core_world c1) = Some (Ok (i # ids), s1) \<longrightarrow>
         wk_broker wk = redis_broker R W (plane_broker p) \<longrightarrow> wk_destination wk = worker_destination i \<longrightarrow>
         (\<exists>a s2 t1 s3 t2 t3 c3 t4 c4 resp4 job.
            schedule_one W (redis_scheduler R W p ttl d) fr (core_world c1) = Some (Ok (AssignedDecision i a), s2)
          \<and> execute_one W wk (t, s2) = Some (Ok a, t1, s3) \<and> next_for session t1 = (Some (Ok a), t2)
          \<and> aer_job_id a = sub_job_id sub \<and> aer_arguments a = str_arguments req
          \<and> aer_serialization_format a = str_serialization_format req
          \<and> (\<forall>task. str_task req = Some task \<longrightarrow> aer_task a = Some task)
          \<and> (str_task req = None \<longrightarrow> (\<exists>task. aer_task a = Some task \<and> ti_name task = str_task_name req))
          \<and> handle_event W (client_of N ep) st1 (started_event a m) (t2, c1\<lparr>core_world := s3\<rparr>) = (Ok (), t3, c3)
          \<and> handle_event W (client_of N ep) st2 (outcome_event a n z) (t3, c3) = (Ok (), t4, c4)
          \<and> get_job (sub_job_id sub) c4 = Ok resp4 \<and> gjr_job resp4 = Some job
          \<and> job_state job = (if is_ok z then JobSucceeded else JobFailed)
          \<and> gjr_result resp4 = Some ((outcome_result z)\<lparr>jr_execution_id := aer_execution_id a\<rparr>)
          \<and> result_map (plane_results p) (rd_view R (core_world c4)) (sub_job_id sub)
            = Some (encode_result W ((outcome_result z)\<lparr>jr_execution_id := aer_execution_id a\<rparr>))))"
proof -
  let ?a = "build_assignment fr (sub_job_id sub) req"
  have data: "aer_job_id ?a = sub_job_id sub" "aer_arguments ?a = str_arguments req"
      "aer_execution_id ?a = fr_execution_id fr" "aer_serialization_format ?a = str_serialization_format req"
      "\<And>task. str_task req = Some task \<Longrightarrow> aer_task ?a = Some task"
      "str_task req = None \<Longrightarrow> \<exists>task. aer_task ?a = Some task \<and> ti_name task = str_task_name req"
    by (simp_all add: build_assignment_def)
  from reliable_deployment.redis_task_completes [OF reliable_deploymentI [OF assms(1-3)] assms(4,2,5-15),
      of sub req session st1 st2, unfolded Let_def]
  obtain resp c1 where acc: "accept W (plane_service R W p ttl d) alone alone sub req c = (Ok resp, c1)"
    and rest: "\<And>i ids s1 wk.
       redis_available_workers R W (plane_registry p ttl) (fr_clock fr) (core_world c1) = Some (Ok (i # ids), s1) \<Longrightarrow>
       wk_broker wk = redis_broker R W (plane_broker p) \<Longrightarrow> wk_destination wk = worker_destination i \<Longrightarrow>
       \<exists>s2 t1 s3 t2 t3 c3 t4 c4 resp4 job.
            schedule_one W (redis_scheduler R W p ttl d) fr (core_world c1) = Some (Ok (AssignedDecision i ?a), s2)
          \<and> execute_one W wk (t, s2) = Some (Ok ?a, t1, s3) \<and> next_for session t1 = (Some (Ok ?a), t2)
          \<and> handle_event W (client_of N ep) st1 (started_event ?a m) (t2, c1\<lparr>core_world := s3\<rparr>) = (Ok (), t3, c3)
          \<and> handle_event W (client_of N ep) st2 (outcome_event ?a n z) (t3, c3) = (Ok (), t4, c4)
          \<and> get_job (sub_job_id sub) c4 = Ok resp4 \<and> gjr_job resp4 = Some job
          \<and> job_state job = (if is_ok z then JobSucceeded else JobFailed)
          \<and> gjr_result resp4 = Some ((outcome_result z)\<lparr>jr_execution_id := fr_execution_id fr\<rparr>)
          \<and> result_map (plane_results p) (rd_view R (core_world c4)) (sub_job_id sub)
            = Some (encode_result W ((outcome_result z)\<lparr>jr_execution_id := fr_execution_id fr\<rparr>))"
    by blast
  show ?thesis unfolding submit_task_def
  proof (rule exI, rule exI, rule conjI, rule acc, intro allI impI, goal_cases)
    case (1 i ids s1 wk)
    from rest [OF this] show ?case
    proof (elim exE conjE, goal_cases)
      case (1 s2 t1 s3 t2 t3 c3 t4 c4 resp4 job)
      show ?case unfolding data(3)
        by (intro exI [of _ ?a] exI [of _ s2] exI [of _ t1] exI [of _ s3] exI [of _ t2] exI [of _ t3]
            exI [of _ c3] exI [of _ t4] exI [of _ c4] exI [of _ resp4] exI [of _ job] conjI allI impI)
          (fact 1 data(1,2,4) | unfold data(3), fact 1 | rule data, assumption)+
    qed
  qed
qed

text \<open>The system after the sample submission still lists its worker.\<close>

lemma calm_store_result:
  assumes "later (ks_clock (ref_view s)) (ref_view s) = ref_view s"
  shows "redis_store_result calm_redis W c j r s
    = (Ok (), put_view (set_effect (result_key c j) (encode_result W r) (ref_view s)) s)"
  using assms
  by (simp add: redis_store_result_def connect_def request_def calm_redis_def reference_redis_def put_view_def)

lemma sample_submitted_listing:
  assumes "submit_task unary_wire (plane_service calm_redis unary_wire ''tw'' sample_ttl ''tasks'') alone alone
     (sample_submission ''j1'') sample_request (core_start sample_registered) = (Ok resp, c1)"
  shows "\<exists>s1. redis_available_workers calm_redis unary_wire sample_registry sample_clock (core_world c1)
    = Some (Ok [''w1''], s1)"
proof -
  let ?e = "task_envelope unary_wire (plane_service calm_redis unary_wire ''tw'' sample_ttl ''tasks'')
    (sample_submission ''j1'') sample_request"
  have d: "be_destination ?e = ''tasks''" by (simp add: task_envelope_def plane_service_def with_stores_def)
  define s where "s = waiting_with ?e"
  have pub: "redis_publish calm_redis unary_wire (plane_broker ''tw'') ?e sample_registered = (Ok (), s)"
    unfolding s_def by (rule waiting_ok [OF d])
  note view = waiting_view [OF d, folded s_def]
  have same: "later (ks_clock (ref_view s)) (ref_view s) = ref_view s"
    by (intro keyspace.equality) (auto simp: later_def Let_def view sample_registered_view fun_eq_iff)
  have "core_world c1 = put_view (set_effect (result_key (plane_results ''tw'') ''j1'')
      (encode_result unary_wire (accepted_result unary_wire)) (ref_view s)) s"
    using assms pub calm_store_result [OF same]
    by (auto simp: submit_task_def accept_def core_start_def put_job_def Let_def plane_service_def
        with_stores_def redis_broker_def redis_result_backend_def sample_submission_def)
  then have v: "ref_view (core_world c1) = set_effect ''tw:results:j1''
      (encode_result unary_wire (accepted_result unary_wire)) (ref_view s)"
    by (simp add: result_key_def plane_results_def)
  have "redis_available_workers calm_redis unary_wire sample_registry sample_clock (core_world c1)
      = Some (Ok [''w1''], core_world c1)"
    by (rule calm_listing) (auto simp: v set_effect_def view sample_registered_view sample_worker_key
        split: if_splits)
  then show ?thesis by blast
qed

text \<open>A transport that calls the handlers in place, with fixed clock readings.\<close>

definition direct_remote :: "wire \<Rightarrow> 'w CoreExecutionService \<Rightarrow> clock \<Rightarrow> report_times \<Rightarrow> 'w core remote" where
  "direct_remote W svc clk rts =
     \<lparr>rm_connect = (\<lambda>_ c. (Ok (), c)),
      rm_register_worker = (\<lambda>_ req c. register_worker svc alone clk req c),
      rm_report_heartbeat = (\<lambda>_ req c. report_heartbeat svc alone clk req c),
      rm_report_execution = (\<lambda>_ req c. report_execution W svc alone alone alone rts req c)\<rparr>"

lemma direct_remote_serves: "serves W svc (direct_remote W svc clk rts) ep"
  by (auto simp: serves_def direct_remote_def)

lemma sample_worker_fields:
  "wk_broker (sample_worker g) = redis_broker calm_redis unary_wire (plane_broker ''tw'')"
  "wk_destination (sample_worker g) = worker_destination ''w1''"
  by (simp_all add: sample_worker_def with_core_client_def worker_identity_new_def Let_def)

lemma sample_idle:
  "plane_inv unary_wire ''tw'' sample_ttl (rd_view calm_redis (core_world (core_start sample_registered)))"
  "plane_queue unary_wire ''tw'' (rd_view calm_redis (core_world (core_start sample_registered))) q = []"
  "exec_recs unary_wire (plane_store ''tw'') (rd_view calm_redis (core_world (core_start sample_registered)))
    (fr_execution_id sample_fresh) = None"
  using sample_registered_inv by (simp_all add: core_start_def)

lemma sample_fresh_ids:
  "\<not> blank (fr_assignment_id sample_fresh)" "\<not> blank (fr_execution_id sample_fresh)"
  by (simp_all add: sample_fresh_def blank_def trim_id byte_def ws1_def ws2_def)

theorem submitted_task_completes_witness:
  "\<exists>resp c1 a s2 t1 s3 t2 t3 c3 t4 c4 resp4 job.
     submit_task unary_wire (plane_service calm_redis unary_wire ''tw'' sample_ttl ''tasks'') alone alone
       (sample_submission ''j1'') sample_request (core_start sample_registered) = (Ok resp, c1)
   \<and> schedule_one unary_wire (redis_scheduler calm_redis unary_wire ''tw'' sample_ttl ''tasks'') sample_fresh
       (core_world c1) = Some (Ok (AssignedDecision ''w1'' a), s2)
   \<and> execute_one unary_wire (sample_worker ''two'') (pe_default, s2) = Some (Ok a, t1, s3)
   \<and> next_for ''s'' t1 = (Some (Ok a), t2)
   \<and> (let client = client_of (direct_remote unary_wire
            (plane_service calm_redis unary_wire ''tw'' sample_ttl ''tasks'') sample_clock \<lparr>rt_store = 5, rt_job = 5\<rparr>)
            ''http://127.0.0.1:50051'';
          st = \<lparr>ev_instant = 0, ev_report_id = ''r'', ev_now = 0\<rparr> in
      handle_event unary_wire client st (started_event a 1) (t2, c1\<lparr>core_world := s3\<rparr>) = (Ok (), t3, c3)
    \<and> handle_event unary_wire client st (outcome_event a 2 (Ok JobResult_default)) (t3, c3) = (Ok (), t4, c4))
   \<and> get_job ''j1'' c4 = Ok resp4 \<and> gjr_job resp4 = Some job \<and> job_state job = JobSucceeded"
proof -
  let ?svc = "plane_service calm_redis unary_wire ''tw'' sample_ttl ''tasks''"
  let ?N = "direct_remote unary_wire ?svc sample_clock \<lparr>rt_store = 5, rt_job = 5\<rparr>"
  let ?st = "\<lparr>ev_instant = 0, ev_report_id = ''r'', ev_now = 0\<rparr> :: event_stamp"
  have c: "\<not> core_poisoned (core_start sample_registered)" by (simp add: core_start_def)
  have t: "ps_queue pe_default = []" "ps_assignments pe_default (fr_assignment_id sample_fresh) = None"
    by (simp_all add: pe_default_def)
  have z: "proper_outcome (Ok JobResult_default)" by (simp add: JobResult_default_def)
  have n: "(1 :: u64) < 2" by simp
  from submitted_task_completes [OF calm_redis_ok unary_wire_ok calm_redis_reliable sample_idle(1) free_tasks(2) c
      sample_idle(2,3) sample_fresh_ids t direct_remote_serves z n, of "sample_submission ''j1''" sample_request "''s''"
      sample_clock "\<lparr>rt_store = 5, rt_job = 5\<rparr>" "''http://127.0.0.1:50051''" ?st ?st]
  show ?thesis
  proof (elim exE conjE, goal_cases)
    case (1 resp c1)
    obtain s1 where l: "redis_available_workers calm_redis unary_wire (plane_registry ''tw'' sample_ttl)
        (fr_clock sample_fresh) (core_world c1) = Some (Ok (''w1'' # []), s1)"
      using sample_submitted_listing [OF 1(1)] by (auto simp: plane_registry_sample sample_fresh_def)
    have j: "sub_job_id (sample_submission ''j1'') = ''j1''" by (simp add: sample_submission_def)
    note sub = 1(1)
    from 1(2) [rule_format, OF l sample_worker_fields [of "''two''"]] show ?case
    proof (elim exE conjE, goal_cases)
      case (1 a s2 t1 s3 t2 t3 c3 t4 c4 resp4 job)
      have ok: "(if is_ok (Ok JobResult_default) then JobSucceeded else JobFailed) = JobSucceeded" by simp
      show ?case unfolding Let_def
        by (intro exI [of _ resp] exI [of _ c1] exI [of _ a] exI [of _ s2] exI [of _ t1] exI [of _ s3] exI [of _ t2]
            exI [of _ t3] exI [of _ c3] exI [of _ t4] exI [of _ c4] exI [of _ resp4] exI [of _ job] conjI)
          (fact sub 1 | fact 1 [unfolded j ok])+
    qed
  qed
qed

end
