(* ===== verification/Submission_Races.thy ===== *)
theory Submission_Races
  imports Task_Lifecycle
begin

text \<open>
  Submissions under interference: what becomes of an outcome that arrives before the submission has stored
  its accepted command.
\<close>

section \<open>A result that is overwritten\<close>

context redis_deployment
begin

lemmas redis_report_inv = plane.report_invar [where W = W, folded plane_service_def]

lemma redis_store_effect:
  assumes "plane_inv W p ttl (rd_view R s)" and "store_result (redis_result_backend R W (plane_results p)) j r s = (Ok (), s')"
  shows "result_map (plane_results p) (rd_view R s')
    = (result_map (plane_results p) (rd_view R s))(j \<mapsto> encode_result W r)"
  using plane.res.store_ok [OF assms] .

end

text \<open>A submission during which the rest of the system acts before the accepted command is stored.\<close>

lemma submit_interleaved:
  assumes "\<not> core_poisoned c"
    and "broker_publish (ces_broker svc) (task_envelope W svc sub req) (core_world c) = (Ok (), w)"
    and "before ((put_job (sub_job_id sub) \<lparr>jrec_job = accepted_job sub req, jrec_result = None\<rparr> c)\<lparr>core_world := w\<rparr>) = c1"
    and "store_result (ces_result_backend svc) (sub_job_id sub) (accepted_result W) (core_world c1) = (x, w1)"
  shows "submit_task W svc alone (before, \<lambda>c. c) sub req c =
    (case x of Err _ \<Rightarrow> Err (Status Unavailable ''result backend is unavailable'')
       | Ok _ \<Rightarrow> Ok \<lparr>stres_job = Some (accepted_job sub req), stres_result = Some accepted_command\<rparr>,
     c1\<lparr>core_world := w1\<rparr>)"
proof -
  let ?c = "put_job (sub_job_id sub) \<lparr>jrec_job = accepted_job sub req, jrec_result = None\<rparr> c"
  have world: "core_world ?c = core_world c" by (simp add: put_job_def)
  have "awaiting (before, \<lambda>c. c) (store_result (ces_result_backend svc) (sub_job_id sub) (accepted_result W)) (?c\<lparr>core_world := w\<rparr>)
      = (x, c1\<lparr>core_world := w1\<rparr>)"
    using assms(3,4) by (simp add: awaiting_Pair)
  with assms(1,2) world show ?thesis by (cases x) (simp_all add: submit_task_def accept_def Let_def)
qed

lemma plane_service_fields [simp]:
  "ces_broker (plane_service R W p ttl d) = redis_broker R W (plane_broker p)"
  "ces_result_backend (plane_service R W p ttl d) = redis_result_backend R W (plane_results p)"
  by (simp_all add: plane_service_def with_stores_def)

text \<open>An outcome that arrives early is overwritten in the result backend: when the job has finished
  between the publication of its task and the write of the accepted command, the submission is answered
  as accepted and the job keeps its outcome, but the result backend holds the accepted command under the job
  and not the outcome.\<close>

lemma accepted_result_overwrites_outcome:
  assumes "redis_ok R" and "wire_ok W"
    and "submit_task W (plane_service R W p ttl d) alone (before, \<lambda>c. c) sub req c = (Ok resp, c')"
    and "broker_publish (redis_broker R W (plane_broker p)) (task_envelope W (plane_service R W p ttl d) sub req)
      (core_world c) = (Ok (), w)"
    and "before ((put_job (sub_job_id sub) \<lparr>jrec_job = accepted_job sub req, jrec_result = None\<rparr> c)\<lparr>core_world := w\<rparr>) = c1"
    and "plane_inv W p ttl (rd_view R (core_world c1))" and "\<not> core_poisoned c1"
    and "core_jobs c1 (sub_job_id sub) = Some job" and "jrec_result job = Some outcome"
  shows "get_job (sub_job_id sub) c' = Ok \<lparr>gjr_job = Some (jrec_job job), gjr_result = Some outcome\<rparr>
    \<and> result_map (plane_results p) (rd_view R (core_world c'))
      = (result_map (plane_results p) (rd_view R (core_world c1)))(sub_job_id sub \<mapsto> encode_result W (accepted_result W))"
proof -
  obtain x w1 where x: "store_result (redis_result_backend R W (plane_results p)) (sub_job_id sub) (accepted_result W)
      (core_world c1) = (x, w1)" by fastforce
  have "\<not> core_poisoned c" using assms(3) by (auto simp: submit_task_def accept_def)
  from submit_interleaved [where svc = "plane_service R W p ttl d" and before = before, OF this, unfolded plane_service_fields, OF assms(4,5) x] assms(3)
  have ok: "x = Ok ()" "c' = c1\<lparr>core_world := w1\<rparr>" by (cases x; simp)+
  from redis_deployment.redis_store_effect [OF redis_deployment.intro [OF assms(1,2)] assms(6) x [unfolded ok(1)]] ok(2) assms(7-9)
  show ?thesis by (simp add: get_job_def)
qed

text \<open>The scheduler takes the sample task as soon as it is published, and its worker is done at once.\<close>

definition sample_haste :: "reference_state core \<Rightarrow> reference_state core" where
  "sample_haste c =
     snd (report_execution unary_wire (plane_service calm_redis unary_wire ''tw'' sample_ttl ''tasks'')
       alone alone alone \<lparr>rt_store = 5, rt_job = 5\<rparr> (sample_report Succeeded (Some JobResult_default))
       (case schedule_one unary_wire (redis_scheduler calm_redis unary_wire ''tw'' sample_ttl ''tasks'') sample_fresh
          (core_world c) of Some (_, s) \<Rightarrow> c\<lparr>core_world := s\<rparr> | None \<Rightarrow> c))"

lemma sample_hasty:
  fixes c :: "reference_state core" and e :: BrokerEnvelope
  assumes "core_world c = waiting_with e" and "be_destination e = ''tasks''"
    and "decode_submit unary_wire (be_payload e) = Ok req" and "be_correlation_id e = Some ''j1''"
    and "core_jobs c ''j1'' = Some job" and "\<not> core_poisoned c"
  shows "plane_inv unary_wire ''tw'' sample_ttl (rd_view calm_redis (core_world (sample_haste c)))"
    "\<not> core_poisoned (sample_haste c)"
    "\<exists>job. core_jobs (sample_haste c) ''j1'' = Some job \<and> job_state (jrec_job job) = JobSucceeded
      \<and> jrec_result job = Some (JobResult_default\<lparr>jr_execution_id := ''x1''\<rparr>)"
proof -
  let ?svc = "plane_service calm_redis unary_wire ''tw'' sample_ttl ''tasks''"
  let ?sch = "redis_scheduler calm_redis unary_wire ''tw'' sample_ttl ''tasks''"
  note inv = waiting_inv [OF assms(2)]
  obtain a s where step: "schedule_one unary_wire ?sch sample_fresh (waiting_with e) = Some (Ok (AssignedDecision ''w1'' a), s)"
    using calm.redis_progress [OF inv(1) free_tasks(1) inv(2) assms(3) inv(3) [of "fr_execution_id sample_fresh"]]
      waiting_listing [OF assms(2)]
    by (auto simp: plane_registry_sample sample_fresh_def split: list.splits)
  have inv1: "plane_inv unary_wire ''tw'' sample_ttl (rd_view calm_redis s)"
    using calm.plane.step_invar [OF inv(1) free_tasks(1) step [unfolded redis_scheduler_def]] .
  have "job_of sample_fresh e = ''j1''" by (simp add: job_of_def assms(4))
  with calm.redis_assigned [OF inv(1) free_tasks(2) step] inv(2) obtain r where
    r: "exec_recs unary_wire (plane_store ''tw'') (rd_view calm_redis s) ''x1'' = Some r" "xr_job_id r = ''j1''"
    by (auto simp: build_assignment_def build_execution_def sample_fresh_def)
  let ?c = "c\<lparr>core_world := s\<rparr>" and ?report = "sample_report Succeeded (Some JobResult_default)"
  note f = sample_running_core_fields(4-6) [of Succeeded "Some JobResult_default"]
  have pre: "plane_inv unary_wire ''tw'' sample_ttl (rd_view calm_redis (core_world ?c))"
    "exec_recs unary_wire (plane_store ''tw'') (rd_view calm_redis (core_world ?c)) (rer_execution_id ?report) = Some r"
    "core_jobs ?c (xr_job_id r) = Some job" "\<not> core_poisoned ?c" using inv1 r f assms(5,6) by simp_all
  obtain resp c2 where run: "report_execution unary_wire ?svc alone alone alone \<lparr>rt_store = 5, rt_job = 5\<rparr> ?report ?c = (Ok resp, c2)"
    using calm.redis_terminal_accepted [OF pre(1) f(3) _ f(2) _ pre(2-4), of "''tasks''" "\<lparr>rt_store = 5, rt_job = 5\<rparr>"] by auto
  have haste: "sample_haste c = c2" using assms(1) step run by (simp add: sample_haste_def)
  show "plane_inv unary_wire ''tw'' sample_ttl (rd_view calm_redis (core_world (sample_haste c)))"
    using calm.redis_report_inv [OF pre(1), of "''tasks''" "\<lparr>rt_store = 5, rt_job = 5\<rparr>" ?report] run haste by simp
  show "\<not> core_poisoned (sample_haste c)" using report_keeps_lock [OF run] pre(4) haste by simp
  from calm.redis_report_terminal [OF pre(1) run f(3)] pre f r haste
  show "\<exists>job. core_jobs (sample_haste c) ''j1'' = Some job \<and> job_state (jrec_job job) = JobSucceeded
      \<and> jrec_result job = Some (JobResult_default\<lparr>jr_execution_id := ''x1''\<rparr>)"
    by (auto simp: finished_record_def JobResult_default_def)
qed

lemma accepted_result_overwritten:
  "\<exists>resp c' job. submit_task unary_wire (plane_service calm_redis unary_wire ''tw'' sample_ttl ''tasks'') alone
      (sample_haste, \<lambda>c. c) (sample_submission ''j1'') sample_request (core_start sample_registered) = (Ok resp, c')
    \<and> get_job ''j1'' c' = Ok \<lparr>gjr_job = Some job, gjr_result = Some (JobResult_default\<lparr>jr_execution_id := ''x1''\<rparr>)\<rparr>
    \<and> job_state job = JobSucceeded
    \<and> result_map (plane_results ''tw'') (rd_view calm_redis (core_world c')) ''j1''
      = Some (encode_result unary_wire (accepted_result unary_wire))"
proof -
  let ?svc = "plane_service calm_redis unary_wire ''tw'' sample_ttl ''tasks''"
  let ?P = "redis_result_backend calm_redis unary_wire (plane_results ''tw'')"
  let ?sub = "sample_submission ''j1''"
  let ?e = "task_envelope unary_wire ?svc ?sub sample_request"
  let ?c = "(put_job (sub_job_id ?sub) \<lparr>jrec_job = accepted_job ?sub sample_request, jrec_result = None\<rparr>
    (core_start sample_registered))\<lparr>core_world := waiting_with ?e\<rparr>"
  have j: "sub_job_id ?sub = ''j1''" by (simp add: sample_submission_def)
  have e: "be_destination ?e = ''tasks''" "decode_submit unary_wire (be_payload ?e) = Ok sample_request"
      "be_correlation_id ?e = Some ''j1''"
    by (simp_all add: task_envelope_def plane_service_def with_stores_def wire_okD [OF unary_wire_ok] j)
  have pub: "broker_publish (redis_broker calm_redis unary_wire (plane_broker ''tw'')) ?e
      (core_world (core_start sample_registered)) = (Ok (), waiting_with ?e)"
    using waiting_ok [OF e(1)] by (simp add: redis_broker_def core_start_def)
  have c: "core_world ?c = waiting_with ?e" "\<not> core_poisoned ?c"
      "core_jobs ?c ''j1'' = Some \<lparr>jrec_job = accepted_job ?sub sample_request, jrec_result = None\<rparr>"
    by (simp_all add: put_job_def core_start_def j)
  define c1 where "c1 = sample_haste ?c"
  note h = sample_hasty [OF c(1) e c(3,2), folded c1_def]
  from h(3) obtain job where job: "core_jobs c1 (sub_job_id ?sub) = Some job" "job_state (jrec_job job) = JobSucceeded"
      "jrec_result job = Some (JobResult_default\<lparr>jr_execution_id := ''x1''\<rparr>)" unfolding j by blast
  obtain w1 where w1: "store_result ?P (sub_job_id ?sub) (accepted_result unary_wire) (core_world c1) = (Ok (), w1)"
    using calm.rplane.result_succeeds [OF h(1), of "sub_job_id ?sub" "accepted_result unary_wire"]
    by (cases "store_result ?P (sub_job_id ?sub) (accepted_result unary_wire) (core_world c1)";
        cases "fst (store_result ?P (sub_job_id ?sub) (accepted_result unary_wire) (core_world c1))") auto
  have "\<not> core_poisoned (core_start sample_registered)" by (simp add: core_start_def)
  from submit_interleaved [where svc = ?svc and before = sample_haste, OF this, unfolded plane_service_fields, OF pub c1_def [symmetric] w1]
  obtain resp where run: "submit_task unary_wire ?svc alone (sample_haste, \<lambda>c. c) ?sub sample_request
      (core_start sample_registered) = (Ok resp, c1\<lparr>core_world := w1\<rparr>)" by simp
  from accepted_result_overwrites_outcome [OF calm_redis_ok unary_wire_ok run pub c1_def [symmetric] h(1,2) job(1,3)] run job(2)
  show ?thesis unfolding j by auto
qed

end
