(* ===== verification/Worker_Plane.thy ===== *)
theory Worker_Plane
  imports Task_Lifecycle
begin

text \<open>
  A worker beside its control plane: that it takes assignments only while it is registered at first, and
  what becomes of it when its lease has expired.
\<close>

section \<open>Calls of a worker\<close>

text \<open>A broker seen from a worker beside the control plane.\<close>

definition core_broker :: "'w Broker \<Rightarrow> 'w core Broker" where
  "core_broker B =
     \<lparr>broker_publish = (\<lambda>e c. case broker_publish B e (core_world c) of (x, w) \<Rightarrow> (x, c\<lparr>core_world := w\<rparr>)),
      broker_consume = (\<lambda>d c. case broker_consume B d (core_world c) of
          None \<Rightarrow> None
        | Some (x, w) \<Rightarrow> Some (x, c\<lparr>core_world := w\<rparr>))\<rparr>"

lemma execute_one_world:
  assumes "execute_one W wk (p, c) = Some (x, p', c')"
  shows "\<exists>y. broker_consume (wk_broker wk) (wk_destination wk) c = Some (y, c')"
  using assms by (auto simp: execute_one_def split: option.split_asm sum.split_asm prod.split_asm)

lemma served_heartbeat:
  assumes "serves W svc N ep"
  obtains clk where "cwc_report_heartbeat (client_of N ep) req c = report_heartbeat svc alone clk req c"
proof -
  from assms obtain clk where "rm_report_heartbeat N ep req c = report_heartbeat svc alone clk req c"
    unfolding serves_def by blast
  moreover have "rm_connect N ep c = (Ok (), c)" using assms by (simp add: serves_def)
  ultimately show thesis using that by (simp add: grpc_client_def grpc_report_heartbeat_def)
qed

lemma served_register:
  assumes "serves W svc N ep"
  obtains clk where "cwc_register_worker (client_of N ep) req c = register_worker svc alone clk req c"
proof -
  from assms obtain clk where "rm_register_worker N ep req c = register_worker svc alone clk req c"
    unfolding serves_def by blast
  moreover have "rm_connect N ep c = (Ok (), c)" using assms by (simp add: serves_def)
  ultimately show thesis using that by (simp add: grpc_client_def grpc_register_worker_def)
qed

section \<open>A worker that starts\<close>

lemma register_worker_Ok:
  assumes "register_worker svc alone clk \<lparr>rwq_registration = Some r\<rparr> c = (Ok resp, c')"
  shows "rwr_accepted resp \<and> (\<exists>out. reg_register (ces_worker_registry svc) clk r (core_world c) = (Ok out, core_world c'))"
  using assms by (auto simp: register_worker_def try_call_eq_Ok split: if_split_asm prod.split_asm)

text \<open>C21. A worker takes no assignment before it is registered: it either ends with an error, with its table
  as it was, or it runs its loops from a state in which the registry has it as a member, under its own
  generation and with a lease for the whole time to live.\<close>

theorem worker_starts_registered:
  assumes "redis_ok R" and "wire_ok W" and "serves W (plane_service R W p ttl d) N (wc_core_endpoint config)"
    and "wk = worker_new N h i g (core_broker (redis_broker R W (plane_broker p))) config"
    and "plane_inv W p ttl (rd_view R (core_world (wst_world s)))"
    and "run_until_shutdown W wk xs s = (res, s')"
  shows "(\<exists>e. res = Some (Err e) \<and> wst_pending s' = wst_pending s)
    \<or> (\<exists>c1 r. worker_loops W wk xs (s\<lparr>wst_world := c1, wst_sequence_number := 0\<rparr>) = (res, s')
        \<and> registry_members W (plane_registry p ttl) (rd_view R (core_world c1)) i = Some r \<and> wr_generation r = g
        \<and> ks_deadline (rd_view R (core_world c1)) (worker_key (plane_registry p ttl) i)
          = Some (ks_clock (rd_view R (core_world c1)) + ttl_millis (plane_registry p ttl)))"
proof -
  note dep = redis_deployment.intro [OF assms(1,2)]
  let ?reg = "plane_registry p ttl"
  have wk: "wk_core_client wk = client_of N (wc_core_endpoint config)"
      "wr_worker_id (registration wk) = i" "wr_generation (registration wk) = g"
    by (simp_all add: assms(4) worker_new_def worker_identity_new_def registration_def Let_def)
  obtain clk where served: "cwc_register_worker (client_of N (wc_core_endpoint config)) \<lparr>rwq_registration = Some (registration wk)\<rparr> (wst_world s)
      = register_worker (plane_service R W p ttl d) alone clk \<lparr>rwq_registration = Some (registration wk)\<rparr> (wst_world s)"
    by (rule served_register [OF assms(3)])
  obtain x c1 where x: "register_worker (plane_service R W p ttl d) alone clk \<lparr>rwq_registration = Some (registration wk)\<rparr>
      (wst_world s) = (x, c1)" by fastforce
  show ?thesis
  proof (cases x)
    case (Inl e)
    with assms(6) wk(1) served x show ?thesis by (auto simp: run_until_shutdown_def)
  next
    case (Inr resp)
    from register_worker_Ok [OF x [unfolded Inr]] obtain out where acc: "rwr_accepted resp"
      and reg: "redis_register R W ?reg clk (registration wk) (core_world (wst_world s)) = (Ok out, core_world c1)"
      by (auto simp: plane_service_def with_stores_def redis_worker_registry_def)
    have wf: "registry_wf W ?reg (rd_view R (core_world (wst_world s)))" using assms(5) by (simp add: plane_inv_def)
    from redis_deployment.redis_register_leased [OF dep wf reg] wk(2)
    have l: "leased W ?reg i (rd_view R (core_world c1))" by simp
    then obtain r where r: "registry_members W ?reg (rd_view R (core_world c1)) i = Some r" by (auto simp: leased_def)
    from redis_deployment.redis_register_spec [OF dep wf reg] r wk(2,3) have "wr_generation r = g"
      by (auto simp: Let_def registration_outcome_def split: if_splits option.splits)
    moreover have "worker_loops W wk xs (s\<lparr>wst_world := c1, wst_sequence_number := 0\<rparr>) = (res, s')"
      using assms(6) wk(1) served x Inr acc by (simp add: run_until_shutdown_def)
    ultimately show ?thesis using l r unfolding leased_def by blast
  qed
qed


lemma calm_register_new:
  "\<exists>s'. redis_register calm_redis unary_wire sample_registry sample_clock r sample_calm = (Ok New, s')"
proof -
  have "fst (redis_register calm_redis unary_wire sample_registry sample_clock r sample_calm) = Ok New"
    by (simp add: redis_register_def register_script_def calm_eval)
  then show ?thesis by (metis prod.collapse)
qed

abbreviation sample_remote :: "reference_state core remote" where
  "sample_remote \<equiv> direct_remote unary_wire (plane_service calm_redis unary_wire ''tw'' sample_ttl ''tasks'') sample_clock
     \<lparr>rt_store = 5, rt_job = 5\<rparr>"

abbreviation sample_connected :: "string \<Rightarrow> string \<Rightarrow> reference_state core Worker" where
  "sample_connected i g \<equiv> worker_new sample_remote \<lparr>host_variable = None, host_file = None\<rparr> i g
     (core_broker (redis_broker calm_redis unary_wire (plane_broker ''tw''))) WorkerConfig_default"

abbreviation sample_beside :: "reference_state \<Rightarrow> reference_state core worker_state" where
  "sample_beside s \<equiv> \<lparr>wst_pending = pe_default, wst_sequence_number = 0, wst_world = core_start s\<rparr>"

theorem worker_starts_registered_witness:
  "\<exists>r s'. run_until_shutdown unary_wire (sample_connected ''w1'' ''two'') [(Shutdown, \<lambda>s. s)] (sample_beside sample_calm)
      = (Some (Ok ()), s')
    \<and> registry_members unary_wire sample_registry (rd_view calm_redis (core_world (wst_world s'))) ''w1'' = Some r
    \<and> wr_generation r = ''two''"
proof -
  let ?wk = "sample_connected ''w1'' ''two''" and ?s = "sample_beside sample_calm"
  let ?svc = "plane_service calm_redis unary_wire ''tw'' sample_ttl ''tasks''"
  have wk: "wk_core_client ?wk = client_of sample_remote (wc_core_endpoint WorkerConfig_default)"
    "wr_worker_id (registration ?wk) = ''w1''" "wr_generation (registration ?wk) = ''two''"
    by (simp_all add: worker_new_def worker_identity_new_def registration_def Let_def)
  have "\<not> blank ''w1''" "\<not> blank ''two''"
    by (simp_all add: blank_def trim_id byte_def ws1_def ws2_def ws3_def)
  moreover obtain s1 where "redis_register calm_redis unary_wire sample_registry sample_clock (registration ?wk) sample_calm = (Ok New, s1)"
    using calm_register_new by blast
  ultimately have "register_worker ?svc alone sample_clock \<lparr>rwq_registration = Some (registration ?wk)\<rparr> (core_start sample_calm)
      = (Ok \<lparr>rwr_accepted = True, rwr_lease_id = None\<rparr>, (core_start sample_calm)\<lparr>core_world := s1\<rparr>)"
    using wk(2,3) by (simp add: register_worker_def plane_service_def with_stores_def redis_worker_registry_def
        plane_registry_sample core_start_def)
  then have "cwc_register_worker (wk_core_client ?wk) \<lparr>rwq_registration = Some (registration ?wk)\<rparr> (core_start sample_calm)
      = (Ok \<lparr>rwr_accepted = True, rwr_lease_id = None\<rparr>, (core_start sample_calm)\<lparr>core_world := s1\<rparr>)"
    unfolding wk(1) by (simp add: grpc_client_def grpc_register_worker_def direct_remote_def)
  then obtain s' where run: "run_until_shutdown unary_wire ?wk [(Shutdown, \<lambda>s. s)] ?s = (Some (Ok ()), s')"
    by (simp add: run_until_shutdown_def Let_def)
  from worker_starts_registered [OF calm_redis_ok unary_wire_ok direct_remote_serves refl _ run] sample_core
  show ?thesis using run unfolding plane_registry_sample by (auto simp: Let_def)
qed

section \<open>A worker whose lease has expired\<close>

context control_plane
begin

definition absent :: "string \<Rightarrow> 'w \<Rightarrow> bool" where
  "absent i w \<longleftrightarrow> invar w \<and> members w i = None"

lemma shrinks_absent: "absent i w \<Longrightarrow> invar w' \<Longrightarrow> shrinks (members w) (members w') \<Longrightarrow> absent i w'"
  by (auto simp: absent_def shrinks_def forget_apply)

lemma taken_absent:
  assumes "absent i (core_world c)" and wk: "wk_broker wk = core_broker B" "wk_destination wk = worker_destination j"
    and run: "execute_one W wk (p, c) = Some (x, p', c')"
  shows "absent i (core_world c')"
proof -
  from execute_one_world [OF run] wk obtain y w where
    w: "broker_consume B (worker_destination j) (core_world c) = Some (y, w)" "core_world c' = w"
    by (auto simp: core_broker_def split: option.split_asm)
  have inv: "invar (core_world c)" using assms(1) by (simp add: absent_def)
  from shrinks_absent [OF assms(1) brk.invar_consume [OF inv worker_valid w(1)]]
    consume_frame [OF inv worker_valid w(1)] w(2) show ?thesis by simp
qed

lemma heartbeat_absent:
  assumes "absent i (core_world c)"
  shows "absent i (core_world (snd (report_heartbeat (service d) alone clk req c)))"
proof -
  have inv: "invar (core_world c)" using assms by (simp add: absent_def)
  have "absent i (snd (reg_heartbeat G clk j g (core_world c)))" for j g
    using shrinks_absent [OF assms reg.invar_heartbeat [OF inv, of clk j g]] reg.heartbeat_forgets [OF inv, of clk j g]
    by (simp add: shrinks_def)
  then show ?thesis
    using assms unfolding report_heartbeat_def
    by (auto intro!: try_call_keeps [where I = "\<lambda>c. absent i (core_world c)"] split: option.split prod.split)
       (metis snd_conv)
qed

lemma loops_absent:
  assumes "serves W (service d) N ep" and "wk_core_client wk = client_of N ep" and "wk_broker wk = core_broker B"
    and "wk_destination wk = worker_destination j" and "absent i (core_world (wst_world s))"
    and "\<And>x others s. (x, others) \<in> set xs \<Longrightarrow> absent i (core_world (wst_world s)) \<Longrightarrow>
      absent i (core_world (wst_world (others s)))"
  shows "absent i (core_world (wst_world (snd (worker_loops W wk xs s))))"
  using assms(5,6)
proof (induction xs arbitrary: s)
  case (Cons y xs)
  obtain x others where y: "y = (x, others)" by (cases y)
  let ?s = "others s"
  have s: "absent i (core_world (wst_world ?s))" using Cons.prems y by auto
  have IH: "absent i (core_world (wst_world (snd (worker_loops W wk xs s'))))" if "absent i (core_world (wst_world s'))" for s'
    using Cons.IH [OF that] Cons.prems(2) by (meson list.set_intros(2))
  show ?case
  proof (cases x)
    case AssignmentReady
    show ?thesis
    proof (cases "execute_one W wk (wst_pending ?s, wst_world ?s)")
      case None
      with IH [OF s] AssignmentReady y show ?thesis by (simp add: Let_def)
    next
      case (Some z)
      obtain u p c where z: "z = (u, p, c)" by (cases z)
      have "absent i (core_world c)" using taken_absent [OF s assms(3,4)] Some z by blast
      with IH [of "?s\<lparr>wst_pending := p, wst_world := c\<rparr>"] Some z AssignmentReady y show ?thesis
        by (cases u) (simp_all add: Let_def)
    qed
  next
    case (HeartbeatTick now)
    obtain n c where t: "heartbeat_tick wk now (wst_sequence_number ?s, wst_world ?s) = (n, c)" by fastforce
    obtain clk where "cwc_report_heartbeat (client_of N ep) (heartbeat_request wk (wst_sequence_number ?s + 1) now) (wst_world ?s)
        = report_heartbeat (service d) alone clk (heartbeat_request wk (wst_sequence_number ?s + 1) now) (wst_world ?s)"
      by (rule served_heartbeat [OF assms(1)])
    with heartbeat_absent [OF s] t assms(2) have "absent i (core_world c)" by (auto simp: heartbeat_tick_def Let_def)
    with IH [of "?s\<lparr>wst_sequence_number := n, wst_world := c\<rparr>"] t HeartbeatTick y show ?thesis by (simp add: Let_def)
  qed (use s y in \<open>simp_all add: Let_def\<close>)
qed simp

end

text \<open>A worker that is not registered.\<close>

definition unregistered :: "wire \<Rightarrow> string \<Rightarrow> duration \<Rightarrow> string \<Rightarrow> keyspace \<Rightarrow> bool" where
  "unregistered W p ttl i v \<longleftrightarrow> plane_inv W p ttl v \<and> registry_members W (plane_registry p ttl) v i = None"

context redis_deployment
begin

lemmas redis_loops_absent = plane.loops_absent [where W = W, folded plane_service_def,
  unfolded plane.absent_def, folded unregistered_def]

lemma redis_unlisted:
  assumes "unregistered W p ttl i (rd_view R s)"
  shows "redis_available_workers R W (plane_registry p ttl) clk s = Some (Ok ids, s') \<Longrightarrow> i \<notin> set ids"
    "\<not> is_ok (fst (redis_heartbeat R W (plane_registry p ttl) clk i g s))"
proof -
  have wf: "rwf_in (plane_registry p ttl) s" and none: "members_in (plane_registry p ttl) s i = None"
    using assms by (simp_all add: unregistered_def plane_inv_def)
  show "i \<notin> set ids" if "redis_available_workers R W (plane_registry p ttl) clk s = Some (Ok ids, s')"
    using redis_listing_spec [OF wf, of clk] that none by (auto simp: listed_def)
  obtain x s' where x: "redis_heartbeat R W (plane_registry p ttl) clk i g s = (x, s')" by fastforce
  from redis_heartbeat_spec [OF wf x] none aged_dom [of "plane_registry p ttl" s s'] x
  show "\<not> is_ok (fst (redis_heartbeat R W (plane_registry p ttl) clk i g s))" by (cases x) auto
qed

end

text \<open>C30. A worker whose lease has expired never comes back by itself: while nobody else registers it, its
  loops, however long they run and however often they beat, leave it outside of the registry, so every
  further heartbeat of it is refused and no listing names it; it gets no more work until it is started
  anew.\<close>

theorem expired_worker_never_returns:
  assumes "redis_ok R" and "wire_ok W" and "serves W (plane_service R W p ttl d) N (wc_core_endpoint config)"
    and "wk = worker_new N h i g (core_broker (redis_broker R W (plane_broker p))) config"
    and "unregistered W p ttl i (rd_view R (core_world (wst_world s)))"
    and "\<And>x others s. (x, others) \<in> set xs \<Longrightarrow> unregistered W p ttl i (rd_view R (core_world (wst_world s))) \<Longrightarrow>
      unregistered W p ttl i (rd_view R (core_world (wst_world (others s))))"
    and "worker_loops W wk xs s = (res, s')"
  shows "\<not> is_ok (fst (redis_heartbeat R W (plane_registry p ttl) clk i g (core_world (wst_world s'))))
    \<and> (\<forall>ids s2. redis_available_workers R W (plane_registry p ttl) clk (core_world (wst_world s')) = Some (Ok ids, s2) \<longrightarrow>
         i \<notin> set ids)"
proof -
  note dep = redis_deployment.intro [OF assms(1,2)]
  have wk: "wk_core_client wk = client_of N (wc_core_endpoint config)"
      "wk_broker wk = core_broker (redis_broker R W (plane_broker p))" "wk_destination wk = worker_destination i"
    by (simp_all add: assms(4) worker_new_def worker_identity_new_def Let_def)
  have "unregistered W p ttl i (rd_view R (core_world (wst_world (snd (worker_loops W wk xs s)))))"
    by (rule redis_deployment.redis_loops_absent [OF dep assms(3) wk assms(5)]) (rule assms(6))
  then have "unregistered W p ttl i (rd_view R (core_world (wst_world s')))" using assms(7) by simp
  with redis_deployment.redis_unlisted [OF dep] show ?thesis by blast
qed

theorem expired_worker_never_returns_witness:
  "\<exists>res s'. worker_loops unary_wire (sample_connected ''w2'' ''one'')
      [(HeartbeatTick 5, \<lambda>s. s), (HeartbeatTick 6, \<lambda>s. s)] (sample_beside sample_registered) = (res, s')
    \<and> \<not> is_ok (fst (redis_heartbeat calm_redis unary_wire sample_registry sample_clock ''w2'' ''one'' (core_world (wst_world s'))))"
proof -
  let ?wk = "sample_connected ''w2'' ''one''" and ?s = "sample_beside sample_registered"
  let ?xs = "[(HeartbeatTick 5, \<lambda>s. s), (HeartbeatTick 6, \<lambda>s. s)]
    :: (worker_input \<times> (reference_state core worker_state \<Rightarrow> reference_state core worker_state)) list"
  obtain res s' where run: "worker_loops unary_wire ?wk ?xs ?s = (res, s')" by fastforce
  have "unregistered unary_wire ''tw'' sample_ttl ''w2'' (rd_view calm_redis (core_world (wst_world ?s)))"
    using sample_registered_inv(1)
    by (simp add: unregistered_def core_start_def view_calm plane_registry_sample registry_members_def
        sample_registered_view sample_worker_key)
  from expired_worker_never_returns [OF calm_redis_ok unary_wire_ok direct_remote_serves refl this _ run, of sample_clock]
  have "\<not> is_ok (fst (redis_heartbeat calm_redis unary_wire sample_registry sample_clock ''w2'' ''one'' (core_world (wst_world s'))))"
    by (auto simp: plane_registry_sample)
  with run show ?thesis by blast
qed

end
