(* ===== verification/Whole_System.thy ===== *)
theory Whole_System
  imports Task_Lifecycle
begin

text \<open>
  The running system: the scheduler, the calls that the handlers of the control plane make on the
  services, and the workers with their tables, interleaved between the calls of the services and with any failures. What a
  run can do is a step relation; its invariants are proved once, over services that keep their contracts.
\<close>

section \<open>The system\<close>

text \<open>The world of the services, where the scheduler is, the assignment a worker has taken from its queue
  and not yet put into its table, and the table of each worker.\<close>

record 'w system =
  sys_world :: 'w
  sys_scheduler :: scheduler_point
  sys_carried :: "string \<Rightarrow> AssignExecutionRequest option"
  sys_tables :: "string \<Rightarrow> PendingExecutions"

abbreviation call_on :: "'w CoreExecutionService \<Rightarrow> service_call \<Rightarrow> 'w \<Rightarrow> 'w" where
  "call_on svc \<equiv> call_service (ces_broker svc) (ces_execution_store svc) (ces_worker_registry svc)
     (ces_result_backend svc)"

text \<open>A step: the scheduler goes on to its next await, whatever comes of its call; a handler calls a
  service; worker \<open>i\<close> takes an assignment from its queue or puts it into its table; a task of worker \<open>i\<close>
  calls a method of its table; worker \<open>i\<close> starts anew. \<open>F\<close> restricts the identifiers the scheduler draws
  and \<open>C\<close> the calls.\<close>

inductive system_step ::
  "wire \<Rightarrow> 'w CoreExecutionService \<Rightarrow> 'w Scheduler \<Rightarrow> (fresh \<Rightarrow> bool) \<Rightarrow> (service_call \<Rightarrow> bool)
   \<Rightarrow> 'w system \<Rightarrow> 'w system \<Rightarrow> bool" for W svc sch F C where
  scheduled: "F fr \<Longrightarrow> scheduler_next W sch fr (sys_scheduler s, sys_world s) = Some (pt, w) \<Longrightarrow>
    system_step W svc sch F C s (s\<lparr>sys_world := w, sys_scheduler := pt\<rparr>)"
| called: "C c \<Longrightarrow> system_step W svc sch F C s (s\<lparr>sys_world := call_on svc c (sys_world s)\<rparr>)"
| taken: "wk_broker wk = ces_broker svc \<Longrightarrow> wk_destination wk = worker_destination i \<Longrightarrow>
    worker_next W wk (sys_carried s i, sys_tables s i, sys_world s) = Some (a, t, w) \<Longrightarrow>
    system_step W svc sch F C s (s\<lparr>sys_world := w, sys_carried := (sys_carried s)(i := a),
      sys_tables := (sys_tables s)(i := t)\<rparr>)"
| handled: "pe_step l (sys_tables s i) t \<Longrightarrow> \<forall>a. l \<noteq> OpEnqueue a \<Longrightarrow>
    system_step W svc sch F C s (s\<lparr>sys_tables := (sys_tables s)(i := t)\<rparr>)"
| begun: "system_step W svc sch F C s (s\<lparr>sys_carried := (sys_carried s)(i := None),
      sys_tables := (sys_tables s)(i := pe_default)\<rparr>)"

abbreviation system_start :: "'w \<Rightarrow> 'w system" where
  "system_start w \<equiv> \<lparr>sys_world = w, sys_scheduler = AtListing, sys_carried = \<lambda>_. None, sys_tables = \<lambda>_. pe_default\<rparr>"

abbreviation system_run where
  "system_run W svc sch F C \<equiv> (system_step W svc sch F C)\<^sup>*\<^sup>*"

text \<open>The calls that submit a task of job \<open>j\<close>.\<close>

definition submits :: "string \<Rightarrow> string \<Rightarrow> service_call \<Rightarrow> bool" where
  "submits d j c \<longleftrightarrow> (\<exists>e. c = CallPublish e \<and> be_destination e = d \<and> be_correlation_id e = Some j)"

text \<open>The scheduler holds no task, and how many tasks of job \<open>j\<close> it holds that it has not yet recorded.\<close>

fun resting :: "scheduler_point \<Rightarrow> bool" where
  "resting (AtCreate _ _ _ _) = False"
| "resting (AtPublish _ _ _ _) = False"
| "resting _ = True"

fun flying :: "string \<Rightarrow> scheduler_point \<Rightarrow> nat" where
  "flying j (AtCreate fr i e a) = (if aer_job_id a = j then 1 else 0)"
| "flying j _ = 0"

section \<open>Uninterrupted steps\<close>

text \<open>A step of the scheduler that nothing interrupts, and an assignment that a worker takes, are runs.\<close>

lemma steps_run:
  assumes "F fr" and "scheduler_steps W sch fr n (sys_scheduler s, sys_world s) = Some (pt, w)"
  shows "system_run W svc sch F C s (s\<lparr>sys_world := w, sys_scheduler := pt\<rparr>)"
  using assms(2)
proof (induction n arbitrary: s)
  case (Suc n)
  from Suc.prems obtain pt1 w1 where
    n: "scheduler_next W sch fr (sys_scheduler s, sys_world s) = Some (pt1, w1)"
    "scheduler_steps W sch fr n (pt1, w1) = Some (pt, w)" by (auto split: option.split_asm)
  let ?s = "s\<lparr>sys_world := w1, sys_scheduler := pt1\<rparr>"
  have "system_step W svc sch F C s ?s" by (rule system_step.scheduled [of F fr, OF assms(1) n(1)])
  moreover have "system_run W svc sch F C ?s (?s\<lparr>sys_world := w, sys_scheduler := pt\<rparr>)" using n(2) by (intro Suc.IH) simp
  ultimately show ?case by (simp add: converse_rtranclp_into_rtranclp)
qed auto

lemma schedule_one_run:
  assumes "F fr" and "schedule_one W sch fr (sys_world s) = Some (res, w)" and "sys_scheduler s = AtListing"
  shows "system_run W svc sch F C s (s\<lparr>sys_world := w, sys_scheduler := if is_ok res then AtListing else AtEnd\<rparr>)"
  using schedule_one_in_steps [OF assms(2)] steps_run [of F fr W sch _ s, OF assms(1)] assms(3) by auto

lemma execute_one_run:
  assumes "wk_broker wk = ces_broker svc" and "wk_destination wk = worker_destination i"
    and "execute_one W wk (sys_tables s i, sys_world s) = Some (x, t, w)" and "sys_carried s i = None"
  shows "system_run W svc sch F C s (s\<lparr>sys_world := w, sys_tables := (sys_tables s)(i := t)\<rparr>)"
proof -
  note take = system_step.taken [of wk svc i W _ _ _ _ sch F C, OF assms(1,2)]
  let ?s = "\<lambda>a t. s\<lparr>sys_world := w, sys_carried := (sys_carried s)(i := a), sys_tables := (sys_tables s)(i := t)\<rparr>"
  have same: "?s None t = s\<lparr>sys_world := w, sys_tables := (sys_tables s)(i := t)\<rparr>" for t
    using assms(4) by (simp add: fun_upd_idem)
  from execute_one_in_steps [OF assms(3)] show ?thesis
  proof (elim disjE exE conjE)
    assume "worker_next W wk (None, sys_tables s i, sys_world s) = Some (None, t, w)"
    with take [of s None t w] assms(4) show ?thesis unfolding same [symmetric] by (intro r_into_rtranclp) simp
  next
    fix a
    assume a: "worker_next W wk (None, sys_tables s i, sys_world s) = Some (Some a, sys_tables s i, w)"
      "worker_next W wk (Some a, sys_tables s i, w) = Some (None, t, w)"
    have "system_step W svc sch F C s (?s (Some a) (sys_tables s i))" using take [of s "Some a"] a(1) assms(4) by simp
    moreover have "system_step W svc sch F C (?s (Some a) (sys_tables s i)) (?s None t)"
      using take [of "?s (Some a) (sys_tables s i)" None t w] a(2) by simp
    ultimately show ?thesis unfolding same [symmetric] by (intro converse_rtranclp_into_rtranclp [OF _ r_into_rtranclp])
  qed
qed

lemma calls_run:
  assumes "\<And>c. c \<in> set cs \<Longrightarrow> C c"
  shows "system_run W svc sch F C s (s\<lparr>sys_world := fold (call_on svc) cs (sys_world s)\<rparr>)"
  using assms
proof (induction cs arbitrary: s)
  case (Cons c cs)
  let ?s = "s\<lparr>sys_world := call_on svc c (sys_world s)\<rparr>"
  have "system_step W svc sch F C s ?s" using Cons.prems [of c] by (intro system_step.called) simp
  moreover have "system_run W svc sch F C ?s (?s\<lparr>sys_world := fold (call_on svc) cs (sys_world ?s)\<rparr>)"
    using Cons.prems by (intro Cons.IH) simp
  ultimately show ?case by (simp add: converse_rtranclp_into_rtranclp)
qed auto

text \<open>A run of the scheduler among calls of the other parties is a run of the system.\<close>

lemma scheduler_run_run:
  assumes "\<And>fr cs. (fr, cs) \<in> set steps \<Longrightarrow> F fr \<and> (\<forall>c \<in> set cs. C c)" and "sys_scheduler s = AtListing"
  shows "\<exists>pt. system_run W svc sch F C s (s\<lparr>sys_world := snd (snd (scheduler_run W sch
    (map (\<lambda>(fr, cs). (fr, fold (call_on svc) cs)) steps) (sys_world s))), sys_scheduler := pt\<rparr>)"
  using assms
proof (induction steps arbitrary: s)
  case Nil
  then have "s\<lparr>sys_scheduler := AtListing\<rparr> = s" by simp
  then show ?case by (intro exI [of _ AtListing]) simp
next
  case (Cons x steps)
  obtain fr cs where x: "x = (fr, cs)" by fastforce
  let ?s = "s\<lparr>sys_world := fold (call_on svc) cs (sys_world s)\<rparr>"
  have ok: "F fr" "\<And>c. c \<in> set cs \<Longrightarrow> C c" using Cons.prems(1) [of fr cs] x by simp_all
  note calls = calls_run [where C = C and cs = cs and W = W and svc = svc and sch = sch and F = F and s = s, OF ok(2)]
  show ?case
  proof (cases "schedule_one W sch fr (sys_world ?s)")
    case None
    have "?s\<lparr>sys_scheduler := AtListing\<rparr> = ?s" using Cons.prems(2) by simp
    with None x calls show ?thesis by (intro exI [of _ AtListing]) simp
  next
    case (Some y)
    obtain res w where y: "y = (res, w)" by fastforce
    let ?t = "?s\<lparr>sys_world := w, sys_scheduler := if is_ok res then AtListing else AtEnd\<rparr>"
    have t: "system_run W svc sch F C s ?t"
      using calls schedule_one_run [of F fr W sch ?s res w svc C, OF ok(1)] Some y Cons.prems(2)
      by (auto intro: rtranclp_trans)
    show ?thesis
    proof (cases res)
      case (Inl e)
      with t Some y x show ?thesis by (intro exI [of _ AtEnd]) simp
    next
      case (Inr dec)
      obtain pt where "system_run W svc sch F C ?t (?t\<lparr>sys_world := snd (snd (scheduler_run W sch
          (map (\<lambda>(fr, cs). (fr, fold (call_on svc) cs)) steps) (sys_world ?t))), sys_scheduler := pt\<rparr>)"
        using Cons.IH [of ?t] Cons.prems(1) Inr by auto
      with t Inr Some y x show ?thesis by (intro exI [of _ pt]) (auto split: prod.split intro: rtranclp_trans)
    qed
  qed
qed

section \<open>The tables\<close>

lemma pe_default_empty: "ps_assignments pe_default k = None"
  by (simp add: pe_default_def)

text \<open>Only \<open>enqueue\<close> adds an assignment to a table.\<close>

lemma pe_step_dom:
  assumes "pe_step l p q" and "pe_inv p" and "\<forall>a. l \<noteq> OpEnqueue a"
  shows "dom (ps_assignments q) \<subseteq> dom (ps_assignments p)"
  using assms
proof (induction rule: pe_step.induct)
  case (step_next_for s p)
  then show ?case by (auto simp: next_for_def split: list.splits option.splits)
next
  case (step_disconnect keys p s)
  then show ?case by (auto simp: disconnect_spec release_all_def split: if_splits)
qed (auto simp: started_def progress_def metrics_def terminal_def put_record_def validate_Ok Let_def
    register_session_def split: sum.splits if_splits option.splits)

lemma pe_step_assignment:
  assumes "pe_step l p q" and "pe_inv p" and "\<forall>a. l \<noteq> OpEnqueue a" and "ps_assignments q i = Some r"
  shows "\<exists>r0. ps_assignments p i = Some r0 \<and> ar_assignment r = ar_assignment r0"
proof -
  from pe_step_dom [OF assms(1-3)] assms(4) obtain r0 where r0: "ps_assignments p i = Some r0" by blast
  with pe_step_keeps [OF assms(1,2)] obtain r' where "ps_assignments q i = Some r'" "record_step r0 r'"
    unfolding keeps_records_def by blast
  with r0 assms(4) show ?thesis by (simp add: record_step_def)
qed

lemma enqueue_assignment:
  assumes "enqueue a p = (x, q)" and "ps_assignments q i = Some r"
  shows "ps_assignments p i = Some r \<or> ar_assignment r = a \<and> is_ok x"
  using assms by (auto simp: enqueue_def Let_def new_record_def split: if_splits)

context control_plane
begin

section \<open>What the scheduler can do between two awaits\<close>

lemma create_effect:
  assumes inv: "invar w" and run: "scheduler_next W (the_scheduler d) fr (AtCreate fr0 i e a, w) = Some (pt', w')"
  obtains (undone) "quiet w w'" "pt' = AtEnd"
  | (performed) "pt' = AtPublish fr0 i e a \<or> pt' = AtEnd" "invar w'" "queue w' = queue w"
      "recs w (aer_execution_id a) = None" "recs w' = (recs w)(aer_execution_id a \<mapsto> stored (build_execution fr0 i a))"
proof -
  obtain x w1 where c: "store_create S (build_execution fr0 i a) w = (x, w1)" by fastforce
  with run have w1: "w1 = w'" "pt' = (if is_ok x then AtPublish fr0 i e a else AtEnd)" by (cases x; auto)+
  have inv': "invar w'" using exec.invar_create [OF inv, of "build_execution fr0 i a"] c w1 by simp
  have q: "queue w' = queue w" using create_frame [OF inv c] w1 by simp
  have recs: "recs w' = recs w \<and> \<not> is_ok x \<or> recs w (aer_execution_id a) = None
      \<and> recs w' = (recs w)(aer_execution_id a \<mapsto> stored (build_execution fr0 i a))"
    using exec.create_ok [OF inv, of "build_execution fr0 i a"] exec.create_err [OF inv, of "build_execution fr0 i a"] c w1
    by (cases x) (auto simp: build_execution_def)
  with undone performed inv' q w1 quiet_same show thesis by metis
qed

lemma publish_effect:
  assumes inv: "invar w" and run: "scheduler_next W (the_scheduler d) fr (AtPublish fr0 i e a, w) = Some (pt', w')"
  shows "resting pt'" "invar w'" "recs w' = recs w"
    "queue w' = queue w \<or> queue w' = (queue w)(worker_destination i :=
       queue w (worker_destination i) @ [build_envelope W fr0 i e a])"
proof -
  let ?e = "build_envelope W fr0 i e a"
  have dest: "be_destination ?e = worker_destination i" by (simp add: build_envelope_def)
  then have v: "valid (be_destination ?e)" by (simp add: worker_valid)
  obtain x w1 where p: "broker_publish B ?e w = (x, w1)" by fastforce
  with run have "w1 = w'" "resting pt'" by (cases x; auto)+
  with brk.invar_publish [OF inv v] publish_frame [OF inv v p] brk.publish_queue [OF inv v] p
  show "resting pt'" "invar w'" "recs w' = recs w" "queue w' = queue w \<or> queue w' = (queue w)(worker_destination i :=
       queue w (worker_destination i) @ [?e])" by (auto simp: dest)
qed

lemma next_effect:
  assumes inv: "invar w" and d: "valid d" and run: "scheduler_next W (the_scheduler d) fr (pt, w) = Some (pt', w')"
  obtains (rests) "quiet w w'" "resting pt'"
  | (took) submitted req i where "pt' = AtCreate fr i submitted (build_assignment fr (job_of fr submitted) req)"
      "queue w d = submitted # queue w' d" "quiet w w'"
  | (created) fr0 i e a where "pt = AtCreate fr0 i e a" "pt' = AtPublish fr0 i e a \<or> pt' = AtEnd" "invar w'"
      "queue w' = queue w" "recs w (aer_execution_id a) = None"
      "recs w' = (recs w)(aer_execution_id a \<mapsto> stored (build_execution fr0 i a))"
  | (published) fr0 i e a where "pt = AtPublish fr0 i e a" "resting pt'" "invar w'" "recs w' = recs w"
      "queue w' = queue w \<or> queue w' = (queue w)(worker_destination i :=
         queue w (worker_destination i) @ [build_envelope W fr0 i e a])"
proof (cases pt)
  case AtListing
  with run obtain x where l: "dir_available_workers G (fr_clock fr) w = Some (x, w')" and r: "resting pt'"
    by (auto split: option.split_asm sum.split_asm prod.split_asm list.split_asm)
  from listing_frame [OF inv l] reg.invar_listing [OF inv l] have "quiet w w'" by (intro quiet_same) simp_all
  with r show thesis by (intro rests)
next
  case (AtConsume i)
  with run obtain x where c: "broker_consume B d w = Some (x, w')"
    by (auto split: option.split_asm sum.split_asm prod.split_asm)
  note q = consume_quiet [OF inv d c]
  show thesis
  proof (cases "resting pt'")
    case True
    with q show thesis by (intro rests)
  next
    case False
    with run AtConsume c obtain submitted req where x: "x = Ok submitted"
      "pt' = AtCreate fr i submitted (build_assignment fr (job_of fr submitted) req)"
      by (auto simp: Let_def split: option.split_asm sum.split_asm prod.split_asm)
    from brk.consume_ok [OF inv d c [unfolded x(1)]] show thesis by (intro took [OF x(2) _ q]) simp
  qed
next
  case (AtCreate fr0 i e a)
  from inv run [unfolded AtCreate] show thesis
  proof (cases rule: create_effect)
    case undone
    then show thesis by (intro rests) simp_all
  next
    case performed
    then show thesis by (rule created [OF AtCreate])
  qed
next
  case (AtPublish fr0 i e a)
  from publish_effect [OF inv run [unfolded AtPublish]] show thesis by (rule published [OF AtPublish])
next
  case AtEnd
  with run quiet_refl [OF inv] show thesis by (intro rests) auto
qed

section \<open>Every assignment is recorded, wherever it is\<close>

definition point_recorded :: "'w \<Rightarrow> scheduler_point \<Rightarrow> bool" where
  "point_recorded w pt \<longleftrightarrow> (\<forall>fr i e a. pt = AtPublish fr i e a \<longrightarrow> recorded_for w i a)"

lemma point_recorded_simps [simp]:
  "resting pt \<Longrightarrow> point_recorded w pt" "point_recorded w (AtCreate fr i e a)"
  "point_recorded w (AtPublish fr i e a) = recorded_for w i a"
  by (auto simp: point_recorded_def)

definition workers_recorded :: "'w system \<Rightarrow> bool" where
  "workers_recorded s \<longleftrightarrow>
     (\<forall>i a. sys_carried s i = Some a \<longrightarrow> recorded_for (sys_world s) i a)
   \<and> (\<forall>i k r. ps_assignments (sys_tables s i) k = Some r \<longrightarrow> recorded_for (sys_world s) i (ar_assignment r))"

definition system_ok :: "wire \<Rightarrow> 'w system \<Rightarrow> bool" where
  "system_ok W s \<longleftrightarrow> invar (sys_world s) \<and> (\<forall>i. pe_inv (sys_tables s i)) \<and> dispatched_recorded W (sys_world s)
     \<and> point_recorded (sys_world s) (sys_scheduler s) \<and> workers_recorded s"

lemma keeps_point: "keeps_ids w w' \<Longrightarrow> point_recorded w pt \<Longrightarrow> point_recorded w' pt"
  by (auto simp: point_recorded_def intro: keeps_recorded)

lemma keeps_workers:
  "keeps_ids (sys_world s) (sys_world s') \<Longrightarrow> sys_carried s' = sys_carried s \<Longrightarrow> sys_tables s' = sys_tables s \<Longrightarrow>
   workers_recorded s \<Longrightarrow> workers_recorded s'"
  by (auto simp: workers_recorded_def intro: keeps_recorded)

text \<open>The scheduler keeps every execution record, and publishes only what it has recorded.\<close>

lemma next_recorded:
  assumes inv: "invar w" and W: "wire_ok W" and d: "valid d" and rec: "dispatched_recorded W w" "point_recorded w pt"
    and run: "scheduler_next W (the_scheduler d) fr (pt, w) = Some (pt', w')"
  shows "invar w' \<and> keeps_ids w w' \<and> dispatched_recorded W w' \<and> point_recorded w' pt'"
  using inv d run
proof (cases rule: next_effect)
  case rests
  with quiet_dispatched [OF rests(1) rec(1)] show ?thesis by (simp add: quiet_def)
next
  case (took submitted req i)
  with quiet_dispatched [OF took(3) rec(1)] show ?thesis by (simp add: quiet_def)
next
  case (created fr0 i e a)
  have k: "keeps_ids w w'" by (rule keeps_ids_new [OF created(5,6)])
  moreover have "dispatched_recorded W w'"
    by (rule dispatched_recorded_mono [OF rec(1)]) (use k created(4) in \<open>auto simp: keeps_ids_def\<close>)
  moreover have "recorded_for w' i a"
    using created(6) by (simp add: recorded_for_def exec.stored_ids) (simp add: build_execution_def)
  ultimately show ?thesis using created(2,3) by auto
next
  case (published fr0 i e a)
  have a: "recorded_for w' i a" using rec(2) published(1,4) by (simp add: recorded_for_def)
  have "dispatched_recorded W w'"
    unfolding dispatched_recorded_def
  proof (intro allI impI)
    fix j x b
    assume x: "x \<in> set (queue w' (worker_destination j))" "decode_assign W (be_payload x) = Ok b"
    show "recorded_for w' j b"
    proof (cases "x \<in> set (queue w (worker_destination j))")
      case True
      with rec(1) x(2) published(4) show ?thesis by (simp add: dispatched_recorded_def recorded_for_def)
    next
      case False
      with x(1) published(5) have "j = i" "x = build_envelope W fr0 i e a" by (auto split: if_splits)
      with a x(2) show ?thesis by (simp add: build_envelope_def wire_okD [OF W])
    qed
  qed
  with published show ?thesis by (simp add: keeps_ids_same)
qed

lemma call_keeps_ids:
  assumes "invar w" and "client_call valid c"
  shows "keeps_ids w (call_service B S G P c w)"
  using assms by (cases rule: call_effect) (auto simp: quiet_def keeps_ids_same)

text \<open>A worker takes an assignment that waits for it, or nothing; and puts it into its table.\<close>

lemma taken_effect:
  assumes inv: "invar w" and wk: "wk_broker wk = B" "wk_destination wk = worker_destination i"
    and run: "worker_next W wk (c, t, w) = Some (c', t', w')"
  shows "quiet w w' \<and> (t' = t \<or> (\<exists>a. c = Some a \<and> t' = snd (enqueue a t)))
    \<and> (\<forall>a. c' = Some a \<longrightarrow> (\<exists>e \<in> set (queue w (worker_destination i)). decode_assign W (be_payload e) = Ok a))"
proof (cases c)
  case (Some a)
  with run quiet_refl [OF inv] show ?thesis by auto
next
  case None
  with run wk obtain y where y: "broker_consume B (worker_destination i) w = Some (y, w')"
    and t: "t' = t" "\<And>a. c' = Some a \<Longrightarrow> \<exists>e. y = Ok e \<and> decode_assign W (be_payload e) = Ok a"
    by (auto split: option.split_asm sum.split_asm prod.split_asm)
  have "\<exists>e \<in> set (queue w (worker_destination i)). decode_assign W (be_payload e) = Ok a" if "c' = Some a" for a
    using t(2) [OF that] brk.consume_ok [OF inv worker_valid] y by fastforce
  with consume_quiet [OF inv worker_valid y] t(1) show ?thesis by blast
qed

lemma taken_recorded:
  assumes ok: "system_ok W s" and wk: "wk_broker wk = B" "wk_destination wk = worker_destination i"
    and run: "worker_next W wk (sys_carried s i, sys_tables s i, sys_world s) = Some (c, t, w)"
  shows "invar w \<and> keeps_ids (sys_world s) w \<and> dispatched_recorded W w \<and> pe_inv t
    \<and> (\<forall>a. c = Some a \<longrightarrow> recorded_for w i a) \<and> (\<forall>k r. ps_assignments t k = Some r \<longrightarrow> recorded_for w i (ar_assignment r))"
proof -
  have inv: "invar (sys_world s)" and rec: "dispatched_recorded W (sys_world s)" and tab: "pe_inv (sys_tables s i)"
    and wrk: "\<And>a. sys_carried s i = Some a \<Longrightarrow> recorded_for (sys_world s) i a"
      "\<And>k r. ps_assignments (sys_tables s i) k = Some r \<Longrightarrow> recorded_for (sys_world s) i (ar_assignment r)"
    using ok by (simp_all add: system_ok_def workers_recorded_def)
  note eff = taken_effect [OF inv wk run]
  have q: "invar w" "keeps_ids (sys_world s) w" using eff by (simp_all add: quiet_def)
  have "recorded_for (sys_world s) i a" if "c = Some a" for a
    using eff that rec unfolding dispatched_recorded_def by blast
  moreover have "recorded_for (sys_world s) i (ar_assignment r)" if r: "ps_assignments t k = Some r" for k r
  proof (cases "ps_assignments (sys_tables s i) k = Some r")
    case True
    then show ?thesis by (rule wrk(2))
  next
    case False
    with eff r obtain a where a: "sys_carried s i = Some a" "t = snd (enqueue a (sys_tables s i))" by auto
    from enqueue_assignment [OF prod.collapse [symmetric], of a "sys_tables s i" k r] a(2) r False
    have "ar_assignment r = a" by simp
    with wrk(1) [OF a(1)] show ?thesis by simp
  qed
  moreover have "pe_inv t" using tab eff by (auto simp: op_keeps)
  ultimately show ?thesis using q keeps_recorded [OF q(2)] quiet_dispatched [OF _ rec] eff by blast
qed

lemma system_step_ok:
  assumes "system_step W (service d) (the_scheduler d) F C s s'" and W: "wire_ok W" and d: "valid d"
    and C: "\<And>c. C c \<Longrightarrow> client_call valid c" and ok: "system_ok W s"
  shows "system_ok W s'"
proof -
  have inv: "invar (sys_world s)" and rec: "dispatched_recorded W (sys_world s)"
    and pt: "point_recorded (sys_world s) (sys_scheduler s)" and wrk: "workers_recorded s"
    and tab: "\<And>i. pe_inv (sys_tables s i)" using ok by (simp_all add: system_ok_def)
  from assms(1) show ?thesis
  proof cases
    case (scheduled fr pt' w)
    note n = next_recorded [OF inv W d rec pt scheduled(3)]
    then have "workers_recorded s'" using scheduled(1) by (intro keeps_workers [OF _ _ _ wrk]) simp_all
    with n scheduled(1) tab show ?thesis by (simp add: system_ok_def)
  next
    case (called c)
    have c: "client_call valid c" by (rule C [OF called(2)])
    note k = call_keeps_ids [OF inv c]
    then have "workers_recorded s'" using called(1) by (intro keeps_workers [OF _ _ _ wrk]) simp_all
    with call_recorded [OF inv rec c] keeps_point [OF k pt] called(1) tab show ?thesis by (simp add: system_ok_def)
  next
    case (taken wk i a t w)
    have wk: "wk_broker wk = B" using taken(2) by simp
    note t = taken_recorded [OF ok wk taken(3,4)]
    then have "workers_recorded s'" using wrk taken(1) keeps_recorded [of "sys_world s" w] by (auto simp: workers_recorded_def)
    with t keeps_point [OF _ pt] taken(1) tab show ?thesis by (simp add: system_ok_def)
  next
    case (handled l i t)
    have "pe_inv t" by (rule pe_step_inv [OF handled(2) tab])
    moreover have "recorded_for (sys_world s) i (ar_assignment r)" if "ps_assignments t k = Some r" for k r
    proof -
      from pe_step_assignment [OF handled(2) tab handled(3) that] obtain r0 where
        "ps_assignments (sys_tables s i) k = Some r0" "ar_assignment r = ar_assignment r0" by blast
      with wrk show ?thesis by (simp add: workers_recorded_def)
    qed
    ultimately show ?thesis using ok handled(1) by (auto simp: system_ok_def workers_recorded_def)
  next
    case (begun i)
    with ok pe_inv_default show ?thesis by (auto simp: system_ok_def workers_recorded_def pe_default_def)
  qed
qed

lemma system_run_ok:
  assumes "system_run W (service d) (the_scheduler d) F C s s'" and "wire_ok W" and "valid d"
    and "\<And>c. C c \<Longrightarrow> client_call valid c" and "system_ok W s"
  shows "system_ok W s'"
  using assms(1,5) by (induction rule: rtranclp_induct) (use system_step_ok assms(2-4) in blast)+

section \<open>Every task is executed at most once\<close>

text \<open>The tasks of a job that wait.\<close>

definition tasks :: "'w \<Rightarrow> string \<Rightarrow> string \<Rightarrow> nat" where
  "tasks w d j = length (filter (\<lambda>e. be_correlation_id e = Some j) (queue w d))"

lemma resting_flying [simp]: "resting pt \<Longrightarrow> flying j pt = 0"
  by (cases pt) simp_all

text \<open>Every new execution of a job is paid for by a task of the job that is gone.\<close>

definition spends :: "string \<Rightarrow> string \<Rightarrow> scheduler_point \<times> 'w \<Rightarrow> scheduler_point \<times> 'w \<Rightarrow> bool" where
  "spends d j s s' \<longleftrightarrow> (\<exists>E. finite E \<and> executions (snd s') j \<subseteq> executions (snd s) j \<union> E
     \<and> card E + tasks (snd s') d j + flying j (fst s') \<le> tasks (snd s) d j + flying j (fst s))"

lemma spends_none:
  "executions w' j = executions w j \<Longrightarrow> tasks w' d j + flying j pt' \<le> tasks w d j + flying j pt \<Longrightarrow>
   spends d j (pt, w) (pt', w')"
  unfolding spends_def by (rule exI [of _ "{}"]) simp

lemma spends_trans:
  assumes "spends d j s s1" and "spends d j s1 s2"
  shows "spends d j s s2"
proof -
  from assms obtain E1 E2 where
    "finite E1" "executions (snd s1) j \<subseteq> executions (snd s) j \<union> E1"
    "card E1 + tasks (snd s1) d j + flying j (fst s1) \<le> tasks (snd s) d j + flying j (fst s)"
    "finite E2" "executions (snd s2) j \<subseteq> executions (snd s1) j \<union> E2"
    "card E2 + tasks (snd s2) d j + flying j (fst s2) \<le> tasks (snd s1) d j + flying j (fst s1)"
    unfolding spends_def by blast
  moreover have "card (E1 \<union> E2) \<le> card E1 + card E2" by (rule card_Un_le)
  ultimately show ?thesis unfolding spends_def by (intro exI [of _ "E1 \<union> E2"]) auto
qed

lemma quiet_tasks:
  assumes "quiet w w'"
  shows "executions w' j = executions w j" "tasks w' d j \<le> tasks w d j"
proof -
  have "subseq (filter P (queue w' d)) (filter P (queue w d))" for P
    using assms by (simp add: quiet_def subseq_filter)
  then show "tasks w' d j \<le> tasks w d j" unfolding tasks_def by (rule list_emb_length)
qed (use assms in \<open>simp add: quiet_def\<close>)

lemma quiet_spends: "quiet w w' \<Longrightarrow> flying j pt' \<le> flying j pt \<Longrightarrow> spends d j (pt, w) (pt', w')"
  using quiet_tasks by (intro spends_none) (simp_all add: add_mono)

lemma next_spends:
  assumes inv: "invar w" and d: "task_queue d" and fresh: "fr_job_id fr \<noteq> j"
    and run: "scheduler_next W (the_scheduler d) fr (pt, w) = Some (pt', w')"
  shows "invar w' \<and> spends d j (pt, w) (pt', w')"
proof -
  have v: "valid d" and nd: "\<And>i. d \<noteq> worker_destination i" using d by (simp_all add: task_queue_def)
  from inv v run show ?thesis
  proof (cases rule: next_effect)
    case rests
    with quiet_spends show ?thesis by (simp add: quiet_def)
  next
    case (took submitted req i)
    have "flying j pt' = (if be_correlation_id submitted = Some j then 1 else 0)"
      using fresh by (auto simp: took(1) build_assignment_def split: option.split)
    moreover have "tasks w d j = (if be_correlation_id submitted = Some j then 1 else 0) + tasks w' d j"
      by (simp add: tasks_def took(2))
    ultimately show ?thesis using took(3) by (intro conjI spends_none) (simp_all add: quiet_def)
  next
    case (created fr0 i e a)
    have job: "xr_job_id (stored (build_execution fr0 i a)) = aer_job_id a"
      by (simp add: exec.stored_ids) (simp add: build_execution_def)
    have t: "tasks w' d j = tasks w d j" "flying j pt' = 0" using created(2,4) by (auto simp: tasks_def)
    have "executions w' j \<subseteq> executions w j \<union> (if aer_job_id a = j then {aer_execution_id a} else {})"
      using job by (auto simp: executions_def created(6) split: if_splits)
    then have "spends d j (pt, w) (pt', w')" unfolding spends_def
      by (intro exI [of _ "if aer_job_id a = j then {aer_execution_id a} else {}"]) (simp add: t created(1))
    with created(3) show ?thesis ..
  next
    case (published fr0 i e a)
    have "queue w' d = queue w d" using published(5) nd by auto
    then have "spends d j (pt, w) (pt', w')"
      using published(1,2,4) by (intro spends_none) (simp_all add: executions_def tasks_def)
    with published(3) show ?thesis ..
  qed
qed

lemma call_spends:
  assumes "invar w" and "client_call valid c" and "\<not> submits d j c"
  shows "spends d j (pt, w) (pt, call_service B S G P c w)"
  using assms(1,2)
proof (cases rule: call_effect)
  case (published e)
  then show ?thesis using assms(3) by (intro spends_none) (auto simp: executions_def tasks_def submits_def)
next
  case quiet
  then show ?thesis by (simp add: quiet_spends)
qed

abbreviation point :: "'w system \<Rightarrow> scheduler_point \<times> 'w" where
  "point s \<equiv> (sys_scheduler s, sys_world s)"

lemma system_step_spends:
  assumes "system_step W (service d) (the_scheduler d) F C s s'" and d: "task_queue d"
    and C: "\<And>c. C c \<Longrightarrow> client_call valid c \<and> \<not> submits d j c" and F: "\<And>fr. F fr \<Longrightarrow> fr_job_id fr \<noteq> j"
    and inv: "invar (sys_world s)"
  shows "invar (sys_world s') \<and> spends d j (point s) (point s')"
  using assms(1)
proof cases
  case (scheduled fr pt w)
  with next_spends [OF inv d F [OF scheduled(2)] scheduled(3)] show ?thesis by simp
next
  case (called c)
  have c: "client_call valid c" "\<not> submits d j c" using C [OF called(2)] by simp_all
  have "invar (call_service B S G P c (sys_world s))"
    using inv c(1) by (cases rule: call_effect) (auto simp: quiet_def)
  with call_spends [OF inv c] called(1) show ?thesis by simp
next
  case (taken wk i a t w)
  have wk: "wk_broker wk = B" using taken(2) by simp
  have "quiet (sys_world s) w" using taken_effect [OF inv wk taken(3,4)] by simp
  with quiet_spends taken(1) show ?thesis by (simp add: quiet_def)
qed (use inv spends_none in simp_all)

lemma system_run_spends:
  assumes "system_run W (service d) (the_scheduler d) F C s s'" and "task_queue d"
    and "\<And>c. C c \<Longrightarrow> client_call valid c \<and> \<not> submits d j c" and "\<And>fr. F fr \<Longrightarrow> fr_job_id fr \<noteq> j"
    and "invar (sys_world s)"
  shows "invar (sys_world s') \<and> spends d j (point s) (point s')"
  using assms(1)
proof (induction rule: rtranclp_induct)
  case base
  show ?case using assms(5) spends_none by simp
next
  case (step y z)
  with system_step_spends [OF step(2) assms(2-4)] spends_trans show ?case by blast
qed

text \<open>A submission adds at most one task of its job, whatever it answers.\<close>

lemma accept_tasks:
  assumes inv: "invar (core_world c)" and d: "valid d" and run: "accept W (service d) alone alone sub req c = (res, c')"
  shows "invar (core_world c') \<and> recs (core_world c') = recs (core_world c)
    \<and> tasks (core_world c') d j \<le> Suc (tasks (core_world c) d j)"
proof -
  let ?e = "task_envelope W (service d) sub req"
  have pub: "invar w \<and> recs w = recs (core_world c) \<and> tasks w d j \<le> Suc (tasks (core_world c) d j)"
    if "broker_publish B ?e (core_world c) = (x, w)" for x w
  proof -
    have v: "valid (be_destination ?e)" using d by simp
    have "queue w d = queue (core_world c) d \<or> queue w d = queue (core_world c) d @ [?e]"
      using brk.publish_queue [OF inv v] that by auto
    then have "tasks w d j \<le> Suc (tasks (core_world c) d j)" by (auto simp: tasks_def)
    with brk.invar_publish [OF inv v] publish_frame [OF inv v that] that show ?thesis by simp
  qed
  from run show ?thesis
  proof (cases rule: accept_cases)
    case (published w x w')
    from pub [OF published(2)] have w: "invar w" by simp
    from result_frame [OF w published(3)] res.invar_store [OF w, of "sub_job_id sub" "accepted_result W"] published(3,5)
      pub [OF published(2)] show ?thesis by (simp add: tasks_def)
  qed (use inv pub in auto)
qed

text \<open>So a job whose identifier is new is executed at most once.\<close>

lemma executed_at_most_once:
  assumes inv: "invar (core_world c)" and d: "task_queue d"
    and run: "accept W (service d) alone alone sub req c = (res, c')"
    and new: "\<And>e. e \<in> set (queue (core_world c) d) \<Longrightarrow> be_correlation_id e \<noteq> Some (sub_job_id sub)"
      "\<And>k r. recs (core_world c) k = Some r \<Longrightarrow> xr_job_id r \<noteq> sub_job_id sub"
    and start: "sys_world s0 = core_world c'" "flying (sub_job_id sub) (sys_scheduler s0) = 0"
    and steps: "system_run W (service d) (the_scheduler d) (\<lambda>fr. fr_job_id fr \<noteq> sub_job_id sub)
      (\<lambda>x. client_call valid x \<and> \<not> submits d (sub_job_id sub) x) s0 s"
    and two: "recs (sys_world s) k1 = Some r1" "xr_job_id r1 = sub_job_id sub"
      "recs (sys_world s) k2 = Some r2" "xr_job_id r2 = sub_job_id sub"
  shows "k1 = k2"
proof -
  let ?j = "sub_job_id sub"
  have v: "valid d" using d by (simp add: task_queue_def)
  note a = accept_tasks [OF inv v run, of ?j]
  have "filter (\<lambda>e. be_correlation_id e = Some ?j) (queue (core_world c) d) = []"
    using new(1) by (simp add: filter_empty_conv)
  then have "tasks (core_world c') d ?j \<le> 1" using a by (simp add: tasks_def)
  moreover have "executions (core_world c') ?j = {}" using a new(2) by (auto simp: executions_def)
  moreover from system_run_spends [OF steps d, of ?j] a start
  have "spends d ?j (point s0) (point s)" by simp
  ultimately obtain E where E: "finite E" "executions (sys_world s) ?j \<subseteq> E" "card E \<le> 1"
    unfolding spends_def using start by auto
  have "k1 \<in> E" "k2 \<in> E" using two E(2) by (auto simp: executions_def)
  with E show ?thesis by (metis card_le_Suc0_iff_eq One_nat_def)
qed

end

section \<open>The worker a task goes to\<close>

context reliable_control_plane
begin

text \<open>A scheduler that waits for a task gives it to the worker it chose before it waited.\<close>

lemma waiting_assigns:
  assumes inv: "invar w" and d: "task_queue d" and q: "queue w d = submitted # rest"
    and req: "decode_submit W (be_payload submitted) = Ok req" and new: "recs w (fr_execution_id fr) = None"
  shows "\<exists>w'. let a = build_assignment fr (job_of fr submitted) req in
      scheduler_steps W (the_scheduler d) fr 3 (AtConsume i, w) = Some (AtListing, w')
    \<and> recs w' = (recs w)(fr_execution_id fr \<mapsto> stored (build_execution fr i a))
    \<and> queue w' = (queue w)(d := rest, worker_destination i :=
        queue w (worker_destination i) @ [build_envelope W fr i submitted a])
    \<and> shrinks (members w) (members w')"
proof -
  let ?a = "build_assignment fr (job_of fr submitted) req"
  let ?e = "build_envelope W fr i submitted ?a"
  have v: "valid d" and nd: "d \<noteq> worker_destination i" using d by (simp_all add: task_queue_def)
  obtain x w1 where c: "broker_consume B d w = Some (x, w1)"
    using brk.consume_waits [OF inv v] q by (cases "broker_consume B d w") auto
  obtain e where x: "x = Ok e" using consume_succeeds [OF inv v c] by (cases x) auto
  note c = c [unfolded x]
  have inv1: "invar w1" by (rule brk.invar_consume [OF inv v c])
  have q1: "e = submitted" "queue w1 = (queue w)(d := rest)" using brk.consume_ok [OF inv v c] q by auto
  have r1: "recs w1 = recs w" "shrinks (members w) (members w1)" using consume_frame [OF inv v c] by simp_all
  have x2: "xr_execution_id (build_execution fr i ?a) = fr_execution_id fr"
    by (simp add: build_execution_def build_assignment_def)
  obtain w2 where w2: "store_create S (build_execution fr i ?a) w1 = (Ok (), w2)"
    using create_succeeds [OF inv1, of "build_execution fr i ?a"] new r1(1) x2
    by (cases "store_create S (build_execution fr i ?a) w1"; cases "fst (store_create S (build_execution fr i ?a) w1)") auto
  have inv2: "invar w2" using exec.invar_create [OF inv1, of "build_execution fr i ?a"] w2 by simp
  note f2 = exec.create_ok [OF inv1 w2] create_frame [OF inv1 w2]
  have dest: "be_destination ?e = worker_destination i" by (simp add: build_envelope_def)
  then have v3: "valid (be_destination ?e)" by (simp add: worker_valid)
  obtain w3 where w3: "broker_publish B ?e w2 = (Ok (), w3)"
    using publish_succeeds [OF inv2 v3] by (cases "broker_publish B ?e w2"; cases "fst (broker_publish B ?e w2)") auto
  note f3 = brk.publish_ok [OF inv2 v3 w3] publish_frame [OF inv2 v3 w3]
  have "scheduler_steps W (the_scheduler d) fr 3 (AtConsume i, w) = Some (AtListing, w3)"
    using c q1(1) req w2 w3 by (simp add: numeral_3_eq_3 Let_def)
  moreover have "shrinks (members w) (members w3)" using r1(2) f2 f3 shrinks_trans by blast
  moreover have "queue w3 = (queue w)(d := rest, worker_destination i := queue w (worker_destination i) @ [?e])"
    using f2 f3 q1(2) nd dest by (auto simp: fun_eq_iff)
  moreover have "recs w3 = (recs w)(fr_execution_id fr \<mapsto> stored (build_execution fr i ?a))"
    using f2 f3 r1(1) x2 by simp
  ultimately show ?thesis by (intro exI [of _ w3]) (simp add: Let_def)
qed

end

section \<open>Over Redis\<close>

text \<open>The execution record of an assignment, made out to worker \<open>i\<close>.\<close>

definition has_record :: "wire \<Rightarrow> string \<Rightarrow> keyspace \<Rightarrow> string \<Rightarrow> AssignExecutionRequest \<Rightarrow> bool" where
  "has_record W p v i a \<longleftrightarrow> (\<exists>r. exec_recs W (plane_store p) v (aer_execution_id a) = Some r \<and> xr_worker_id r = i
     \<and> xr_assignment_id r = aer_assignment_id a \<and> xr_job_id r = aer_job_id a)"

context redis_deployment
begin

lemmas redis_system_ok = plane.system_run_ok [where W = W, folded plane_service_def redis_scheduler_def,
  unfolded plane.system_ok_def recorded_iff plane.point_recorded_def plane.workers_recorded_def plane.recorded_for_def, folded has_record_def]

lemmas redis_at_most_once = plane.executed_at_most_once [where W = W,
  folded plane_service_def redis_scheduler_def, unfolded task_queue_iff]

end

context reliable_deployment
begin

lemmas redis_delivers = rplane.execute_one_delivers [where W = W]

lemmas redis_waiting_assigns = rplane.waiting_assigns [where W = W, folded redis_scheduler_def job_of_def,
  unfolded task_queue_iff]

end

text \<open>C4. Every assignment, wherever it is, has an execution record that names its worker, its identifier
  and its job: the one the scheduler is about to publish, those in the queues of the workers, the one a
  worker has just taken, and those in the workers' tables. The system keeps this from its start, whatever
  the scheduler, the handlers of the control plane, the workers and their runtime sessions do, in any order
  between their awaits, whichever of their calls fail and whichever of them are restarted.\<close>

theorem assignments_recorded_everywhere:
  assumes "redis_ok R" and "wire_ok W" and "free_destination d" and "plane_inv W p ttl (rd_view R w)"
    and "assignments_recorded W p (rd_view R w)"
    and "system_run W (plane_service R W p ttl d) (redis_scheduler R W p ttl d) F (client_call free_destination)
      (system_start w) s"
  shows "assignments_recorded W p (rd_view R (sys_world s))
    \<and> (\<forall>fr i e a. sys_scheduler s = AtPublish fr i e a \<longrightarrow> has_record W p (rd_view R (sys_world s)) i a)
    \<and> (\<forall>i a. sys_carried s i = Some a \<longrightarrow> has_record W p (rd_view R (sys_world s)) i a)
    \<and> (\<forall>i k r. ps_assignments (sys_tables s i) k = Some r \<longrightarrow>
        has_record W p (rd_view R (sys_world s)) i (ar_assignment r))"
proof -
  note dep = redis_deployment.intro [OF assms(1,2)]
  from redis_deployment.redis_system_ok [OF dep assms(6,2,3)] assms(4,5)
  show ?thesis by (simp add: pe_inv_default pe_default_empty)
qed

text \<open>In particular a run of the scheduler keeps the assignments in the queues recorded, whatever its steps
  do and whichever of them fail, while clients submit tasks, workers consume, register and beat, and
  execution states and results are written.\<close>

lemma scheduler_assignments_recorded:
  assumes "redis_ok R" and "wire_ok W" and "free_destination d" and "plane_inv W p ttl (rd_view R s)"
    and "assignments_recorded W p (rd_view R s)"
    and "\<And>fr cs c. (fr, cs) \<in> set steps \<Longrightarrow> c \<in> set cs \<Longrightarrow> client_call free_destination c"
  shows "assignments_recorded W p (rd_view R (snd (snd (scheduler_run W (redis_scheduler R W p ttl d)
    (map (\<lambda>(fr, cs). (fr, fold (call_service (redis_broker R W (plane_broker p))
       (redis_execution_store R W (plane_store p)) (redis_worker_registry R W (plane_registry p ttl))
       (redis_result_backend R W (plane_results p))) cs)) steps) s))))"
proof -
  obtain pt where "system_run W (plane_service R W p ttl d) (redis_scheduler R W p ttl d) (\<lambda>_. True) (client_call free_destination)
      (system_start s) ((system_start s)\<lparr>sys_world := snd (snd (scheduler_run W (redis_scheduler R W p ttl d)
        (map (\<lambda>(fr, cs). (fr, fold (call_on (plane_service R W p ttl d)) cs)) steps) s)), sys_scheduler := pt\<rparr>)"
    using scheduler_run_run [of steps "\<lambda>_. True" "client_call free_destination" "system_start s" W "plane_service R W p ttl d"
        "redis_scheduler R W p ttl d"] assms(6) by auto
  from redis_deployment.redis_system_ok [OF redis_deployment.intro [OF assms(1,2)] this assms(2,3)] assms(4,5)
  show ?thesis by (simp add: pe_inv_default pe_default_empty plane_service_def with_stores_def)
qed

text \<open>The scheduler assigns the sample task, and its worker takes the assignment.\<close>

lemma sample_taken:
  assumes "F sample_fresh"
  shows "\<exists>a t s. system_run unary_wire (plane_service calm_redis unary_wire ''tw'' sample_ttl ''tasks'')
      (redis_scheduler calm_redis unary_wire ''tw'' sample_ttl ''tasks'') F C (system_start sample_waiting)
      ((system_start s)\<lparr>sys_tables := (\<lambda>_. pe_default)(''w1'' := t)\<rparr>)
    \<and> ps_assignments t ''a1'' = Some (new_record a) \<and> aer_execution_id a = ''x1''"
proof -
  let ?svc = "plane_service calm_redis unary_wire ''tw'' sample_ttl ''tasks''"
  let ?sch = "redis_scheduler calm_redis unary_wire ''tw'' sample_ttl ''tasks''"
  obtain a s1 where run: "schedule_one unary_wire ?sch sample_fresh sample_waiting
      = Some (Ok (AssignedDecision ''w1'' a), s1)" using sample_assigned by blast
  have inv1: "plane_inv unary_wire ''tw'' sample_ttl (rd_view calm_redis s1)"
    using calm.plane.step_invar [OF sample_waiting_inv(1) free_tasks(1) run [unfolded redis_scheduler_def]] .
  from calm.redis_assigned [OF sample_waiting_inv(1) free_tasks(2) run]
  obtain submitted req where a: "a = build_assignment sample_fresh (job_of sample_fresh submitted) req"
    and queues: "plane_queue unary_wire ''tw'' (rd_view calm_redis s1) (worker_destination ''w1'')
      = plane_queue unary_wire ''tw'' (rd_view calm_redis sample_waiting) (worker_destination ''w1'')
        @ [build_envelope unary_wire sample_fresh ''w1'' submitted a]" by auto
  have q: "plane_queue unary_wire ''tw'' (rd_view calm_redis s1) (worker_destination ''w1'')
      = build_envelope unary_wire sample_fresh ''w1'' submitted a # []"
    using queues waiting_elsewhere [OF sample_destination, of "worker_destination ''w1''"]
    by (simp add: worker_destination_def)
  have dec: "decode_assign unary_wire (be_payload (build_envelope unary_wire sample_fresh ''w1'' submitted a)) = Ok a"
    by (simp add: build_envelope_def wire_okD [OF unary_wire_ok])
  have ids: "aer_assignment_id a = ''a1''" "aer_execution_id a = ''x1''"
    by (simp_all add: a build_assignment_def sample_fresh_def)
  have "\<not> blank (aer_assignment_id a)" "\<not> blank (aer_execution_id a)" "ps_assignments pe_default (aer_assignment_id a) = None"
    using sample_fresh_ids by (simp_all add: a build_assignment_def pe_default_def)
  with calm.redis_delivers [OF inv1 sample_worker_fields [of "''two''"] q dec] obtain t s where
    t: "execute_one unary_wire (sample_worker ''two'') (pe_default, s1) = Some (Ok a, t, s)"
    "ps_assignments t (aer_assignment_id a) = Some (new_record a)" by blast
  have "system_run unary_wire ?svc ?sch F C (system_start sample_waiting) (system_start s1)"
    using schedule_one_run [of F sample_fresh unary_wire ?sch "system_start sample_waiting" _ s1 ?svc C] assms run by simp
  moreover have "system_run unary_wire ?svc ?sch F C (system_start s1)
      ((system_start s)\<lparr>sys_tables := (\<lambda>_. pe_default)(''w1'' := t)\<rparr>)"
    using execute_one_run [of "sample_worker ''two''" ?svc "''w1''" unary_wire "system_start s1" "Ok a" t s]
      sample_worker_fields t(1) by (simp add: plane_service_def with_stores_def)
  ultimately have "system_run unary_wire ?svc ?sch F C (system_start sample_waiting)
      ((system_start s)\<lparr>sys_tables := (\<lambda>_. pe_default)(''w1'' := t)\<rparr>)" by (rule rtranclp_trans)
  with t(2) ids show ?thesis by (intro exI [of _ a] exI [of _ t] exI [of _ s]) simp
qed

theorem assignments_recorded_everywhere_witness:
  "\<exists>a t s. system_run unary_wire (plane_service calm_redis unary_wire ''tw'' sample_ttl ''tasks'')
      (redis_scheduler calm_redis unary_wire ''tw'' sample_ttl ''tasks'') (\<lambda>_. True) (client_call free_destination)
      (system_start sample_waiting) ((system_start s)\<lparr>sys_tables := (\<lambda>_. pe_default)(''w1'' := t)\<rparr>)
    \<and> ps_assignments t ''a1'' = Some a
    \<and> has_record unary_wire ''tw'' (rd_view calm_redis s) ''w1'' (ar_assignment a)"
proof -
  obtain a t s where run: "system_run unary_wire (plane_service calm_redis unary_wire ''tw'' sample_ttl ''tasks'')
      (redis_scheduler calm_redis unary_wire ''tw'' sample_ttl ''tasks'') (\<lambda>_. True) (client_call free_destination)
      (system_start sample_waiting) ((system_start s)\<lparr>sys_tables := (\<lambda>_. pe_default)(''w1'' := t)\<rparr>)"
    and t: "ps_assignments t ''a1'' = Some (new_record a)" "aer_execution_id a = ''x1''"
    using sample_taken [of "\<lambda>_. True"] by blast
  have "assignments_recorded unary_wire ''tw'' (rd_view calm_redis sample_waiting)"
    using waiting_elsewhere [OF sample_destination] by (simp add: assignments_recorded_def worker_destination_def)
  from assignments_recorded_everywhere [OF calm_redis_ok unary_wire_ok free_tasks(1) sample_waiting_inv(1) this run]
  have "has_record unary_wire ''tw'' (rd_view calm_redis s) ''w1'' (ar_assignment (new_record a))"
    using t(1) by (simp add: all_conj_distrib)
  with run t(1) show ?thesis by blast
qed

section \<open>At most one execution\<close>

text \<open>C2. A job is executed at most once: whatever a submission under a new job identifier answers, along
  every run of the system there is at most one execution record of that job, as long as no other task is
  submitted under the same identifier. The submission may come wherever the scheduler is, as long as it
  does not hold a task of that job; a task that it takes is gone from the queue, also when it fails
  halfway.\<close>

theorem job_executed_at_most_once:
  assumes "redis_ok R" and "wire_ok W" and "task_destination d" and "plane_inv W p ttl (rd_view R (core_world c))"
    and "submit_task W (plane_service R W p ttl d) alone alone sub req c = (answer, c')"
    and "\<And>e. e \<in> set (plane_queue W p (rd_view R (core_world c)) d) \<Longrightarrow> be_correlation_id e \<noteq> Some (sub_job_id sub)"
    and "\<And>k r. exec_recs W (plane_store p) (rd_view R (core_world c)) k = Some r \<Longrightarrow> xr_job_id r \<noteq> sub_job_id sub"
    and "system_run W (plane_service R W p ttl d) (redis_scheduler R W p ttl d)
      (\<lambda>fr. fr_job_id fr \<noteq> sub_job_id sub)
      (\<lambda>call. client_call free_destination call \<and> \<not> submits d (sub_job_id sub) call) s0 s"
    and "sys_world s0 = core_world c'" and "flying (sub_job_id sub) (sys_scheduler s0) = 0"
    and "exec_recs W (plane_store p) (rd_view R (sys_world s)) k1 = Some r1" and "xr_job_id r1 = sub_job_id sub"
    and "exec_recs W (plane_store p) (rd_view R (sys_world s)) k2 = Some r2" and "xr_job_id r2 = sub_job_id sub"
  shows "k1 = k2"
  using redis_deployment.redis_at_most_once [OF redis_deployment.intro [OF assms(1,2)] assms(4,3)
      assms(5) [unfolded submit_task_def] assms(6,7,9,10,8,11-14)] .

theorem job_executed_at_most_once_witness:
  "\<exists>resp c' s r. submit_task unary_wire (plane_service calm_redis unary_wire ''tw'' sample_ttl ''tasks'') alone alone
       (sample_submission ''j1'') sample_request (core_start sample_registered) = (Ok resp, c')
   \<and> system_run unary_wire (plane_service calm_redis unary_wire ''tw'' sample_ttl ''tasks'')
      (redis_scheduler calm_redis unary_wire ''tw'' sample_ttl ''tasks'') (\<lambda>fr. fr_job_id fr \<noteq> ''j1'')
      (\<lambda>call. client_call free_destination call \<and> \<not> submits ''tasks'' ''j1'' call) (system_start (core_world c')) s
   \<and> exec_recs unary_wire (plane_store ''tw'') (rd_view calm_redis (sys_world s)) ''x1'' = Some r \<and> xr_job_id r = ''j1''
   \<and> (\<forall>k r. exec_recs unary_wire (plane_store ''tw'') (rd_view calm_redis (sys_world s)) k = Some r \<longrightarrow>
        xr_job_id r = ''j1'' \<longrightarrow> k = ''x1'')"
proof -
  let ?svc = "plane_service calm_redis unary_wire ''tw'' sample_ttl ''tasks''"
  let ?sch = "redis_scheduler calm_redis unary_wire ''tw'' sample_ttl ''tasks''"
  let ?c = "core_start sample_registered"
  have j: "sub_job_id (sample_submission ''j1'') = ''j1''" by (simp add: sample_submission_def)
  obtain resp c' where run: "submit_task unary_wire ?svc alone alone (sample_submission ''j1'') sample_request ?c = (Ok resp, c')"
    using calm.redis_accept_succeeds [OF sample_idle(1) free_tasks(1), of "sample_submission ''j1''" sample_request]
    unfolding submit_task_def by (auto simp: core_start_def)
  note a = calm.redis_accept_ok [OF sample_idle(1) free_tasks(1) run [unfolded submit_task_def]]
  let ?e = "task_envelope unary_wire ?svc (sample_submission ''j1'') sample_request"
  have inv: "plane_inv unary_wire ''tw'' sample_ttl (rd_view calm_redis (core_world c'))"
    using calm.plane.accept_tasks [OF sample_idle(1) free_tasks(1) run [unfolded submit_task_def plane_service_def]] by simp
  have q: "plane_queue unary_wire ''tw'' (rd_view calm_redis (core_world c')) ''tasks'' = ?e # []"
    and x: "exec_recs unary_wire (plane_store ''tw'') (rd_view calm_redis (core_world c')) (fr_execution_id sample_fresh) = None"
    using a sample_idle by simp_all
  have req: "decode_submit unary_wire (be_payload ?e) = Ok sample_request"
    by (simp add: task_envelope_def wire_okD [OF unary_wire_ok])
  obtain b s where step: "schedule_one unary_wire ?sch sample_fresh (core_world c') = Some (Ok (AssignedDecision ''w1'' b), s)"
    using calm.redis_progress [OF inv free_tasks(1) q req x] sample_submitted_listing [OF run]
    by (auto simp: plane_registry_sample sample_fresh_def split: list.splits)
  have "job_of sample_fresh ?e = ''j1''" by (simp add: job_of_def task_envelope_def j)
  with calm.redis_assigned [OF inv free_tasks(2) step] q
  have b: "exec_recs unary_wire (plane_store ''tw'') (rd_view calm_redis s) ''x1'' = Some (in_millis (build_execution sample_fresh ''w1'' b))"
    "xr_job_id (in_millis (build_execution sample_fresh ''w1'' b)) = sub_job_id (sample_submission ''j1'')"
    by (auto simp: build_assignment_def build_execution_def sample_fresh_def j)
  have steps: "system_run unary_wire ?svc ?sch (\<lambda>fr. fr_job_id fr \<noteq> sub_job_id (sample_submission ''j1''))
      (\<lambda>call. client_call free_destination call \<and> \<not> submits ''tasks'' (sub_job_id (sample_submission ''j1'')) call)
      (system_start (core_world c')) (system_start s)"
    using schedule_one_run [of "\<lambda>fr. fr_job_id fr \<noteq> sub_job_id (sample_submission ''j1'')" sample_fresh unary_wire ?sch
        "system_start (core_world c')" "Ok (AssignedDecision ''w1'' b)" s ?svc] step by (simp add: j) (simp add: sample_fresh_def)
  have "k = ''x1''" if "exec_recs unary_wire (plane_store ''tw'') (rd_view calm_redis s) k = Some r" "xr_job_id r = ''j1''" for k r
    by (rule job_executed_at_most_once [OF calm_redis_ok unary_wire_ok free_tasks(2) sample_idle(1) run _ _ steps _ _ _ _ _ b(2)])
      (use sample_idle sample_registered_inv(3) that b j in \<open>simp_all add: core_start_def\<close>)
  then have one: "\<forall>k r. exec_recs unary_wire (plane_store ''tw'') (rd_view calm_redis (sys_world (system_start s))) k = Some r
      \<longrightarrow> xr_job_id r = ''j1'' \<longrightarrow> k = ''x1''" by simp
  have b': "exec_recs unary_wire (plane_store ''tw'') (rd_view calm_redis (sys_world (system_start s))) ''x1''
      = Some (in_millis (build_execution sample_fresh ''w1'' b))" using b(1) by simp
  show ?thesis
    by (intro exI [of _ resp] exI [of _ c'] exI [of _ "system_start s"]
        exI [of _ "in_millis (build_execution sample_fresh ''w1'' b)"] conjI) (fact run steps [unfolded j] b' b(2) [unfolded j] one)+
qed

section \<open>The worker a task goes to, over Redis\<close>

text \<open>C32. The worker of a task is chosen before the scheduler waits for the task, and not looked at again:
  over a reliable connection, the first decodable task that arrives goes to the worker chosen then, with
  its record and its assignment, also when that worker has left the registry in the meantime.\<close>

theorem waiting_scheduler_keeps_its_choice:
  assumes "redis_ok R" and "wire_ok W" and "reliable R" and "plane_inv W p ttl (rd_view R s)" and "task_destination d"
    and "plane_queue W p (rd_view R s) d = submitted # rest" and "decode_submit W (be_payload submitted) = Ok req"
    and "exec_recs W (plane_store p) (rd_view R s) (fr_execution_id fr) = None"
    and "registry_members W (plane_registry p ttl) (rd_view R s) i = None"
  shows "\<exists>s' a. scheduler_steps W (redis_scheduler R W p ttl d) fr 3 (AtConsume i, s) = Some (AtListing, s')
    \<and> a = build_assignment fr (job_of fr submitted) req
    \<and> plane_queue W p (rd_view R s') = (plane_queue W p (rd_view R s))(d := rest, worker_destination i :=
        plane_queue W p (rd_view R s) (worker_destination i) @ [build_envelope W fr i submitted a])
    \<and> has_record W p (rd_view R s') i a
    \<and> registry_members W (plane_registry p ttl) (rd_view R s') i = None"
proof -
  let ?a = "build_assignment fr (job_of fr submitted) req"
  note dep = reliable_deploymentI [OF assms(1-3)]
  from reliable_deployment.redis_waiting_assigns [OF dep assms(4-8), of i] obtain s' where
    s': "scheduler_steps W (redis_scheduler R W p ttl d) fr 3 (AtConsume i, s) = Some (AtListing, s')"
      "exec_recs W (plane_store p) (rd_view R s') = (exec_recs W (plane_store p) (rd_view R s))
        (fr_execution_id fr \<mapsto> in_millis (build_execution fr i ?a))"
      "plane_queue W p (rd_view R s') = (plane_queue W p (rd_view R s))(d := rest, worker_destination i :=
        plane_queue W p (rd_view R s) (worker_destination i) @ [build_envelope W fr i submitted ?a])"
      "shrinks (registry_members W (plane_registry p ttl) (rd_view R s)) (registry_members W (plane_registry p ttl) (rd_view R s'))"
    by (auto simp: Let_def)
  have "has_record W p (rd_view R s') i ?a"
    unfolding has_record_def s'(2) by (simp add: build_assignment_def build_execution_def)
  moreover have "registry_members W (plane_registry p ttl) (rd_view R s') i = None"
    using s'(4) assms(9) by (auto simp: shrinks_def forget_apply)
  ultimately show ?thesis using s'(1,3) by blast
qed

theorem waiting_scheduler_keeps_its_choice_witness:
  "\<exists>s' a. scheduler_steps unary_wire (redis_scheduler calm_redis unary_wire ''tw'' sample_ttl ''tasks'') sample_fresh 3
      (AtConsume ''gone'', sample_waiting) = Some (AtListing, s')
    \<and> has_record unary_wire ''tw'' (rd_view calm_redis s') ''gone'' a
    \<and> registry_members unary_wire sample_registry (rd_view calm_redis s') ''gone'' = None"
proof -
  have "registry_members unary_wire (plane_registry ''tw'' sample_ttl) (rd_view calm_redis sample_waiting) ''gone'' = None"
    by (simp add: view_calm plane_registry_sample registry_members_def waiting_view [OF sample_destination]
        sample_registered_view sample_worker_key)
  from waiting_scheduler_keeps_its_choice [OF calm_redis_ok unary_wire_ok calm_redis_reliable sample_waiting_inv(1)
      free_tasks(2) sample_waiting_inv(2) sample_decodes sample_waiting_inv(3) this, of sample_fresh]
  show ?thesis unfolding plane_registry_sample by blast
qed

end
