(* ===== verification/Control_Plane_Memory.thy ===== *)
theory Control_Plane_Memory
  imports Whole_System
begin

text \<open>
  \<open>CoreExecutionService::new\<close> of \<^verbatim>\<open>src/src/api/grpc.rs\<close>: a control plane over any broker and result
  backend, with the worker registry and the execution store in memory. It keeps the contracts that the
  control plane over Redis keeps, so the lemmas of \<open>control_plane\<close> hold of it.
\<close>

section \<open>The service of \<open>new\<close>\<close>

text \<open>The services outside of the process, the registry in memory with the last reading of its clock, and
  the store in memory.\<close>

record 'd memory_world =
  mw_outside :: 'd
  mw_registry :: "MemoryWorkerRegistry \<times> instant"
  mw_store :: MemoryExecutionStore

definition outside_broker :: "'d Broker \<Rightarrow> 'd memory_world Broker" where
  "outside_broker B =
     \<lparr>broker_publish = (\<lambda>e w. case broker_publish B e (mw_outside w) of (x, d) \<Rightarrow> (x, w\<lparr>mw_outside := d\<rparr>)),
      broker_consume = (\<lambda>d w. map_option (\<lambda>(x, s). (x, w\<lparr>mw_outside := s\<rparr>)) (broker_consume B d (mw_outside w)))\<rparr>"

definition outside_results :: "'d BackendResult \<Rightarrow> 'd memory_world BackendResult" where
  "outside_results P =
     \<lparr>store_result = (\<lambda>j r w. case store_result P j r (mw_outside w) of (x, d) \<Rightarrow> (x, w\<lparr>mw_outside := d\<rparr>))\<rparr>"

definition inside_registry :: "'d memory_world WorkerRegistry" where
  "inside_registry =
     \<lparr>dir_available_workers = (\<lambda>clk w. map_option (\<lambda>(x, m). (x, w\<lparr>mw_registry := m\<rparr>))
        (dir_available_workers timed_memory_registry clk (mw_registry w))),
      reg_register = (\<lambda>clk r w. case reg_register timed_memory_registry clk r (mw_registry w) of
        (x, m) \<Rightarrow> (x, w\<lparr>mw_registry := m\<rparr>)),
      reg_heartbeat = (\<lambda>clk i g w. case reg_heartbeat timed_memory_registry clk i g (mw_registry w) of
        (x, m) \<Rightarrow> (x, w\<lparr>mw_registry := m\<rparr>))\<rparr>"

definition inside_store :: "'d memory_world ExecutionStore" where
  "inside_store =
     \<lparr>store_create = (\<lambda>r w. case store_create memory_execution_store r (mw_store w) of
        (x, m) \<Rightarrow> (x, w\<lparr>mw_store := m\<rparr>)),
      store_get = (\<lambda>i w. case store_get memory_execution_store i (mw_store w) of
        (x, m) \<Rightarrow> (x, w\<lparr>mw_store := m\<rparr>)),
      store_update_state = (\<lambda>t i st w. case store_update_state memory_execution_store t i st (mw_store w) of
        (x, m) \<Rightarrow> (x, w\<lparr>mw_store := m\<rparr>))\<rparr>"

lemmas memory_world_defs = outside_broker_def outside_results_def inside_registry_def inside_store_def

text \<open>\<open>CoreExecutionService::new\<close>: the service and the state it starts from; the panic is the one of
  \<open>MemoryWorkerRegistry::new\<close>.\<close>

definition core_execution_service_new ::
  "'d Broker \<Rightarrow> 'd BackendResult \<Rightarrow> string \<Rightarrow> instant \<Rightarrow> 'd
   \<Rightarrow> panic + 'd memory_world CoreExecutionService \<times> 'd memory_world core" where
  "core_execution_service_new b results destination now d =
     (case memory_registry_default of
        Err e \<Rightarrow> Err e
      | Ok registry \<Rightarrow> Ok
          (with_stores (outside_broker b) (outside_results results) destination inside_registry inside_store,
           core_start \<lparr>mw_outside = d, mw_registry = (registry, now),
             mw_store = \<lparr>mes_executions = Map.empty, mes_poisoned = False\<rparr>\<rparr>))"

definition memory_plane_inv :: "wire \<Rightarrow> string \<Rightarrow> duration \<Rightarrow> ('d \<Rightarrow> keyspace) \<Rightarrow> 'd memory_world \<Rightarrow> bool" where
  "memory_plane_inv W p ttl view w \<longleftrightarrow> plane_inv W p ttl (view (mw_outside w)) \<and> memory_invar (mw_registry w)"

context redis_deployment
begin

lemma memory_plane_brokers:
  "broker (outside_broker (redis_broker R W (plane_broker p))) (\<lambda>w. plane_queue W p (rd_view R (mw_outside w)))
    (memory_plane_inv W p ttl (rd_view R)) free_destination"
proof (unfold_locales, unfold memory_plane_inv_def outside_broker_def Broker.select_convs, goal_cases)
  case (1 w e w')
  then show ?case by (auto split: prod.split_asm dest: plane.brk.publish_ok)
next
  case (2 w e x w')
  then show ?case by (auto split: prod.split_asm dest: plane.brk.publish_err)
next
  case (3 w d e w')
  then show ?case using plane.brk.consume_ok by auto
next
  case (4 w d x w')
  then show ?case using plane.brk.consume_err [of p ttl "mw_outside w" d x "mw_outside w'"] by auto
next
  case (5 w d)
  then show ?case using plane.brk.consume_waits by auto
next
  case (6 w e)
  then show ?case using plane.brk.invar_publish by (auto split: prod.split simp: prod_eq_iff)
next
  case (7 w d r w')
  then show ?case using plane.brk.invar_consume by auto
qed

lemma memory_plane_stores:
  "execution_store inside_store (\<lambda>w. mes_executions (mw_store w)) (memory_plane_inv W p ttl (rd_view R)) (\<lambda>r. r) (\<lambda>t. t)"
  by unfold_locales (auto simp: memory_plane_inv_def inside_store_def memory_store_defs put_state_def
      split: if_splits option.splits)

lemma memory_plane_registers:
  "worker_registry inside_registry (\<lambda>w. memory_members (mw_registry w)) (memory_plane_inv W p ttl (rd_view R))"
proof (unfold_locales, unfold memory_plane_inv_def inside_registry_def WorkerRegistry.select_convs WorkerDirectory.select_convs, goal_cases)
  case (1 w clk r out w')
  from 1(2) have "reg_register timed_memory_registry clk r (mw_registry w) = (Ok out, mw_registry w')"
    by (auto split: prod.split_asm)
  from memory_registry.register_ok [OF _ this] 1(1) show ?case by blast
next
  case (2 w clk r e w')
  then show ?case using memory_registry.register_err [of "mw_registry w" clk r e "mw_registry w'"] by (auto split: prod.split_asm)
next
  case (3 w clk i g w')
  then show ?case using memory_registry.heartbeat_ok [of "mw_registry w" clk i g "mw_registry w'"] by (auto split: prod.split_asm)
next
  case (4 w clk i g e w')
  then show ?case using memory_registry.heartbeat_err [of "mw_registry w" clk i g e "mw_registry w'"] by (auto split: prod.split_asm)
next
  case (5 w clk ids w')
  from 5(2) have "dir_available_workers timed_memory_registry clk (mw_registry w) = Some (Ok ids, mw_registry w')" by auto
  from memory_registry.listing_ok [OF _ this] 5(1) show ?case by blast
next
  case (6 w clk e w')
  then show ?case using memory_registry.listing_err [of "mw_registry w" clk e "mw_registry w'"] by auto
next
  case (7 w clk)
  then show ?case using memory_registry.listing_returns by auto
next
  case (8 w clk r)
  then show ?case using memory_registry.invar_register by (auto split: prod.split simp: prod_eq_iff)
next
  case (9 w clk i g)
  then show ?case using memory_registry.invar_heartbeat by (auto split: prod.split simp: prod_eq_iff)
next
  case (10 w clk x w')
  then show ?case using memory_registry.invar_listing [of "mw_registry w" clk x "mw_registry w'"] by auto
next
  case (11 w i r)
  then show ?case using memory_registry.members_id [of "mw_registry w"] by auto
qed

lemma memory_plane_keeps_results:
  "result_backend (outside_results (redis_result_backend R W (plane_results p)))
    (\<lambda>w. result_map (plane_results p) (rd_view R (mw_outside w))) (memory_plane_inv W p ttl (rd_view R)) (encode_result W)"
proof (unfold_locales, unfold memory_plane_inv_def outside_results_def BackendResult.select_convs, goal_cases)
  case (1 w j r w')
  then show ?case using plane.res.store_ok by (auto split: prod.split_asm)
next
  case (2 w j r e w')
  then show ?case using plane.res.store_err [of p ttl "mw_outside w" j r e "mw_outside w'"] by (auto split: prod.split_asm)
next
  case (3 w j r)
  then show ?case using plane.res.invar_store by (auto split: prod.split simp: prod_eq_iff)
qed

lemma memory_plane_frames:
  "control_plane_axioms (outside_broker (redis_broker R W (plane_broker p)))
    (\<lambda>w. plane_queue W p (rd_view R (mw_outside w))) (memory_plane_inv W p ttl (rd_view R)) free_destination inside_store
    (\<lambda>w. mes_executions (mw_store w)) inside_registry (\<lambda>w. memory_members (mw_registry w))
    (outside_results (redis_result_backend R W (plane_results p)))
    (\<lambda>w. result_map (plane_results p) (rd_view R (mw_outside w)))"
proof (unfold_locales, unfold memory_plane_inv_def memory_world_defs, goal_cases)
  case (1 i)
  show ?case by (rule plane.worker_valid)
next
  case (2 w e x w')
  then show ?case using plane.publish_frame by (auto split: prod.split_asm)
next
  case (3 w d x w')
  then show ?case using plane.consume_frame by auto
next
  case (7 w j r x w')
  then show ?case using plane.result_frame by (auto split: prod.split_asm)
qed (auto split: prod.split_asm)

end

sublocale redis_deployment \<subseteq> mplane: control_plane
    "outside_broker (redis_broker R W (plane_broker p))" "\<lambda>w. plane_queue W p (rd_view R (mw_outside w))"
    "memory_plane_inv W p ttl (rd_view R)" free_destination
    inside_store "\<lambda>w. mes_executions (mw_store w)" "\<lambda>r. r" "\<lambda>t. t"
    inside_registry "\<lambda>w. memory_members (mw_registry w)"
    "outside_results (redis_result_backend R W (plane_results p))" "\<lambda>w. result_map (plane_results p) (rd_view R (mw_outside w))"
    "encode_result W"
  for p ttl
  by intro_locales (rule memory_plane_brokers memory_plane_stores memory_plane_registers memory_plane_keeps_results memory_plane_frames)+

section \<open>What the service of \<open>new\<close> does\<close>

lemma core_execution_service_new_ok:
  assumes "plane_inv W p ttl (view d)"
  shows "\<exists>svc c. core_execution_service_new b results destination now d = Ok (svc, c)
    \<and> svc = with_stores (outside_broker b) (outside_results results) destination inside_registry inside_store
    \<and> memory_plane_inv W p ttl view (core_world c) \<and> mes_executions (mw_store (core_world c)) = Map.empty
    \<and> mw_outside (core_world c) = d \<and> \<not> core_poisoned c"
  using assms
  by (simp add: core_execution_service_new_def memory_registry_default_def memory_registry_new_def core_start_def
      memory_plane_inv_def memory_invar_def)

context redis_deployment
begin

lemma memory_queue_iff: "mplane.task_queue d = task_destination d"
  by (simp add: mplane.task_queue_def task_destination_def)

lemmas memory_report_terminal = mplane.report_terminal [where W = W]
lemmas memory_at_most_once = mplane.executed_at_most_once [where W = W, unfolded memory_queue_iff]

end

text \<open>So what the control plane guarantees over Redis it guarantees over the stores in memory: an accepted
  terminal report ends its execution and its job together, and a job is executed at most once.\<close>

lemma new_service_report_ends_job:
  assumes "redis_ok R" and "wire_ok W"
    and "core_execution_service_new (redis_broker R W (plane_broker p)) (redis_result_backend R W (plane_results p)) d now s0
      = Ok (svc, c0)"
    and "memory_plane_inv W p ttl (rd_view R) (core_world c)"
    and "report_execution W svc alone alone alone rts report c = (Ok resp, c')"
    and "state_of_code W (rer_state report) = Some st" and "st = Succeeded \<or> st = Failed"
  shows "\<exists>r outcome job. mes_executions (mw_store (core_world c)) (rer_execution_id report) = Some r
    \<and> rer_outcome report = Some outcome \<and> core_jobs c (xr_job_id r) = Some job
    \<and> mes_executions (mw_store (core_world c')) = (mes_executions (mw_store (core_world c)))
        (rer_execution_id report \<mapsto> put_state st (rt_store rts) r)
    \<and> core_jobs c' = (core_jobs c)(xr_job_id r \<mapsto>
        finished_record (rt_job rts) (outcome\<lparr>jr_execution_id := rer_execution_id report\<rparr>) job)"
proof -
  have svc: "svc = with_stores (outside_broker (redis_broker R W (plane_broker p)))
      (outside_results (redis_result_backend R W (plane_results p))) d inside_registry inside_store"
    using assms(3) by (auto simp: core_execution_service_new_def split: sum.split_asm)
  from redis_deployment.memory_report_terminal [OF redis_deployment.intro [OF assms(1,2)] assms(4)
      assms(5) [unfolded svc] assms(6,7)]
  show ?thesis by blast
qed

lemma new_service_executes_at_most_once:
  assumes "redis_ok R" and "wire_ok W" and "task_destination d" and "plane_inv W p ttl (rd_view R s0)"
    and "core_execution_service_new (redis_broker R W (plane_broker p)) (redis_result_backend R W (plane_results p)) d now s0
      = Ok (svc, c0)"
    and "submit_task W svc alone alone sub req c0 = (answer, c)"
    and "\<And>e. e \<in> set (plane_queue W p (rd_view R s0) d) \<Longrightarrow> be_correlation_id e \<noteq> Some (sub_job_id sub)"
    and "system_run W svc (scheduler_new (ces_broker svc) d (WorkerDirectory.truncate (ces_worker_registry svc))
        (ces_execution_store svc)) (\<lambda>fr. fr_job_id fr \<noteq> sub_job_id sub)
      (\<lambda>call. client_call free_destination call \<and> \<not> submits d (sub_job_id sub) call) t s"
    and "sys_world t = core_world c" and "flying (sub_job_id sub) (sys_scheduler t) = 0"
    and "mes_executions (mw_store (sys_world s)) k1 = Some r1" and "xr_job_id r1 = sub_job_id sub"
    and "mes_executions (mw_store (sys_world s)) k2 = Some r2" and "xr_job_id r2 = sub_job_id sub"
  shows "k1 = k2"
proof -
  from core_execution_service_new_ok [where view = "rd_view R", OF assms(4),
      of "redis_broker R W (plane_broker p)" "redis_result_backend R W (plane_results p)" d now] assms(5)
  have svc: "svc = with_stores (outside_broker (redis_broker R W (plane_broker p)))
      (outside_results (redis_result_backend R W (plane_results p))) d inside_registry inside_store"
    and c0: "memory_plane_inv W p ttl (rd_view R) (core_world c0)" "mes_executions (mw_store (core_world c0)) = Map.empty"
      "mw_outside (core_world c0) = s0" by simp_all
  have run: "accept W (with_stores (outside_broker (redis_broker R W (plane_broker p)))
      (outside_results (redis_result_backend R W (plane_results p))) d inside_registry inside_store) alone alone sub req c0
      = (answer, c)" using assms(6) by (simp add: submit_task_def svc)
  have "ces_broker svc = outside_broker (redis_broker R W (plane_broker p))" "ces_worker_registry svc = inside_registry"
      "ces_execution_store svc = inside_store"
    by (simp_all add: svc with_stores_def)
  note steps = assms(8) [unfolded this, unfolded svc]
  show ?thesis
    by (rule redis_deployment.memory_at_most_once [OF redis_deployment.intro [OF assms(1,2)] c0(1) assms(3) run _ _
          assms(9,10) steps assms(11-14)])
      (use assms(7) c0 in simp_all)
qed

end
