(* ===== verification/Startup.thy ===== *)
theory Startup
  imports Core_System
begin

text \<open>
  \<^verbatim>\<open>src/src/startup.rs\<close>, \<open>serve\<close> of \<^verbatim>\<open>src/src/api/grpc.rs\<close> and \<open>main\<close> of \<^verbatim>\<open>src/src/main.rs\<close>: how a
  configuration becomes a running control plane or worker, and what the startup information shows. Files,
  the YAML reader, output, opening a Redis client, binding a listener and the gRPC stubs are the
  parameter \<^verbatim>\<open>platform\<close>; so is the JSON writer, of which the model keeps the value it is given. The
  arguments of \<open>main\<close> are what the derived parser of the command line returns.
\<close>

section \<open>Startup information\<close>

definition address_without_credentials :: "string \<Rightarrow> string" where
  "address_without_credentials address =
     (case split_once_str ''://'' address of
        None \<Rightarrow> address
      | Some (scheme, remainder) \<Rightarrow>
          (case rsplit_once (CHR 0x40) remainder of
             None \<Rightarrow> address
           | Some (_, endpoint) \<Rightarrow> scheme @ ''://'' @ endpoint))"

definition DESCRIPTION :: string where
  "DESCRIPTION =
     ''A language-agnostic, resource-aware distributed execution engine for modern workloads. ''
     @ ''ThreadWeave orchestrates tasks, scheduling, resources, and observability while letting any ''
     @ ''language provide its own native runtime through a stable execution protocol.''"

definition PROTOCOL_VERSIONS :: string where
  "PROTOCOL_VERSIONS = ''common/v1, artifacts/v1, broker/v1, execution/v1, runtime/v1''"

definition PROTOCOLS :: "string list" where
  "PROTOCOLS = [''common/v1'', ''artifacts/v1'', ''broker/v1'', ''execution/v1'', ''runtime/v1'']"

text \<open>\<open>CARGO_PKG_VERSION\<close> of the package.\<close>

definition PROGRAM_VERSION :: string where
  "PROGRAM_VERSION = ''0.1.10''"

record connection_info =
  ci_transport :: string
  ci_address :: string
  ci_key_prefix :: string

record startup_info =
  si_type :: string
  si_name :: string
  si_description :: string
  si_component :: string
  si_program_version :: string
  si_protocols :: "string list"
  si_broker :: connection_info
  si_result_backend :: connection_info

text \<open>The object \<open>print_json_to\<close> writes.\<close>

definition startup_json :: "Config \<Rightarrow> string \<Rightarrow> startup_info" where
  "startup_json config component =
     (let redis_address = address_without_credentials (rc_url (cfg_redis config)) in
      \<lparr>si_type = ''startup'', si_name = ''ThreadWeave'', si_description = DESCRIPTION, si_component = component,
       si_program_version = PROGRAM_VERSION, si_protocols = PROTOCOLS,
       si_broker = \<lparr>ci_transport = ''redis'', ci_address = redis_address,
         ci_key_prefix = bc_key_prefix (cfg_broker config)\<rparr>,
       si_result_backend = \<lparr>ci_transport = ''redis'', ci_address = redis_address,
         ci_key_prefix = bc_key_prefix (cfg_broker config) @ '':results''\<rparr>\<rparr>)"

text \<open>The banner, with the UTF-8 bytes of the frame: corner, rule and bar, and the middle dot.\<close>

definition LOGO :: "string list" where
  "LOGO =
    [''  _______ _                        _ __          __'',
     '' |__   __| |                      | |'' @ [CHR 0x5C] @ '' '' @ [CHR 0x5C] @ ''        / /'',
     ''    | |  | |__  _ __ ___  __ _  __| |'' @ [CHR 0x5C] @ '' '' @ [CHR 0x5C] @ ''  /'' @ [CHR 0x5C]
        @ ''  / /__  __ ___   _____'',
     ''    | |  | '' @ [CHR 0x27] @ ''_ '' @ [CHR 0x5C] @ ''| '' @ [CHR 0x27] @ ''__/ _ '' @ [CHR 0x5C]
        @ ''/ _'' @ [CHR 0x60] @ '' |/ _'' @ [CHR 0x60] @ '' | '' @ [CHR 0x5C] @ '' '' @ [CHR 0x5C] @ ''/  ''
        @ [CHR 0x5C] @ ''/ / _ '' @ [CHR 0x5C] @ ''/ _'' @ [CHR 0x60] @ '' '' @ [CHR 0x5C] @ '' ''
        @ [CHR 0x5C] @ '' / / _ '' @ [CHR 0x5C],
     ''    | |  | | | | | |  __/ (_| | (_| |  '' @ [CHR 0x5C] @ ''  /'' @ [CHR 0x5C] @ ''  /  __/ (_| |''
        @ [CHR 0x5C] @ '' V /  __/'',
     ''    |_|  |_| |_|_|  '' @ [CHR 0x5C] @ ''___|'' @ [CHR 0x5C] @ ''__,_|'' @ [CHR 0x5C] @ ''__,_|   ''
        @ [CHR 0x5C] @ ''/  '' @ [CHR 0x5C] @ ''/ '' @ [CHR 0x5C] @ ''___|'' @ [CHR 0x5C] @ ''__,_| ''
        @ [CHR 0x5C] @ ''_/ '' @ [CHR 0x5C] @ ''___|'']"

definition RULE :: string where
  "RULE = concat (replicate 70 [CHR 0xE2, CHR 0x94, CHR 0x80])"

definition BAR :: string where
  "BAR = '' '' @ [CHR 0xE2, CHR 0x94, CHR 0x82] @ '' ''"

definition DOT :: string where
  "DOT = '' '' @ [CHR 0xC2, CHR 0xB7] @ '' ''"

definition banner_lines :: "Config \<Rightarrow> string \<Rightarrow> string list" where
  "banner_lines config component =
     (let redis_address = address_without_credentials (rc_url (cfg_redis config));
          result_prefix = bc_key_prefix (cfg_broker config) @ '':results'' in
      [[]] @ LOGO @
      [[],
       '' '' @ DESCRIPTION,
       [],
       '' '' @ [CHR 0xE2, CHR 0x94, CHR 0x8C] @ RULE,
       BAR @ ''Component       '' @ component,
       BAR @ ''Program version v'' @ PROGRAM_VERSION,
       BAR @ ''Protocols       '' @ PROTOCOL_VERSIONS,
       BAR @ ''Broker          redis'' @ DOT @ redis_address,
       BAR @ ''Result backend  redis'' @ DOT @ redis_address @ DOT @ ''prefix '' @ result_prefix,
       '' '' @ [CHR 0xE2, CHR 0x94, CHR 0x94] @ RULE,
       []])"

definition banner :: "Config \<Rightarrow> string \<Rightarrow> string" where
  "banner config component = concat (map (\<lambda>l. l @ [CHR 0x0A]) (banner_lines config component))"

text \<open>What goes to stdout and stderr.\<close>

record ready_info =
  ri_type :: string
  ri_endpoint :: string
  ri_transport :: string
  ri_protocol :: string

datatype printed = StartupJson startup_info | Banner string | Ready ready_info

definition startup_output :: "bool \<Rightarrow> Config \<Rightarrow> string \<Rightarrow> printed" where
  "startup_output json config component =
     (if json then StartupJson (startup_json config component) else Banner (banner config component))"

section \<open>The platform\<close>

text \<open>A listener is known by what its \<open>local_addr\<close> returns; \<open>pf_uuids\<close> are the two fresh identifiers of a
  worker.\<close>

record 'd platform =
  pf_open_file :: "string \<Rightarrow> string + string"
  pf_from_reader :: "string \<Rightarrow> string + Config"
  pf_write :: "printed \<Rightarrow> string + unit"
  pf_open_client :: "string \<Rightarrow> string + unit"
  pf_bind :: "string \<Rightarrow> string + (string + string)"
  pf_remote :: "'d remote"
  pf_host :: host
  pf_uuids :: "string \<times> string"

section \<open>The server\<close>

definition from_secs :: "u64 \<Rightarrow> duration" where
  "from_secs n = unat n * 10 ^ 9"

definition announce_ready :: "string \<Rightarrow> printed" where
  "announce_ready address =
     Ready \<lparr>ri_type = ''ready'', ri_endpoint = ''http://'' @ address, ri_transport = ''tcp'', ri_protocol = ''grpc''\<rparr>"

text \<open>\<open>serve\<close> up to the point where it listens: the parts it builds, in its order, each of which may
  fail.\<close>

definition serve ::
  "'d platform \<Rightarrow> 'd redis \<Rightarrow> wire \<Rightarrow> Config \<Rightarrow> 'd Broker \<Rightarrow> string + ('d CoreExecutionService \<times> 'd Scheduler)" where
  "serve P R W config b =
     (let url = rc_url (cfg_redis config); key_prefix = bc_key_prefix (cfg_broker config);
          task_destination = bc_task_destination (cfg_broker config) in
      bind_ok (redis_result_backend_new (pf_open_client P) url (key_prefix @ '':results'')) (\<lambda>results.
      bind_ok (redis_registry_new (pf_open_client P) url (key_prefix @ '':workers'')
          (from_secs (rc_worker_membership_ttl_seconds (cfg_redis config)))) (\<lambda>registry.
      bind_ok (redis_execution_store_new (pf_open_client P) url (key_prefix @ '':executions'')) (\<lambda>store.
      let service = with_stores b (redis_result_backend R W results) task_destination
            (redis_worker_registry R W registry) (redis_execution_store R W store);
          scheduler = scheduler_new b task_destination
            (WorkerDirectory.truncate (redis_worker_registry R W registry)) (redis_execution_store R W store) in
      bind_ok (server_config config) (\<lambda>server.
      bind_ok (pf_bind P (sc_bind_address server)) (\<lambda>local_addr.
      bind_ok local_addr (\<lambda>address.
      bind_ok (pf_write P (announce_ready address)) (\<lambda>_. Ok (service, scheduler)))))))))"

text \<open>The \<open>select!\<close> it ends with: whichever of the scheduler and the server ends first decides.\<close>

datatype serve_event = SchedulerEnded BrokerError | ServerEnded "string + unit"

fun serve_result :: "serve_event \<Rightarrow> string + unit" where
  "serve_result (SchedulerEnded e) = Err e"
| "serve_result (ServerEnded r) = r"

definition run_server ::
  "'d platform \<Rightarrow> 'd redis \<Rightarrow> wire \<Rightarrow> Config \<Rightarrow> string + ('d CoreExecutionService \<times> 'd Scheduler)" where
  "run_server P R W config =
     bind_ok (server_config config) (\<lambda>_.
     bind_ok (redis_broker_new (pf_open_client P) (rc_url (cfg_redis config)) (bc_key_prefix (cfg_broker config))) (\<lambda>b.
       serve P R W config (redis_broker R W b)))"

section \<open>The worker\<close>

definition run_worker :: "'d platform \<Rightarrow> 'd redis \<Rightarrow> wire \<Rightarrow> Config \<Rightarrow> string + 'd Worker" where
  "run_worker P R W config =
     bind_ok (worker_config config) (\<lambda>wc.
     bind_ok (redis_broker_new (pf_open_client P) (rc_url (cfg_redis config)) (bc_key_prefix (cfg_broker config))) (\<lambda>b.
       Ok (worker_new (pf_remote P) (pf_host P) (fst (pf_uuids P)) (snd (pf_uuids P)) (redis_broker R W b) wc)))"

section \<open>The program\<close>

record Options =
  opt_config :: string
  opt_json :: bool

datatype Role = is_ServerRole: ServerRole (role_options: Options) | WorkerRole (role_options: Options)

datatype 'd running = is_ServerRuns: ServerRuns "'d CoreExecutionService" "'d Scheduler" | WorkerRuns "'d Worker"

definition main :: "'d platform \<Rightarrow> 'd redis \<Rightarrow> wire \<Rightarrow> Role \<Rightarrow> string + 'd running" where
  "main P R W role =
     (let (component, options, is_server) =
        (case role of
           ServerRole options \<Rightarrow> (''server'', options, True)
         | WorkerRole options \<Rightarrow> (''worker'', options, False)) in
      bind_ok (load (pf_open_file P) (pf_from_reader P) (opt_config options)) (\<lambda>config.
      bind_ok (pf_write P (startup_output (opt_json options) config component)) (\<lambda>_.
        if is_server then
          bind_ok (run_server P R W config) (\<lambda>(service, scheduler). Ok (ServerRuns service scheduler))
        else bind_ok (run_worker P R W config) (\<lambda>wk. Ok (WorkerRuns wk)))))"

section \<open>Properties\<close>

lemma bind_ok_eq_Ok: "bind_ok r k = Ok v \<longleftrightarrow> (\<exists>x. r = Ok x \<and> k x = Ok v)"
  by (cases r) simp_all

lemma trim_end_suffix: "trim_end_matches (CHR '':'') (s @ ''workers'') = s @ ''workers''"
  "trim_end_matches (CHR '':'') (s @ ''executions'') = s @ ''executions''"
  by (simp_all add: trim_end_matches_def)

lemma serve_ttl:
  assumes "serve P R W config b = Ok parts"
  shows "10 ^ 9 \<le> from_secs (rc_worker_membership_ttl_seconds (cfg_redis config))"
proof -
  from assms have "from_secs (rc_worker_membership_ttl_seconds (cfg_redis config)) \<noteq> 0"
    by (auto simp: serve_def Let_def bind_ok_eq_Ok redis_registry_new_def split: if_splits)
  then show ?thesis
    by (cases "unat (rc_worker_membership_ttl_seconds (cfg_redis config))") (simp_all add: from_secs_def)
qed

lemma empty_plane_inv:
  assumes "10 ^ 9 \<le> ttl"
  shows "plane_inv W p ttl empty_keyspace"
proof -
  have "1 \<le> ttl div 1000000" using div_le_mono [OF assms, of 1000000] by simp
  then have "0 < ttl_millis (plane_registry p ttl)" by (simp add: ttl_millis_def plane_registry_def)
  with plane_empty show ?thesis by blast
qed

lemma run_server_parts:
  assumes "run_server P R W config = Ok (service, scheduler)"
    and "p = bc_key_prefix (cfg_broker config)" and "d = bc_task_destination (cfg_broker config)"
    and "ttl = from_secs (rc_worker_membership_ttl_seconds (cfg_redis config))"
  shows "service = plane_service R W p ttl d \<and> scheduler = redis_scheduler R W p ttl d \<and> 10 ^ 9 \<le> ttl"
proof -
  have trim: "trim_end_matches (CHR '':'') (p @ '':workers'') = p @ '':workers''"
    "trim_end_matches (CHR '':'') (p @ '':executions'') = p @ '':executions''"
    using trim_end_suffix [of "p @ '':''"] by simp_all
  from assms(1) obtain b where "serve P R W config b = Ok (service, scheduler)"
    by (auto simp: run_server_def bind_ok_eq_Ok)
  with serve_ttl assms(4) have "10 ^ 9 \<le> ttl" by blast
  moreover from assms trim have "service = plane_service R W p ttl d" "scheduler = redis_scheduler R W p ttl d"
    by (auto simp: run_server_def serve_def Let_def bind_ok_eq_Ok redis_registry_new_def
        redis_result_backend_new_def redis_execution_store_new_def redis_broker_new_def plane_service_def
        redis_scheduler_def plane_broker_def plane_results_def plane_registry_def plane_store_def
        split: if_splits sum.splits)
  ultimately show ?thesis by simp
qed

lemma run_worker_parts:
  assumes "run_worker P R W config = Ok wk"
  shows "wk_broker wk = redis_broker R W (plane_broker (bc_key_prefix (cfg_broker config)))
    \<and> wk_destination wk = worker_destination (wi_worker_id (wk_identity wk))"
  using assms
  by (auto simp: run_worker_def bind_ok_eq_Ok redis_broker_new_def worker_new_def worker_identity_new_def
      plane_broker_def Let_def split: sum.splits)

text \<open>C33. The program a configuration starts is the system of this development. When the server role gets as
  far as listening, its service and its scheduler share one broker, one registry and one execution store
  under the configured prefix, the time to live is at least a second, and an empty Redis satisfies the
  invariant. When the worker role starts, it takes its assignments from the broker under the same prefix,
  from the queue the scheduler publishes to for its identifier.\<close>

theorem main_starts_the_plane:
  assumes "main P R W role = Ok running"
  shows "\<exists>config. load (pf_open_file P) (pf_from_reader P) (opt_config (role_options role)) = Ok config
    \<and> is_ServerRuns running = is_ServerRole role
    \<and> (let p = bc_key_prefix (cfg_broker config); d = bc_task_destination (cfg_broker config);
           ttl = from_secs (rc_worker_membership_ttl_seconds (cfg_redis config)) in
       case running of
         ServerRuns service scheduler \<Rightarrow>
           service = plane_service R W p ttl d \<and> scheduler = redis_scheduler R W p ttl d
           \<and> 10 ^ 9 \<le> ttl \<and> plane_inv W p ttl empty_keyspace
       | WorkerRuns wk \<Rightarrow>
           wk_broker wk = redis_broker R W (plane_broker p)
           \<and> wk_destination wk = worker_destination (wi_worker_id (wk_identity wk)))"
proof (cases role)
  case (ServerRole options)
  with assms obtain config service scheduler where
    "load (pf_open_file P) (pf_from_reader P) (opt_config options) = Ok config"
    "run_server P R W config = Ok (service, scheduler)" "running = ServerRuns service scheduler"
    by (auto simp: main_def bind_ok_eq_Ok)
  with run_server_parts [OF this(2) refl refl refl] empty_plane_inv ServerRole show ?thesis
    by (intro exI [of _ config]) (simp add: Let_def)
next
  case (WorkerRole options)
  with assms obtain config wk where
    "load (pf_open_file P) (pf_from_reader P) (opt_config options) = Ok config"
    "run_worker P R W config = Ok wk" "running = WorkerRuns wk"
    by (auto simp: main_def bind_ok_eq_Ok)
  with run_worker_parts [OF this(2)] WorkerRole show ?thesis by (intro exI [of _ config]) (simp add: Let_def)
qed

definition sample_config :: Config where
  "sample_config =
     \<lparr>cfg_server = Some \<lparr>sc_bind_address = ''127.0.0.1:0''\<rparr>,
      cfg_redis = \<lparr>rc_url = ''redis://localhost:6379/'',
        rc_worker_membership_ttl_seconds = default_worker_membership_ttl_seconds\<rparr>,
      cfg_broker = \<lparr>bc_key_prefix = ''tw'', bc_task_destination = ''tasks''\<rparr>, cfg_worker = None\<rparr>"

definition sample_platform :: "reference_state platform" where
  "sample_platform =
     \<lparr>pf_open_file = (\<lambda>_. Ok []), pf_from_reader = (\<lambda>_. Ok sample_config), pf_write = (\<lambda>_. Ok ()),
      pf_open_client = (\<lambda>_. Ok ()), pf_bind = (\<lambda>_. Ok (Ok ''127.0.0.1:40000'')),
      pf_remote = \<lparr>rm_connect = (\<lambda>_ w. (Ok (), w)),
        rm_register_worker = (\<lambda>_ _ w. (Ok \<lparr>rwr_accepted = True, rwr_lease_id = None\<rparr>, w)),
        rm_report_heartbeat = (\<lambda>_ _ w. (Ok \<lparr>rhr_accepted = True\<rparr>, w)),
        rm_report_execution = (\<lambda>_ _ w. (Ok \<lparr>rxr_accepted = True\<rparr>, w))\<rparr>,
      pf_host = \<lparr>host_variable = None, host_file = None\<rparr>, pf_uuids = (''w1'', ''g1'')\<rparr>"

lemma sample_load: "load (pf_open_file sample_platform) (pf_from_reader sample_platform) path = Ok config
    \<longleftrightarrow> config = sample_config"
  by (auto simp: load_def sample_platform_def)

theorem main_starts_the_plane_witness:
  "\<exists>service scheduler. main sample_platform calm_redis unary_wire
      (ServerRole \<lparr>opt_config = ''threadweave.yaml'', opt_json = True\<rparr>) = Ok (ServerRuns service scheduler)
    \<and> scheduler = redis_scheduler calm_redis unary_wire ''tw'' (30 * 10 ^ 9) ''tasks''"
proof -
  have ttl: "from_secs default_worker_membership_ttl_seconds = 30 * 10 ^ 9"
    by (simp add: from_secs_def default_worker_membership_ttl_seconds_def)
  then obtain service scheduler where
    run: "main sample_platform calm_redis unary_wire
      (ServerRole \<lparr>opt_config = ''threadweave.yaml'', opt_json = True\<rparr>) = Ok (ServerRuns service scheduler)"
    by (simp add: main_def load_def run_server_def serve_def Let_def sample_platform_def sample_config_def
        server_config_def redis_broker_new_def redis_result_backend_new_def redis_registry_new_def
        redis_execution_store_new_def)
  from main_starts_the_plane [OF run] have
    "scheduler = redis_scheduler calm_redis unary_wire ''tw'' (30 * 10 ^ 9) ''tasks''"
    using ttl by (auto simp: sample_load Let_def) (simp add: sample_config_def)
  with run show ?thesis by blast
qed

text \<open>C40. Nothing the program prints when it starts depends on the credentials in the Redis address: for a
  user part and a host, the banner and the JSON object are those of the address without the user part,
  whatever characters the user part has, and they show the address of the host.\<close>

theorem startup_hides_credentials:
  assumes "CHR '':'' \<notin> set scheme" and "CHR 0x40 \<notin> set host"
    and "rc_url (cfg_redis config) = scheme @ ''://'' @ credentials @ [CHR 0x40] @ host"
  shows "startup_output json config component
      = startup_output json (config\<lparr>cfg_redis := (cfg_redis config)\<lparr>rc_url := scheme @ ''://'' @ host\<rparr>\<rparr>) component
    \<and> ci_address (si_broker (startup_json config component)) = scheme @ ''://'' @ host
    \<and> ci_address (si_result_backend (startup_json config component)) = scheme @ ''://'' @ host"
proof -
  have split: "split_once_str ''://'' (scheme @ ''://'' @ rest) = Some (scheme, rest)" for rest
    using assms(1) by (induction scheme) auto
  have "rsplit_once (CHR 0x40) (credentials @ [CHR 0x40] @ host) = Some (credentials, host)"
    using assms(2) by (simp add: rsplit_once_Some_iff)
  with split [of "credentials @ [CHR 0x40] @ host"]
  have hidden: "address_without_credentials (rc_url (cfg_redis config)) = scheme @ ''://'' @ host"
    unfolding assms(3) address_without_credentials_def by simp
  have "rsplit_once (CHR 0x40) host = None"
    using assms(2) by (cases "rsplit_once (CHR 0x40) host") (auto simp: rsplit_once_Some_iff)
  with split [of host] have "address_without_credentials (scheme @ ''://'' @ host) = scheme @ ''://'' @ host"
    unfolding address_without_credentials_def by simp
  with hidden show ?thesis
    by (simp add: startup_output_def startup_json_def banner_def banner_lines_def Let_def)
qed

theorem startup_hides_credentials_witness:
  "ci_address (si_broker (startup_json (sample_config\<lparr>cfg_redis :=
      \<lparr>rc_url = ''redis://user:s@cret@redis.internal:6379/'', rc_worker_membership_ttl_seconds = 30\<rparr>\<rparr>) ''server''))
   = ''redis://redis.internal:6379/''"
  using startup_hides_credentials [of "''redis''" "''redis.internal:6379/''"
      "sample_config\<lparr>cfg_redis := \<lparr>rc_url = ''redis://user:s@cret@redis.internal:6379/'',
        rc_worker_membership_ttl_seconds = 30\<rparr>\<rparr>" "''user:s@cret''" "False" "''server''"]
  by simp

end
