(* ===== verification/Spec2Isabelle.thy ===== *)
theory Spec2Isabelle
  imports Pending_Spec Worker_Wakeups Worker_Sessions Worker_Capacity Worker_Liveness Scheduling Submission_Races
    Worker_Plane Whole_System Control_Plane_Memory Startup
begin

text \<open>
  \<^bold>\<open>A verification of ThreadWeave\<close>

  ThreadWeave executes tasks on workers. The \<^emph>\<open>server\<close> role is the control plane: a gRPC service
  accepts tasks, keeps a table of jobs and answers workers; a scheduler takes accepted tasks from a queue
  and gives each to a registered worker. The \<^emph>\<open>worker\<close> role registers with the control plane, sends
  heartbeats, takes assignments from its own queue into a table, hands them to the language runtimes
  connected to it and reports what they do. Queues, results, executions and worker registrations live in
  one Redis. All source paths below are under \<^verbatim>\<open>src/src/\<close>.

  \<^bold>\<open>What models what\<close>

  \<^item> \<^verbatim>\<open>Prelude\<close>, \<^verbatim>\<open>Rust_Std\<close>: results, panics, \<open>.map_err(f)?\<close>, machine integers, and the string and
    number functions of the Rust standard library the sources use, on UTF-8 bytes.
  \<^item> \<^verbatim>\<open>Protocols\<close>: the protobuf messages, as records; the generated encoders and decoders are the
    parameter \<open>wire\<close>. \<^verbatim>\<open>Wire_Instance\<close> gives a wire format that satisfies \<open>wire_ok\<close>.
  \<^item> \<^verbatim>\<open>Redis_Service\<close>: Redis as the parameter \<open>redis\<close>, with a reference instance that may lose requests
    and replies and a calm one that does not; the locales \<open>redis_deployment\<close> and \<open>reliable_deployment\<close>.
  \<^item> \<^verbatim>\<open>Pending_Executions\<close>, \<^verbatim>\<open>Pending_Lifecycle\<close>: \<open>PendingExecutions\<close> of \<^verbatim>\<open>worker/runtime.rs\<close>, one function
    per method, as each holds the mutex throughout; its step relation, invariant and runs.
    \<^verbatim>\<open>Pending_Spec\<close>: what the table promises, as an abstract dispenser, and that the table refines it.
    \<^verbatim>\<open>Worker_Tasks\<close>, \<^verbatim>\<open>Worker_Wakeups\<close>: the same methods with the waiting between them, as a step relation
    (\<open>task_step\<close>): \<open>next_for\<close> from its \<open>Notified\<close> future to the lock and to the await, the notifications made
    after the mutex was released, and what \<open>select!\<close> drops.
  \<^item> \<^verbatim>\<open>Worker_Runtime\<close>, \<^verbatim>\<open>Worker_Sessions\<close>: \<open>WorkerRuntimeService\<close> of \<^verbatim>\<open>worker/runtime.rs\<close>: events,
    reports, and the task of a session.
  \<^item> \<^verbatim>\<open>Worker\<close>, \<^verbatim>\<open>Worker_Capacity\<close>: \<^verbatim>\<open>worker/worker.rs\<close>: identity, registration, the assignment and
    heartbeat loops, the gRPC client, the display of memory.
  \<^item> \<^verbatim>\<open>Execution_Store\<close>, \<^verbatim>\<open>Execution_Store_Redis\<close>: \<^verbatim>\<open>execution_store.rs\<close>, in memory and in Redis with its
    Lua scripts.
  \<^item> \<^verbatim>\<open>Broker\<close>, \<^verbatim>\<open>Result_Backend\<close>: \<^verbatim>\<open>broker/\<close> and \<^verbatim>\<open>result_backend/\<close>.
  \<^item> \<^verbatim>\<open>Worker_Registry\<close>, \<^verbatim>\<open>Worker_Identity\<close>, \<^verbatim>\<open>Worker_Membership\<close>, \<^verbatim>\<open>Worker_Membership_Redis\<close>,
    \<^verbatim>\<open>Worker_Leases\<close>, \<^verbatim>\<open>Worker_Liveness\<close>: \<^verbatim>\<open>worker_registry.rs\<close>: both registries, the \<open>SCAN\<close> loop,
    incarnation identifiers, leases.
  \<^item> \<^verbatim>\<open>Scheduler\<close>, \<^verbatim>\<open>Scheduling\<close>: \<^verbatim>\<open>scheduler/scheduler.rs\<close>, the step, the step cut between its service calls, the
    loop.
  \<^item> \<^verbatim>\<open>Api\<close>, \<^verbatim>\<open>Api_Jobs\<close>, \<^verbatim>\<open>Api_Plane\<close>: \<open>CoreExecutionService\<close> of \<^verbatim>\<open>api/grpc.rs\<close>, every handler.
  \<^item> \<^verbatim>\<open>Redis_Frames\<close>, \<^verbatim>\<open>Control_Plane\<close>, \<^verbatim>\<open>Control_Plane_Redis\<close>, \<^verbatim>\<open>Delivery\<close>, \<^verbatim>\<open>Core_System\<close>: the parts over
    one Redis: which keys each operation touches, so that the services under one prefix do not disturb
    each other, and what follows for the control plane. \<^verbatim>\<open>Control_Plane_Memory\<close>: the service of
    \<open>CoreExecutionService::new\<close>, with the registry and the execution store in memory.
  \<^item> \<^verbatim>\<open>Task_Lifecycle\<close>, \<^verbatim>\<open>Worker_Plane\<close>, \<^verbatim>\<open>Submission_Races\<close>, \<^verbatim>\<open>Whole_System\<close>: workers connected to the
    control plane, and the system as a whole, as a step relation (\<open>system_step\<close>).
  \<^item> \<^verbatim>\<open>Config\<close>, \<^verbatim>\<open>Startup\<close>: \<^verbatim>\<open>config/mod.rs\<close>, \<^verbatim>\<open>startup.rs\<close>, \<^verbatim>\<open>main.rs\<close> and \<open>serve\<close> of \<^verbatim>\<open>api/grpc.rs\<close>:
    how a configuration becomes these parts, and the startup information.

  \<^bold>\<open>How code becomes definitions\<close>

  A struct is a record, an enum a datatype, \<open>u64\<close> a 64-bit word, a string a list of bytes. A trait is a
  record of operations over a world \<open>'w\<close>; an \<open>impl\<close> is a value of that record. A fallible call returns
  \<open>Err e\<close> or \<open>Ok v\<close> with the new world; a panic is a value of its own; a call that waits for another
  party (an empty queue, a full channel) is \<^const>\<open>None\<close>. Values of \<open>Uuid::new_v4\<close>, clock readings and the
  iteration order of a \<open>HashMap\<close> are arguments.

  Concurrency is in the order of steps. Methods that hold one lock are atomic. The handlers of the API
  and the session task are interrupted where they await: what all other tasks do there is an argument
  (\<open>others\<close>), which the theorems constrain to be calls of the same program (\<open>interleaved\<close>,
  \<open>table_activity\<close>, \<open>client_call\<close>). A theorem that says \<open>alone\<close> is about a handler that nothing
  interrupts. In \<open>system_step\<close> the scheduler (\<open>scheduler_next\<close>), the calls of the handlers, the workers
  (\<open>worker_next\<close>) and the methods of the tables take turns between the calls of the services: a
  listing is one call, and so is a connection together with its command; that \<open>schedule_one\<close> and
  \<open>execute_one\<close> are uninterrupted runs of these is proved.

  In \<open>task_step\<close> the sessions, the arrivals and the notifications of one worker take turns at every lock and
  await; seen from the table each step is at most one method call.

  There is no fuel. \<open>scheduler_run\<close>, \<open>session_loop\<close> and \<open>worker_loops\<close> follow a list of inputs, so that a
  statement for every list is one for every prefix of the endless loop. The \<open>SCAN\<close> loop, whose end
  depends on Redis, is a partial function into \<open>option\<close>, and that it ends is proved.

  \<^bold>\<open>Hypotheses on code outside the repository\<close>

  \<^item> \<open>wire_ok\<close>: decoding an encoded message gives it back, enumeration values and their numbers agree.
  \<^item> \<open>redis_ok\<close>: each command has its documented effect on the keys it names, a key with a deadline may
    vanish no earlier than that, a request may be lost before or after Redis ran it, a full \<open>SCAN\<close> reports
    every key that stays throughout.
  \<^item> \<open>reliable\<close>: nothing is lost; only statements that a call succeeds, and the refinement of the store in
    memory, use it.
  \<^item> \<open>notify\<close>: tokio's \<open>Notify\<close>: \<open>notify_one\<close> wakes one sleeping future or stores the one permit,
    \<open>notify_waiters\<close> wakes every future that exists, a future that is dropped with a notification of
    \<open>notify_one\<close> passes it on.
  \<^item> \<open>serves\<close>: the gRPC transport between a worker and the control plane connects, runs the handler of a
    call once and returns its answer.

  Each is satisfied by an instance of the development, on which the witnesses run.

  \<^bold>\<open>What is shown\<close>

  \<^item> The assignment table: it refines a dispenser of assignments; its queue holds exactly the pending assignments, once each; no \<open>expect\<close> fails;
    a started assignment is never handed out again, a finished one never changes, an accepted one is
    never dropped; assignments leave in the order in which they were put in line, where a session that ends
    puts those it had not started at the end. No wake-up is lost as long as sessions end where they wait,
    and one is lost when a session ends between its wake-up and the lock. A session that ends gives back
    exactly what it held and had not started. A terminal event is recorded, with its outcome, before it is
    reported, and when that report fails it is never repeated.
  \<^item> The stores: the Redis execution store refines the one in memory; an execution is created once and
    keeps its identity; the broker delivers in order and at most once whatever is lost, and exactly once
    when nothing is.
  \<^item> The registry: stale generations are fenced off; a listing ends and names the members, sorted; a lease
    lasts exactly its time to live; a worker that beats in time stays a member whatever else happens; a
    time to live that Redis refuses leaves a member that never expires; incarnation identifiers and the
    key pattern are exact.
  \<^item> The scheduler: what a step changes, that it makes progress, that it consumes nothing when it defers,
    that a task it cannot decode ends it, and that a task goes to the worker chosen before the wait for it,
    registered or not.
  \<^item> The API: what submissions and reports leave behind on every branch, that jobs stay consistent under
    any interleaving, that a heartbeat's answer is the truth about membership and, over a reliable
    connection, acceptance the same as membership, that a report that is not sensible or of an unknown
    execution changes nothing, that reports are not ordered, and that an early outcome is overwritten in the result backend.
  \<^item> Workers beside the control plane: a worker takes assignments only once it is registered, and one
    whose lease expired never comes back by itself.
  \<^item> The whole: a submitted task is carried out and its outcome reaches the client; along every run of the
    system every assignment has its execution record, wherever it is, and a job is executed at most once;
    the server and the worker that \<open>main\<close>
    starts are the parts these statements are about; sizes in a configuration never wrap around; the startup
    information hides credentials.

  The contracts between parts are the locales \<open>work_queue\<close>, \<open>execution_store\<close>, \<open>broker\<close>, \<open>result_backend\<close>,
  \<open>worker_registry\<close> and \<open>control_plane\<close> with its reliable extension, and \<open>notify\<close> for tokio; the Redis
  implementations satisfy them as sublocales of \<open>redis_deployment\<close> and \<open>reliable_deployment\<close>, the
  implementations in memory as interpretations; the control plane with its stores in memory is a second sublocale of \<open>control_plane\<close>.

  \<^bold>\<open>Not modelled\<close>

  The parser of the command line and the set-up of logging (\<^verbatim>\<open>main.rs\<close>), log
  messages, the wait for the interrupt signal (its arrival is an input of \<open>run_until_shutdown\<close>), the JSON
  writer, TCP and gRPC transport, the derived deserializers of the configuration, which belong to serde,
  module declarations (\<^verbatim>\<open>lib.rs\<close>, \<^verbatim>\<open>protocols.rs\<close>, the \<^verbatim>\<open>mod.rs\<close> files without code), and the tests, which
  make up most of the lines of the sources that are not modelled.
\<close>

end
